(* ===== verification/Prelude.thy ===== *)
theory Prelude
  imports Main "HOL-Library.Word"
begin

text \<open>
  Shared vocabulary of the development.  Go slices \<open>s[i:j]\<close> are \<open>segment\<close>, Go's
  \<open>(value, error)\<close> returns are the sum type with \<open>Inl\<close> for the error, byte strings
  are either \<^typ>\<open>string\<close> (text: addresses, tables) or \<open>8 word\<close> lists (wire data).
  The lemma collections below carry the proofs of the component theories:
  \<open>slice_simps\<close> for slices of lists, \<open>be_simps\<close> for big-endian encodings and
  \<open>ok_simps\<close> for the propagation of errors through \<open>bind_ok\<close>.
\<close>

named_theorems slice_simps
named_theorems be_simps
named_theorems ok_simps

type_synonym byte = "8 word"
type_synonym u16 = "16 word"
type_synonym u32 = "32 word"
type_synonym u64 = "64 word"

subsection \<open>Signed integers\<close>

text \<open>\<open>wrap64\<close> is what a 64-bit signed result keeps of an integer.\<close>

definition wrap64 :: "int \<Rightarrow> int" where
  "wrap64 x = (x + 2 ^ 63) mod 2 ^ 64 - 2 ^ 63"

lemma wrap64_id: "- (2 ^ 63) \<le> x \<Longrightarrow> x < 2 ^ 63 \<Longrightarrow> wrap64 x = x"
  by (simp add: wrap64_def)

lemma wrap64_high: "2 ^ 63 \<le> x \<Longrightarrow> x < 2 ^ 64 + 2 ^ 63 \<Longrightarrow> wrap64 x = x - 2 ^ 64"
  using mod_add_self2 [of "x - 2 ^ 63" "2 ^ 64 :: int"] mod_pos_pos_trivial [of "x - 2 ^ 63" "2 ^ 64"]
  by (simp add: wrap64_def add.commute)

subsection \<open>Slices\<close>

definition segment :: "'a list \<Rightarrow> nat \<Rightarrow> nat \<Rightarrow> 'a list" where
  "segment s i j = take (j - i) (drop i s)"

subsection \<open>Error results\<close>

fun bind_ok :: "'e + 'a \<Rightarrow> ('a \<Rightarrow> 'e + 'b) \<Rightarrow> 'e + 'b" where
  "bind_ok (Inl e) f = Inl e"
| "bind_ok (Inr x) f = f x"

fun is_ok :: "'e + 'a \<Rightarrow> bool" where
  "is_ok (Inl _) = False"
| "is_ok (Inr _) = True"

subsection \<open>Big-endian integers\<close>

text \<open>\<open>be_enc n v\<close> writes \<open>v\<close> as \<open>n\<close> bytes, most significant first; \<open>be_dec\<close> reads any
  number of bytes back.  They are \<open>binary.BigEndian.AppendUint16/Uint64\<close> and the
  24- and 48-bit fields that the wire code assembles by hand.\<close>

fun be_enc :: "nat \<Rightarrow> nat \<Rightarrow> byte list" where
  "be_enc 0 v = []"
| "be_enc (Suc n) v = be_enc n (v div 256) @ [of_nat v]"

definition be_dec :: "byte list \<Rightarrow> nat" where
  "be_dec bs = foldl (\<lambda>acc b. acc * 256 + unat b) 0 bs"

subsection \<open>Lemmas on slices\<close>

lemma slice_full [simp, slice_simps]: "segment s 0 (length s) = s"
  by (simp add: segment_def)

lemma slice_prefix [slice_simps]: "segment s 0 j = take j s"
  by (simp add: segment_def)

lemma slice_suffix [slice_simps]: "length s \<le> j \<Longrightarrow> segment s i j = drop i s"
  by (simp add: segment_def)

lemma length_slice [simp, slice_simps]: "length (segment s i j) = min (j - i) (length s - i)"
  by (simp add: segment_def min.commute)

lemma slice_append_left [slice_simps]: "j \<le> length xs \<Longrightarrow> segment (xs @ ys) i j = segment xs i j"
  by (cases "i \<le> j") (simp_all add: segment_def)

lemma slice_nth: "k < j - i \<Longrightarrow> j \<le> length s \<Longrightarrow> segment s i j ! k = s ! (i + k)"
  by (simp add: segment_def)

lemma slice_split: "i \<le> j \<Longrightarrow> j \<le> k \<Longrightarrow> segment s i j @ segment s j k = segment s i k"
proof -
  assume a: "i \<le> j" "j \<le> k"
  then have "drop j s = drop (j - i) (drop i s)" by simp
  moreover from a have "k - i = (j - i) + (k - j)" by simp
  ultimately show ?thesis by (simp add: segment_def take_add)
qed

lemma set_slice_subset: "set (segment s i j) \<subseteq> set s"
  unfolding segment_def by (meson set_drop_subset set_take_subset subset_trans)

subsection \<open>Lemmas on error results\<close>

lemma bind_ok_eq_Inr [ok_simps]:
  "bind_ok r f = Inr y \<longleftrightarrow> (\<exists>x. r = Inr x \<and> f x = Inr y)"
  by (cases r) auto

lemma bind_ok_eq_Inl [ok_simps]:
  "bind_ok r f = Inl e \<longleftrightarrow> r = Inl e \<or> (\<exists>x. r = Inr x \<and> f x = Inl e)"
  by (cases r) auto

lemma is_ok_iff [ok_simps]: "is_ok r \<longleftrightarrow> (\<exists>x. r = Inr x)"
  by (cases r) auto

lemma bind_ok_cong [fundef_cong]:
  "r = r' \<Longrightarrow> (\<And>x. r' = Inr x \<Longrightarrow> f x = g x) \<Longrightarrow> bind_ok r f = bind_ok r' g"
  by (cases r') auto

subsection \<open>Lemmas on big-endian integers\<close>

lemma length_be_enc [simp, be_simps]: "length (be_enc n v) = n"
  by (induction n arbitrary: v) auto

lemma be_enc_Nil_iff [simp]: "be_enc n v = [] \<longleftrightarrow> n = 0"
  by (metis length_0_conv length_be_enc)

lemma be_dec_Nil [simp, be_simps]: "be_dec [] = 0"
  by (simp add: be_dec_def)

lemma be_dec_snoc [be_simps]: "be_dec (bs @ [b]) = be_dec bs * 256 + unat b"
  by (simp add: be_dec_def)

lemma be_dec_lt: "be_dec bs < 256 ^ length bs"
proof (induction bs rule: rev_induct)
  case (snoc b bs)
  have "unat b < 256" using unsigned_less [of b] by simp
  with snoc have "be_dec bs * 256 + unat b < (be_dec bs + 1) * 256" by simp
  also from snoc have "\<dots> \<le> 256 ^ length bs * 256" by (intro mult_right_mono) simp_all
  finally show ?case by (simp add: be_dec_snoc)
qed simp

lemma unat_of_nat_byte: "unat (of_nat v :: byte) = v mod 256"
  by (simp add: unat_of_nat)

lemma be_dec_enc_mod: "be_dec (be_enc n v) = v mod 256 ^ n"
proof (induction n arbitrary: v)
  case (Suc n)
  have "be_dec (be_enc (Suc n) v) = ((v div 256) mod 256 ^ n) * 256 + v mod 256"
    by (simp add: be_dec_snoc Suc unat_of_nat_byte)
  also have "\<dots> = v mod (256 * 256 ^ n)"
    by (simp add: mod_mult2_eq)
  finally show ?case by simp
qed simp

lemma be_dec_enc [simp, be_simps]: "v < 256 ^ n \<Longrightarrow> be_dec (be_enc n v) = v"
  by (simp add: be_dec_enc_mod)

lemma be_enc_dec [simp, be_simps]: "be_enc (length bs) (be_dec bs) = bs"
proof (induction bs rule: rev_induct)
  case (snoc b bs)
  have "unat b < 256" using unsigned_less [of b] by simp
  then have "(be_dec bs * 256 + unat b) div 256 = be_dec bs" by simp
  moreover have "(256 :: byte) = 0" by simp
  then have "(of_nat (be_dec bs * 256 + unat b) :: byte) = b"
    by (simp only: of_nat_add of_nat_mult of_nat_numeral mult_zero_right add_0) simp
  ultimately show ?case using snoc by (simp add: be_dec_snoc)
qed simp

lemma be_enc_inj: "u < 256 ^ n \<Longrightarrow> v < 256 ^ n \<Longrightarrow> be_enc n u = be_enc n v \<Longrightarrow> u = v"
  by (metis be_dec_enc)

end
