(* ===== verification/GoStrings.thy ===== *)
theory GoStrings
  imports Prelude "HOL-Library.Char_ord"
begin

text \<open>
  The part of Go's standard library that the text-handling code calls: \<open>unicode/utf8\<close>
  decoding from both ends, \<open>unicode.IsSpace\<close>, and the functions of package \<open>strings\<close>
  (\<open>TrimSpace\<close>, \<open>TrimLeft\<close>, \<open>TrimSuffix\<close>, \<open>HasPrefix\<close>, \<open>Cut\<close>, \<open>Split\<close>, \<open>Fields\<close>, \<open>ToLower\<close>,
  \<open>EqualFold\<close>, \<dots>).  A Go string is a byte sequence, so it is a \<^typ>\<open>string\<close> here, one
  \<^typ>\<open>char\<close> per byte.  Case conversion is the ASCII part of Go's mapping: bytes of 128 and
  above are left as they are.
\<close>

subsection \<open>Bytes as characters\<close>

definition code :: "char \<Rightarrow> nat" where
  "code c = (of_char c :: nat)"

definition is_digit :: "char \<Rightarrow> bool" where
  "is_digit c \<longleftrightarrow> 48 \<le> code c \<and> code c \<le> 57"

definition is_upper :: "char \<Rightarrow> bool" where
  "is_upper c \<longleftrightarrow> 65 \<le> code c \<and> code c \<le> 90"

definition is_lower :: "char \<Rightarrow> bool" where
  "is_lower c \<longleftrightarrow> 97 \<le> code c \<and> code c \<le> 122"

definition digit_val :: "char \<Rightarrow> nat" where
  "digit_val c = code c - 48"

text \<open>The value of a hexadecimal digit, as \<open>encoding/hex\<close> and the address parsers read it.\<close>

definition hex_val :: "char \<Rightarrow> nat option" where
  "hex_val c =
     (if is_digit c then Some (code c - 48)
      else if 97 \<le> code c \<and> code c \<le> 102 then Some (code c - 97 + 10)
      else if 65 \<le> code c \<and> code c \<le> 70 then Some (code c - 65 + 10)
      else None)"

subsection \<open>unicode/utf8\<close>

definition rune_error :: nat where
  "rune_error = 65533"

definition cont_byte :: "char \<Rightarrow> bool" where
  "cont_byte c \<longleftrightarrow> 128 \<le> code c \<and> code c \<le> 191"

text \<open>\<open>utf8.RuneStart\<close>: not a continuation byte.\<close>

definition rune_start :: "char \<Rightarrow> bool" where
  "rune_start c \<longleftrightarrow> \<not> cont_byte c"

text \<open>The accepted range of the second byte, by the first (Go's \<open>acceptRanges\<close>).\<close>

definition accept_second :: "nat \<Rightarrow> nat \<Rightarrow> bool" where
  "accept_second b0 b1 \<longleftrightarrow>
     (if b0 = 224 then 160 else if b0 = 240 then 144 else 128) \<le> b1 \<and>
     b1 \<le> (if b0 = 237 then 159 else if b0 = 244 then 143 else 191)"

text \<open>\<open>utf8.DecodeRuneInString\<close>: the first rune and its width in bytes; an invalid
  encoding is \<open>(RuneError, 1)\<close>, the empty string \<open>(RuneError, 0)\<close>.\<close>

fun decode_rune :: "string \<Rightarrow> nat \<times> nat" where
  "decode_rune [] = (rune_error, 0)"
| "decode_rune (c # cs) =
     (let b0 = code c in
      if b0 < 128 then (b0, 1)
      else if 194 \<le> b0 \<and> b0 \<le> 223 then
        (case cs of
           c1 # _ \<Rightarrow> if accept_second b0 (code c1)
                     then ((b0 - 192) * 64 + (code c1 - 128), 2) else (rune_error, 1)
         | _ \<Rightarrow> (rune_error, 1))
      else if 224 \<le> b0 \<and> b0 \<le> 239 then
        (case cs of
           c1 # c2 # _ \<Rightarrow> if accept_second b0 (code c1) \<and> cont_byte c2
                     then ((b0 - 224) * 4096 + (code c1 - 128) * 64 + (code c2 - 128), 3)
                     else (rune_error, 1)
         | _ \<Rightarrow> (rune_error, 1))
      else if 240 \<le> b0 \<and> b0 \<le> 244 then
        (case cs of
           c1 # c2 # c3 # _ \<Rightarrow> if accept_second b0 (code c1) \<and> cont_byte c2 \<and> cont_byte c3
                     then ((b0 - 240) * 262144 + (code c1 - 128) * 4096 + (code c2 - 128) * 64
                            + (code c3 - 128), 4)
                     else (rune_error, 1)
         | _ \<Rightarrow> (rune_error, 1))
      else (rune_error, 1))"

text \<open>The backwards search of \<open>utf8.DecodeLastRuneInString\<close>: from index \<open>start\<close> down to
  \<open>lim\<close>, the first byte that can start a rune; 0 or \<open>lim - 1\<close> when there is none.\<close>

fun last_start :: "string \<Rightarrow> nat \<Rightarrow> nat \<Rightarrow> nat" where
  "last_start s lim 0 = 0"
| "last_start s lim (Suc k) =
     (if k < lim then k else if rune_start (s ! k) then k else last_start s lim k)"

definition decode_last_rune :: "string \<Rightarrow> nat \<times> nat" where
  "decode_last_rune s =
     (let e = length s in
      if e = 0 then (rune_error, 0)
      else if code (s ! (e - 1)) < 128 then (code (s ! (e - 1)), 1)
      else
        let st = last_start s (e - 4) (e - 1); (r, size) = decode_rune (drop st s) in
        if st + size \<noteq> e then (rune_error, 1) else (r, size))"

text \<open>\<open>unicode.IsSpace\<close>: the Latin-1 spaces and the \<open>White_Space\<close> table.\<close>

definition is_space :: "nat \<Rightarrow> bool" where
  "is_space r \<longleftrightarrow>
     r = 9 \<or> r = 10 \<or> r = 11 \<or> r = 12 \<or> r = 13 \<or> r = 32 \<or> r = 133 \<or> r = 160 \<or>
     r = 5760 \<or> (8192 \<le> r \<and> r \<le> 8202) \<or> r = 8232 \<or> r = 8233 \<or> r = 8239 \<or> r = 8287 \<or> r = 12288"

subsection \<open>Package strings\<close>

definition to_lower_char :: "char \<Rightarrow> char" where
  "to_lower_char c = (if is_upper c then char_of (code c + 32) else c)"

definition to_upper_char :: "char \<Rightarrow> char" where
  "to_upper_char c = (if is_lower c then char_of (code c - 32) else c)"

definition to_lower :: "string \<Rightarrow> string" where
  "to_lower s = map to_lower_char s"

definition to_upper :: "string \<Rightarrow> string" where
  "to_upper s = map to_upper_char s"

definition equal_fold :: "string \<Rightarrow> string \<Rightarrow> bool" where
  "equal_fold s t \<longleftrightarrow> to_lower s = to_lower t"

fun has_prefix :: "string \<Rightarrow> string \<Rightarrow> bool" where
  "has_prefix s [] = True"
| "has_prefix [] (p # ps) = False"
| "has_prefix (c # cs) (p # ps) = (c = p \<and> has_prefix cs ps)"

definition has_suffix :: "string \<Rightarrow> string \<Rightarrow> bool" where
  "has_suffix s t \<longleftrightarrow> length t \<le> length s \<and> drop (length s - length t) s = t"

definition trim_suffix :: "string \<Rightarrow> string \<Rightarrow> string" where
  "trim_suffix s t = (if has_suffix s t then take (length s - length t) s else s)"

definition trim_prefix :: "string \<Rightarrow> string \<Rightarrow> string" where
  "trim_prefix s t = (if has_prefix s t then drop (length t) s else s)"

definition contains_any :: "string \<Rightarrow> string \<Rightarrow> bool" where
  "contains_any s cutset \<longleftrightarrow> list_ex (\<lambda>c. List.member cutset c) s"

definition contains_byte :: "string \<Rightarrow> char \<Rightarrow> bool" where
  "contains_byte s c \<longleftrightarrow> List.member s c"

definition trim_left :: "string \<Rightarrow> string \<Rightarrow> string" where
  "trim_left s cutset = dropWhile (\<lambda>c. List.member cutset c) s"

text \<open>\<open>strings.Cut\<close> around one separator byte.\<close>

fun cut :: "string \<Rightarrow> char \<Rightarrow> string \<times> string \<times> bool" where
  "cut [] sep = ([], [], False)"
| "cut (c # cs) sep =
     (if c = sep then ([], cs, True)
      else let (before, after, found) = cut cs sep in (c # before, after, found))"

text \<open>\<open>strings.Split\<close> on one separator byte: one more field than there are separators.\<close>

fun split_byte :: "string \<Rightarrow> char \<Rightarrow> string list" where
  "split_byte [] sep = [[]]"
| "split_byte (c # cs) sep =
     (if c = sep then [] # split_byte cs sep
      else (case split_byte cs sep of [] \<Rightarrow> [[c]] | f # fs \<Rightarrow> (c # f) # fs))"

lemma decode_rune_size: "s \<noteq> [] \<Longrightarrow> 0 < snd (decode_rune s) \<and> snd (decode_rune s) \<le> length s"
  by (cases s) (auto simp: Let_def split: list.splits)

text \<open>The leading-space loops: drop runes while they are spaces.\<close>

function trim_left_space :: "string \<Rightarrow> string" where
  "trim_left_space s =
     (if s \<noteq> [] \<and> is_space (fst (decode_rune s))
      then trim_left_space (drop (snd (decode_rune s)) s) else s)"
  by pat_completeness auto
termination
  by (relation "measure length") (auto dest: decode_rune_size)

lemma last_start_le: "last_start s lim k \<le> k"
  by (induction k) auto

lemma decode_last_rune_size:
  "s \<noteq> [] \<Longrightarrow> 0 < snd (decode_last_rune s) \<and> snd (decode_last_rune s) \<le> length s"
proof -
  assume ne: "s \<noteq> []"
  let ?st = "last_start s (length s - 4) (length s - 1)"
  from ne have "?st < length s"
    using last_start_le [of s "length s - 4" "length s - 1"] by (cases s) auto
  then have "0 < snd (decode_rune (drop ?st s)) \<and> snd (decode_rune (drop ?st s)) \<le> length s - ?st"
    using decode_rune_size [of "drop ?st s"] by simp
  with ne show ?thesis
    by (cases s) (auto simp: decode_last_rune_def Let_def split: prod.splits)
qed

function trim_right_space :: "string \<Rightarrow> string" where
  "trim_right_space s =
     (if s \<noteq> [] \<and> is_space (fst (decode_last_rune s))
      then trim_right_space (take (length s - snd (decode_last_rune s)) s) else s)"
  by pat_completeness auto
termination
  by (relation "measure length") (auto dest: decode_last_rune_size)

definition trim_space :: "string \<Rightarrow> string" where
  "trim_space s = trim_right_space (trim_left_space s)"

text \<open>\<open>strings.Fields\<close>: the maximal runs of non-space runes; \<open>cur\<close> is the field being read.\<close>

function fields_acc :: "string \<Rightarrow> string \<Rightarrow> string list" where
  "fields_acc cur s =
     (if s = [] then (if cur = [] then [] else [cur])
      else let (r, size) = decode_rune s in
        if is_space r then (if cur = [] then [] else [cur]) @ fields_acc [] (drop size s)
        else fields_acc (cur @ take size s) (drop size s))"
  by pat_completeness auto
termination
proof (relation "measure (\<lambda>(cur, s). length s)", goal_cases)
  case (2 cur s x r size)
  then show ?case using decode_rune_size [of s] by (cases "decode_rune s") simp
next
  case (3 cur s x r size)
  then show ?case using decode_rune_size [of s] by (cases "decode_rune s") simp
qed simp

definition fields :: "string \<Rightarrow> string list" where
  "fields s = fields_acc [] s"

declare trim_left_space.simps [simp del] trim_right_space.simps [simp del]
  fields_acc.simps [simp del]

end
