(* ===== verification/Scanner.thy ===== *)
theory Scanner
  imports GoStrings
begin

text \<open>
  \<open>internal/parse/scanner.go\<close>: the byte scanner under every address parser.  The flags and
  depth counters of \<open>SpecScanner\<close> are the record \<open>scan_mode\<close>; \<open>classify\<close> is the switch of
  \<open>Step\<close> on one byte, \<open>Step\<close> the method with the receiver passed and returned, \<open>FindTop\<close> its
  search loop.  \<open>walk\<close> and \<open>split_top\<close> are structural references over the string: the class
  of every byte, and the pieces between top-level separators.  The lemmas show that stepping
  a scanner from any position computes exactly these references.
\<close>

datatype ScanClass = ClassTop | ClassSkip | ClassDelim

record scan_mode =
  single :: bool
  double :: bool
  esc :: bool
  paren :: nat
  brace :: nat
  bracket :: nat
  trackNesting :: bool

record SpecScanner =
  sc_s :: string
  sc_i :: nat
  sc_mode :: scan_mode

definition mode0 :: "bool \<Rightarrow> scan_mode" where
  "mode0 track = \<lparr>single = False, double = False, esc = False, paren = 0, brace = 0,
     bracket = 0, trackNesting = track\<rparr>"

definition NewSpecScanner :: "string \<Rightarrow> bool \<Rightarrow> SpecScanner" where
  "NewSpecScanner s track = \<lparr>sc_s = s, sc_i = 0, sc_mode = mode0 track\<rparr>"

definition classify_nesting :: "scan_mode \<Rightarrow> char \<Rightarrow> ScanClass \<times> scan_mode" where
  "classify_nesting m c =
     (if c = CHR ''('' then (ClassSkip, m\<lparr>paren := paren m + 1\<rparr>)
      else if c = CHR '')'' then (ClassSkip, m\<lparr>paren := paren m - 1\<rparr>)
      else if c = CHR ''{'' then (ClassSkip, m\<lparr>brace := brace m + 1\<rparr>)
      else if c = CHR ''}'' then (ClassSkip, m\<lparr>brace := brace m - 1\<rparr>)
      else if c = CHR ''['' then (ClassSkip, m\<lparr>bracket := bracket m + 1\<rparr>)
      else if c = CHR '']'' then (ClassSkip, m\<lparr>bracket := bracket m - 1\<rparr>)
      else if paren m \<noteq> 0 \<or> brace m \<noteq> 0 \<or> bracket m \<noteq> 0 then (ClassSkip, m)
      else (ClassTop, m))"

definition classify :: "scan_mode \<Rightarrow> char \<Rightarrow> ScanClass \<times> scan_mode" where
  "classify m c =
     (if esc m then (ClassSkip, m\<lparr>esc := False\<rparr>)
      else if c = CHR 0x5C \<and> \<not> single m then (ClassSkip, m\<lparr>esc := True\<rparr>)
      else if single m then
        (if c = CHR 0x27 then (ClassDelim, m\<lparr>single := False\<rparr>) else (ClassSkip, m))
      else if double m then
        (if c = CHR 0x22 then (ClassDelim, m\<lparr>double := False\<rparr>) else (ClassSkip, m))
      else if \<not> double m \<and> c = CHR 0x27 then (ClassDelim, m\<lparr>single := True\<rparr>)
      else if \<not> single m \<and> c = CHR 0x22 then (ClassDelim, m\<lparr>double := True\<rparr>)
      else if trackNesting m then classify_nesting m c
      else (ClassTop, m))"

definition Step :: "SpecScanner \<Rightarrow> (char \<times> ScanClass \<times> bool) \<times> SpecScanner" where
  "Step sc =
     (if length (sc_s sc) \<le> sc_i sc then ((CHR 0x00, ClassSkip, False), sc)
      else
        let c = sc_s sc ! sc_i sc; (cls, m) = classify (sc_mode sc) c in
        ((c, cls, True), sc\<lparr>sc_i := sc_i sc + 1, sc_mode := m\<rparr>))"

lemma Step_ok:
  "((c, cls, ok), sc') = Step sc \<Longrightarrow> ok \<Longrightarrow>
     sc_i sc' = Suc (sc_i sc) \<and> sc_s sc' = sc_s sc \<and> sc_i sc < length (sc_s sc)"
  by (auto simp: Step_def Let_def split: if_splits prod.splits)

function FindTop :: "SpecScanner \<Rightarrow> char \<Rightarrow> nat option" where
  "FindTop sc sep =
     (case Step sc of ((c, cls, ok), sc') \<Rightarrow>
      if \<not> ok then None
      else if cls = ClassTop \<and> c = sep then Some (sc_i sc' - 1)
      else FindTop sc' sep)"
  by pat_completeness auto
termination
  by (relation "measure (\<lambda>(sc, _). length (sc_s sc) - sc_i sc)") (auto dest!: Step_ok)

declare FindTop.simps [simp del]

text \<open>\<open>indexTopLevel\<close> of \<open>parse.go\<close>: the first top-level occurrence of a separator;
  \<open>None\<close> is Go's -1.\<close>

definition indexTopLevel :: "string \<Rightarrow> char \<Rightarrow> nat option" where
  "indexTopLevel s sep = FindTop (NewSpecScanner s True) sep"

subsection \<open>References over the string\<close>

fun walk :: "scan_mode \<Rightarrow> string \<Rightarrow> ScanClass list" where
  "walk m [] = []"
| "walk m (c # cs) = fst (classify m c) # walk (snd (classify m c)) cs"

fun mode_after :: "scan_mode \<Rightarrow> string \<Rightarrow> scan_mode" where
  "mode_after m [] = m"
| "mode_after m (c # cs) = mode_after (snd (classify m c)) cs"

fun find_top :: "scan_mode \<Rightarrow> char \<Rightarrow> string \<Rightarrow> nat option" where
  "find_top m sep [] = None"
| "find_top m sep (c # cs) =
     (if fst (classify m c) = ClassTop \<and> c = sep then Some 0
      else map_option Suc (find_top (snd (classify m c)) sep cs))"

fun split_top :: "scan_mode \<Rightarrow> char \<Rightarrow> string \<Rightarrow> string list" where
  "split_top m sep [] = [[]]"
| "split_top m sep (c # cs) =
     (if fst (classify m c) = ClassTop \<and> c = sep then [] # split_top (snd (classify m c)) sep cs
      else (case split_top (snd (classify m c)) sep cs of
              [] \<Rightarrow> [[c]] | p # ps \<Rightarrow> (c # p) # ps))"

subsection \<open>Stepping computes the references\<close>

text \<open>The scanner's state at index \<open>i\<close> of a walk over \<open>s\<close> that started in mode \<open>m\<close>.\<close>

abbreviation scanner_at :: "string \<Rightarrow> nat \<Rightarrow> scan_mode \<Rightarrow> SpecScanner" where
  "scanner_at s i m \<equiv> \<lparr>sc_s = s, sc_i = i, sc_mode = m\<rparr>"

lemma Step_end: "length s \<le> i \<Longrightarrow> Step (scanner_at s i m) = ((CHR 0x00, ClassSkip, False), scanner_at s i m)"
  by (simp add: Step_def)

lemma Step_at:
  "i < length s \<Longrightarrow> Step (scanner_at s i m) =
     ((s ! i, fst (classify m (s ! i)), True), scanner_at s (Suc i) (snd (classify m (s ! i))))"
  by (simp add: Step_def Let_def split: prod.splits)

lemma Step_append_cons [simp]:
  "Step (scanner_at (pre @ c # cs) (length pre) m) =
     ((c, fst (classify m c), True), scanner_at (pre @ c # cs) (Suc (length pre)) (snd (classify m c)))"
  by (simp add: Step_at)

lemma FindTop_find_top:
  "FindTop (scanner_at (pre @ s) (length pre) m) sep = map_option ((+) (length pre)) (find_top m sep s)"
proof (induction s arbitrary: pre m)
  case Nil
  show ?case by (subst FindTop.simps) (simp add: Step_end)
next
  case (Cons c cs)
  from Cons [of "pre @ [c]" "snd (classify m c)"] show ?case
    by (subst FindTop.simps) (auto simp: option.map_comp comp_def)
qed

lemma indexTopLevel_find_top: "indexTopLevel s sep = find_top (mode0 True) sep s"
  using FindTop_find_top [of "[]" s "mode0 True" sep]
  by (cases "find_top (mode0 True) sep s") (simp_all add: indexTopLevel_def NewSpecScanner_def)

lemma length_walk [simp]: "length (walk m s) = length s"
  by (induction s arbitrary: m) auto

lemma walk_append: "walk m (s @ t) = walk m s @ walk (mode_after m s) t"
  by (induction s arbitrary: m) auto

lemma mode_after_append: "mode_after m (s @ t) = mode_after (mode_after m s) t"
  by (induction s arbitrary: m) auto

lemma find_top_Some_iff:
  "find_top m sep s = Some i \<longleftrightarrow>
     i < length s \<and> s ! i = sep \<and> walk m s ! i = ClassTop \<and>
     (\<forall>j < i. \<not> (s ! j = sep \<and> walk m s ! j = ClassTop))"
proof (induction s arbitrary: m i)
  case (Cons c cs)
  show ?case
  proof (cases i)
    case (Suc k)
    have "(\<forall>j < Suc k. P j) \<longleftrightarrow> P 0 \<and> (\<forall>j < k. P (Suc j))" for P
      by (simp add: All_less_Suc2)
    with Cons [of "snd (classify m c)" k] Suc show ?thesis by auto
  qed auto
qed simp

lemma find_top_None_iff:
  "find_top m sep s = None \<longleftrightarrow> (\<forall>j < length s. \<not> (s ! j = sep \<and> walk m s ! j = ClassTop))"
proof (induction s arbitrary: m)
  case (Cons c cs)
  have "(\<forall>j < Suc k. P j) \<longleftrightarrow> P 0 \<and> (\<forall>j < k. P (Suc j))" for P k
    by (simp add: All_less_Suc2)
  with Cons show ?case by auto
qed simp

subsection \<open>Splitting at top-level separators\<close>

lemma split_top_ne [simp]: "split_top m sep s \<noteq> []"
  by (cases s) (auto split: list.splits)

lemma split_top_find_top:
  "split_top m sep s =
     (case find_top m sep s of None \<Rightarrow> [s]
      | Some i \<Rightarrow> take i s # split_top (mode_after m (take (Suc i) s)) sep (drop (Suc i) s))"
  by (induction s arbitrary: m) (auto split: option.splits list.splits)

text \<open>Joining the pieces with the separator gives the string back: splitting loses nothing.\<close>

fun join :: "char \<Rightarrow> string list \<Rightarrow> string" where
  "join sep [] = []"
| "join sep [p] = p"
| "join sep (p # q # ps) = p @ sep # join sep (q # ps)"

lemma join_Cons: "ps \<noteq> [] \<Longrightarrow> join sep (p # ps) = p @ sep # join sep ps"
  by (cases ps) auto

lemma join_split_top: "join sep (split_top m sep s) = s"
proof (induction s arbitrary: m)
  case (Cons c cs)
  show ?case
  proof (cases "fst (classify m c) = ClassTop \<and> c = sep")
    case True
    with Cons [of "snd (classify m c)"] show ?thesis by (auto simp: join_Cons)
  next
    case False
    obtain p ps where p: "split_top (snd (classify m c)) sep cs = p # ps"
      by (cases "split_top (snd (classify m c)) sep cs") auto
    with Cons [of "snd (classify m c)"] have "join sep (p # ps) = cs" by simp
    then have "join sep ((c # p) # ps) = c # cs" by (cases ps) auto
    with False p show ?thesis by auto
  qed
qed simp

end
