(* ===== verification/Optionmeta.thy ===== *)
theory Optionmeta
  imports GoStrings
begin

text \<open>
  \<open>internal/optionmeta/catalog.go\<close>, \<open>option.go\<close> and \<open>kind.go\<close>: the option catalog's identity data, its
  start-up validation and the lookups that the parser uses.  The catalog itself (the option
  tables) is an argument: every lemma holds for any table that \<open>validateCatalog\<close> accepts,
  which is what the package's \<open>init\<close> checks before building its maps.  The record keeps the
  fields of \<open>Option\<close> that decide identity, platform support and parsing; the help text,
  scope and diagnostics fields are not modelled.
\<close>

text \<open>\<open>kind.go\<close>: a \<open>Kind\<close> is a \<open>uint8\<close> numbered by \<open>iota\<close>; \<open>KindNone\<close> is its zero.\<close>

type_synonym OptionKind = "8 word"

definition KindNone :: OptionKind where
  "KindNone = 0"

record OptionDef =
  Canonical :: string
  Aliases :: "string list"
  ParserAliases :: "string list"
  PublicAliases :: "string list"
  Advertise :: "8 word"
  Hidden :: bool
  PathValue :: bool
  Isolation :: bool
  Kind :: OptionKind

datatype catalog_error =
    InvalidSpelling string
  | SpellingClaimed string string string
  | NoValueKind string

definition ParseAliases :: "OptionDef \<Rightarrow> string list" where
  "ParseAliases d = Aliases d @ ParserAliases d"

definition HelpAliases :: "OptionDef \<Rightarrow> string list" where
  "HelpAliases d = Aliases d @ PublicAliases d"

definition Names :: "OptionDef \<Rightarrow> string list" where
  "Names d = [Canonical d] @ Aliases d @ ParserAliases d @ PublicAliases d"

definition Supported :: "8 word \<Rightarrow> OptionDef \<Rightarrow> bool" where
  "Supported currentPlatform d \<longleftrightarrow> Advertise d = 0 \<or> and (Advertise d) currentPlatform \<noteq> 0"

definition Visible :: "8 word \<Rightarrow> OptionDef \<Rightarrow> bool" where
  "Visible currentPlatform d \<longleftrightarrow> \<not> Hidden d \<and> Supported currentPlatform d"

text \<open>The two nested loops of \<open>validateCatalog\<close>, with the map \<open>seen\<close> from spelling to owner.\<close>

fun validate_names ::
  "string \<Rightarrow> (string \<rightharpoonup> string) \<Rightarrow> string list \<Rightarrow> catalog_error + (string \<rightharpoonup> string)" where
  "validate_names owner seen [] = Inr seen"
| "validate_names owner seen (name # names) =
     (if name = [] \<or> name \<noteq> to_lower name then Inl (InvalidSpelling name)
      else case seen name of
        Some prev \<Rightarrow> Inl (SpellingClaimed name prev owner)
      | None \<Rightarrow> validate_names owner (seen(name \<mapsto> owner)) names)"

fun validate_defs ::
  "(string \<rightharpoonup> string) \<Rightarrow> OptionDef list \<Rightarrow> catalog_error + (string \<rightharpoonup> string)" where
  "validate_defs seen [] = Inr seen"
| "validate_defs seen (d # ds) =
     bind_ok (validate_names (Canonical d) seen (Names d)) (\<lambda>seen'. validate_defs seen' ds)"

definition validateCatalog :: "OptionDef list \<Rightarrow> catalog_error option" where
  "validateCatalog defs =
     (case validate_defs Map.empty defs of Inl e \<Rightarrow> Some e | Inr _ \<Rightarrow> None)"

fun validateKinds :: "OptionDef list \<Rightarrow> catalog_error option" where
  "validateKinds [] = None"
| "validateKinds (d # ds) =
     (if Isolation d \<or> Kind d \<noteq> KindNone then validateKinds ds else Some (NoValueKind (Canonical d)))"

text \<open>\<open>init\<close>: the maps from spelling to catalog index and from parser alias to canonical name.
  A later entry overwrites an earlier one, as the Go map assignment does.\<close>

fun index_names :: "nat \<Rightarrow> OptionDef list \<Rightarrow> (string \<rightharpoonup> nat) \<Rightarrow> (string \<rightharpoonup> nat)" where
  "index_names i [] m = m"
| "index_names i (d # ds) m = index_names (Suc i) ds (fold (\<lambda>n m. m(n \<mapsto> i)) (Names d) m)"

definition bySpelling :: "OptionDef list \<Rightarrow> (string \<rightharpoonup> nat)" where
  "bySpelling cat = index_names 0 cat Map.empty"

fun index_aliases :: "OptionDef list \<Rightarrow> (string \<rightharpoonup> string) \<Rightarrow> (string \<rightharpoonup> string)" where
  "index_aliases [] m = m"
| "index_aliases (d # ds) m = index_aliases ds (fold (\<lambda>a m. m(a \<mapsto> Canonical d)) (ParseAliases d) m)"

definition parserAliases :: "OptionDef list \<Rightarrow> (string \<rightharpoonup> string)" where
  "parserAliases cat = index_aliases cat Map.empty"

definition Lookup :: "OptionDef list \<Rightarrow> string \<Rightarrow> OptionDef option" where
  "Lookup cat name = map_option (\<lambda>i. cat ! i) (bySpelling cat (to_lower (trim_space name)))"

definition ParserCanonical :: "OptionDef list \<Rightarrow> string \<Rightarrow> string" where
  "ParserCanonical cat name =
     (case parserAliases cat (to_lower name) of Some canonical \<Rightarrow> canonical | None \<Rightarrow> to_lower name)"

definition IsolationCanonical :: "OptionDef list \<Rightarrow> string \<Rightarrow> string \<times> bool" where
  "IsolationCanonical cat name =
     (case Lookup cat name of Some d \<Rightarrow> (Canonical d, Isolation d) | None \<Rightarrow> ([], False))"

definition IsPathValue :: "OptionDef list \<Rightarrow> string \<Rightarrow> bool" where
  "IsPathValue cat name = (case Lookup cat name of Some d \<Rightarrow> PathValue d | None \<Rightarrow> False)"

subsection \<open>What an accepted catalog guarantees\<close>

lemma to_lower_char_idem [simp]: "to_lower_char (to_lower_char c) = to_lower_char c"
proof -
  have "code (char_of (code c + 32)) = code c + 32" if "is_upper c"
    using that by (simp add: code_def is_upper_def)
  then show ?thesis by (auto simp: to_lower_char_def is_upper_def)
qed

lemma to_lower_idem [simp]: "to_lower (to_lower s) = to_lower s"
  by (simp add: to_lower_def)

lemma validate_names_ok:
  "validate_names owner seen names = Inr seen' \<Longrightarrow>
     distinct names \<and> (\<forall>n \<in> set names. n \<noteq> [] \<and> to_lower n = n \<and> seen n = None) \<and>
     dom seen' = dom seen \<union> set names"
proof (induction names arbitrary: seen)
  case (Cons n ns)
  from Cons.prems have n: "n \<noteq> []" "to_lower n = n" "seen n = None"
    and rest: "validate_names owner (seen(n \<mapsto> owner)) ns = Inr seen'"
    by (auto split: if_splits option.splits)
  from Cons.IH [OF rest] n show ?case by (auto split: if_splits)
qed simp

lemma validate_defs_ok:
  "validate_defs seen defs = Inr seen' \<Longrightarrow>
     distinct (concat (map Names defs)) \<and>
     (\<forall>n \<in> set (concat (map Names defs)). n \<noteq> [] \<and> to_lower n = n \<and> seen n = None)"
proof (induction defs arbitrary: seen)
  case (Cons d ds)
  then obtain seen1 where a: "validate_names (Canonical d) seen (Names d) = Inr seen1"
    and b: "validate_defs seen1 ds = Inr seen'"
    by (auto simp: bind_ok_eq_Inr)
  note na = validate_names_ok [OF a] and nb = Cons.IH [OF b]
  have new: "n \<notin> set (Names d) \<and> seen n = None" if "n \<in> set (concat (map Names ds))" for n
  proof -
    from nb that have "n \<notin> dom seen1" by (auto simp: domIff)
    with na show ?thesis by (auto simp: domIff)
  qed
  with na nb show ?case by auto
qed simp

lemma validateCatalog_names:
  assumes "validateCatalog cat = None"
  shows "distinct (concat (map Names cat))"
    and "\<And>n. n \<in> set (concat (map Names cat)) \<Longrightarrow> n \<noteq> [] \<and> to_lower n = n"
proof -
  obtain seen where "validate_defs Map.empty cat = Inr seen"
    using assms by (auto simp: validateCatalog_def split: sum.splits)
  from validate_defs_ok [OF this]
  show "distinct (concat (map Names cat))"
    and "\<And>n. n \<in> set (concat (map Names cat)) \<Longrightarrow> n \<noteq> [] \<and> to_lower n = n"
    by auto
qed

lemma fold_upd_const: "fold (\<lambda>a m. m(a \<mapsto> v)) xs m n = (if n \<in> set xs then Some v else m n)"
  by (induction xs arbitrary: m) auto

lemma index_aliases_range:
  "index_aliases cat m a = Some c \<Longrightarrow>
     m a = Some c \<or> (\<exists>d \<in> set cat. a \<in> set (ParseAliases d) \<and> c = Canonical d)"
proof (induction cat arbitrary: m)
  case (Cons d ds)
  then have "index_aliases ds (fold (\<lambda>a m. m(a \<mapsto> Canonical d)) (ParseAliases d) m) a = Some c"
    by simp
  from Cons.IH [OF this] show ?case
    by (auto simp: fold_upd_const split: if_splits)
qed simp

lemma distinct_concat_same:
  "distinct (concat xss) \<Longrightarrow> i < length xss \<Longrightarrow> j < length xss \<Longrightarrow>
     x \<in> set (xss ! i) \<Longrightarrow> x \<in> set (xss ! j) \<Longrightarrow> i = j"
proof (induction xss arbitrary: i j)
  case (Cons xs xss)
  then have dis: "set xs \<inter> set (concat xss) = {}" by simp
  have mem: "x \<in> set (concat xss)" if "k < length xss" "x \<in> set (xss ! k)" for k
    using that by auto
  show ?case
  proof (cases i; cases j)
    fix i' j' assume ij: "i = Suc i'" "j = Suc j'"
    with Cons show ?thesis by auto
  qed (use Cons.prems dis mem in \<open>auto simp: disjoint_iff\<close>)
qed simp

text \<open>In an accepted catalog no canonical name is an alias of another entry.\<close>

lemma canonical_not_alias:
  assumes "validateCatalog cat = None" and "d \<in> set cat"
  shows "parserAliases cat (Canonical d) = None"
proof (rule ccontr)
  assume "parserAliases cat (Canonical d) \<noteq> None"
  then obtain e where e: "e \<in> set cat" "Canonical d \<in> set (ParseAliases e)"
    using index_aliases_range [of cat Map.empty "Canonical d"] by (auto simp: parserAliases_def)
  obtain i j where i: "i < length cat" "cat ! i = d" and j: "j < length cat" "cat ! j = e"
    using assms(2) e(1) by (auto simp: in_set_conv_nth)
  note dist = validateCatalog_names(1) [OF assms(1)]
  have "Canonical d \<in> set (map Names cat ! i)" "Canonical d \<in> set (map Names cat ! j)"
    using i j e by (auto simp: Names_def ParseAliases_def)
  then have "i = j"
    using distinct_concat_same [OF dist, of i j "Canonical d"] i(1) j(1) by simp
  with i j have "d = e" by simp
  have "distinct (Names d)" using dist assms(2) by (auto dest: distinct_concat_iff [THEN iffD1])
  with e \<open>d = e\<close> show False by (auto simp: Names_def ParseAliases_def)
qed

lemma ParserCanonical_idem:
  assumes "validateCatalog cat = None"
  shows "ParserCanonical cat (ParserCanonical cat name) = ParserCanonical cat name"
proof (cases "parserAliases cat (to_lower name)")
  case None
  then show ?thesis by (simp add: ParserCanonical_def)
next
  case (Some c)
  then obtain d where d: "d \<in> set cat" "c = Canonical d"
    using index_aliases_range [of cat Map.empty "to_lower name" c] by (auto simp: parserAliases_def)
  then have "c \<in> set (concat (map Names cat))" by (auto simp: Names_def)
  then have "to_lower c = c" using validateCatalog_names(2) [OF assms] by blast
  with Some d canonical_not_alias [OF assms d(1)] show ?thesis by (simp add: ParserCanonical_def)
qed

lemma index_names_out: "(\<forall>d \<in> set ds. n \<notin> set (Names d)) \<Longrightarrow> index_names i ds m n = m n"
  by (induction ds arbitrary: i m) (auto simp: fold_upd_const)

lemma index_names_at:
  "distinct (concat (map Names ds)) \<Longrightarrow> k < length ds \<Longrightarrow> n \<in> set (Names (ds ! k)) \<Longrightarrow>
     index_names i ds m n = Some (i + k)"
proof (induction ds arbitrary: i m k)
  case (Cons d ds)
  show ?case
  proof (cases k)
    case 0
    with Cons.prems have "\<forall>d' \<in> set ds. n \<notin> set (Names d')" by auto
    with 0 Cons.prems show ?thesis by (simp add: index_names_out fold_upd_const)
  next
    case (Suc k')
    with Cons show ?thesis by simp
  qed
qed simp

lemma bySpelling_sound:
  assumes "validateCatalog cat = None" "bySpelling cat n = Some k"
  shows "k < length cat \<and> n \<in> set (Names (cat ! k))"
proof -
  obtain d where "d \<in> set cat" "n \<in> set (Names d)"
    using index_names_out [of cat n 0 Map.empty] assms(2) by (auto simp: bySpelling_def)
  then obtain j where j: "j < length cat" "n \<in> set (Names (cat ! j))" by (auto simp: in_set_conv_nth)
  then have "k = j"
    using index_names_at [OF validateCatalog_names(1) [OF assms(1)] j, of 0 Map.empty] assms(2) by (simp add: bySpelling_def)
  with j show ?thesis by simp
qed

end
