(* ===== verification/ParseSpec.thy ===== *)
theory ParseSpec
  imports Scanner Optionmeta
begin

text \<open>
  \<open>internal/parse\<close>: the address-specification parser, from \<open>parse.go\<close>, \<open>path.go\<close>, \<open>spec.go\<close>
  and \<open>aliases.go\<close>.  The build constant \<open>nativeWindowsPathSeparators\<close> and the option
  catalog are the record \<open>parse_env\<close>.  Each Go loop over a \<open>SpecScanner\<close> is a recursive
  function over the scanner state; a parse error is a value of \<open>parse_error\<close>.
\<close>

record parse_env =
  nativeWindowsPathSeparators :: bool
  env_catalog :: "OptionDef list"

datatype parse_error =
    EmptyAddress
  | MissingType string
  | UnbalancedQuote
  | TrailingBackslash
  | MalformedHexEscape
  | DualLeft parse_error
  | DualRight parse_error

record ParsedOption =
  opt_name :: string
  opt_spelling :: string
  opt_value :: string
  opt_has :: bool

record Spec =
  spec_type :: string
  spec_params :: "string list"
  spec_options :: "ParsedOption list"
  spec_raw :: string

record Dual =
  dual_left :: Spec
  dual_right :: Spec
  dual_raw :: string

record Channel =
  chan_single :: "Spec option"
  chan_dual :: "Dual option"
  chan_raw :: string

definition OriginalSpelling :: "ParsedOption \<Rightarrow> string" where
  "OriginalSpelling o' = (if opt_spelling o' \<noteq> [] then opt_spelling o' else opt_name o')"

definition IsDual :: "Channel \<Rightarrow> bool" where
  "IsDual c \<longleftrightarrow> chan_dual c \<noteq> None"

subsection \<open>Paths and type names (path.go)\<close>

definition ascii_letter :: "char \<Rightarrow> bool" where
  "ascii_letter c \<longleftrightarrow> is_upper c \<or> is_lower c"

definition hasWindowsVolume :: "string \<Rightarrow> bool" where
  "hasWindowsVolume s \<longleftrightarrow>
     (2 \<le> length s \<and> ascii_letter (s ! 0) \<and> s ! 1 = CHR '':'') \<or>
     (2 \<le> length s \<and> s ! 0 = CHR 0x5C \<and> s ! 1 = CHR 0x5C)"

fun path_scan :: "bool \<Rightarrow> string \<Rightarrow> bool" where
  "path_scan native [] = False"
| "path_scan native (c # cs) =
     (if c = CHR ''/'' then True
      else if c = CHR 0x5C then native
      else if c = CHR '':'' \<or> c = CHR '','' then False
      else path_scan native cs)"

definition looksLikePath :: "parse_env \<Rightarrow> string \<Rightarrow> bool" where
  "looksLikePath env s \<longleftrightarrow>
     hasWindowsVolume s \<or> path_scan (nativeWindowsPathSeparators env) s"

definition looksLikeWindowsPath :: "parse_env \<Rightarrow> string \<Rightarrow> bool" where
  "looksLikeWindowsPath env s \<longleftrightarrow>
     hasWindowsVolume s \<or> (nativeWindowsPathSeparators env \<and> contains_byte s (CHR 0x5C))"

definition isWindowsDriveColon :: "string \<Rightarrow> nat \<Rightarrow> nat \<Rightarrow> bool" where
  "isWindowsDriveColon s start i \<longleftrightarrow>
     i = start + 1 \<and> i + 1 < length s \<and> ascii_letter (s ! start) \<and>
     (s ! (i + 1) = CHR 0x5C \<or> s ! (i + 1) = CHR ''/'')"

text \<open>\<open>None\<close> is Go's -1: no raw field.\<close>

definition socketDataIndex :: "string \<Rightarrow> nat option" where
  "socketDataIndex typeName =
     (let n = to_upper (trim_space typeName) in
      if n = ''SOCKET-CONNECT'' \<or> n = ''SOCKET-LISTEN'' then Some 2
      else if n = ''SOCKET-SENDTO'' \<or> n = ''SOCKET-DATAGRAM'' \<or> n = ''SOCKET-RECV'' \<or>
              n = ''SOCKET-RECVFROM'' then Some 3
      else None)"

definition pathParamType :: "parse_env \<Rightarrow> string \<Rightarrow> bool" where
  "pathParamType env typeName =
     (let n = to_upper typeName in
      if List.member [''OPEN'', ''FILE'', ''CREATE'', ''CREAT'', ''GOPEN'', ''PIPE'', ''FIFO'', ''ECHO''] n
      then True
      else nativeWindowsPathSeparators env \<and> has_prefix n ''UNIX'')"

definition normalizeOptionName :: "parse_env \<Rightarrow> string \<Rightarrow> string" where
  "normalizeOptionName env name = ParserCanonical (env_catalog env) name"

definition pathOption :: "parse_env \<Rightarrow> string \<Rightarrow> bool" where
  "pathOption env name = IsPathValue (env_catalog env) (normalizeOptionName env name)"

subsection \<open>Trimming, quotes and escapes\<close>

fun slash_run :: "string \<Rightarrow> nat \<Rightarrow> nat" where
  "slash_run s 0 = 0"
| "slash_run s (Suc j) = (if s ! j = CHR 0x5C then Suc (slash_run s j) else 0)"

definition escapedByte :: "string \<Rightarrow> nat \<Rightarrow> bool" where
  "escapedByte s i \<longleftrightarrow> slash_run s i mod 2 = 1"

text \<open>The trailing loop of \<open>trimUnescapedSpace\<close>: \<open>t\<close> is \<open>s[:end]\<close>.\<close>

function trim_end :: "nat \<Rightarrow> string \<Rightarrow> string" where
  "trim_end start t =
     (if start < length t then
        let (r, size) = decode_last_rune t in
        if \<not> is_space r \<or> escapedByte t (length t - size) then t
        else trim_end start (take (length t - size) t)
      else t)"
  by pat_completeness auto
termination
proof (relation "measure (\<lambda>(start, t). length t)", goal_cases)
  case (2 start t x r size)
  then have "t \<noteq> []" by auto
  with 2 show ?case using decode_last_rune_size [of t] by (cases "decode_last_rune t") auto
qed simp

declare trim_end.simps [simp del]

definition trimUnescapedSpace :: "string \<Rightarrow> string" where
  "trimUnescapedSpace s =
     (let start = length s - length (trim_left_space s) in drop start (trim_end start s))"

fun isAllDigits :: "string \<Rightarrow> bool" where
  "isAllDigits [] = False"
| "isAllDigits (c # cs) = list_all is_digit (c # cs)"

text \<open>\<open>expandSlashEscapes\<close>.  The named escapes write the control bytes 0, 7, 8, 12, 10, 13, 9
  and 11; \<open>\\xHH\<close> is exactly two hexadecimal digits.\<close>

fun escape_byte :: "char \<Rightarrow> char" where
  "escape_byte c =
     (if c = CHR ''0'' then CHR 0x00 else if c = CHR ''a'' then CHR 0x07
      else if c = CHR ''b'' then CHR 0x08 else if c = CHR ''f'' then CHR 0x0C
      else if c = CHR ''n'' then CHR 0x0A else if c = CHR ''r'' then CHR 0x0D
      else if c = CHR ''t'' then CHR 0x09 else if c = CHR ''v'' then CHR 0x0B
      else c)"

fun expandSlashEscapes :: "string \<Rightarrow> parse_error + string" where
  "expandSlashEscapes [] = Inr []"
| "expandSlashEscapes (c # cs) =
     (if c \<noteq> CHR 0x5C then bind_ok (expandSlashEscapes cs) (\<lambda>r. Inr (c # r))
      else case cs of
        [] \<Rightarrow> Inl TrailingBackslash
      | d # ds \<Rightarrow>
          if d \<noteq> CHR ''x'' then bind_ok (expandSlashEscapes ds) (\<lambda>r. Inr (escape_byte d # r))
          else case ds of
            h1 # h2 # rest \<Rightarrow>
              (case (hex_val h1, hex_val h2) of
                 (Some v1, Some v2) \<Rightarrow>
                   bind_ok (expandSlashEscapes rest) (\<lambda>r. Inr (char_of (v1 * 16 + v2) # r))
               | _ \<Rightarrow> Inl MalformedHexEscape)
          | _ \<Rightarrow> Inl MalformedHexEscape)"

function strip_loop :: "SpecScanner \<Rightarrow> string \<Rightarrow> string" where
  "strip_loop sc b =
     (case Step sc of ((c, cls, ok), sc') \<Rightarrow>
      if \<not> ok then b
      else if cls \<noteq> ClassDelim then strip_loop sc' (b @ [c])
      else strip_loop sc' b)"
  by pat_completeness auto
termination
  by (relation "measure (\<lambda>(sc, _). length (sc_s sc) - sc_i sc)") (auto dest!: Step_ok)

definition stripNestingQuotes :: "string \<Rightarrow> string" where
  "stripNestingQuotes s = strip_loop (NewSpecScanner s False) []"

function scan_to_end :: "SpecScanner \<Rightarrow> SpecScanner" where
  "scan_to_end sc =
     (case Step sc of ((c, cls, ok), sc') \<Rightarrow> if \<not> ok then sc' else scan_to_end sc')"
  by pat_completeness auto
termination
  by (relation "measure (\<lambda>sc. length (sc_s sc) - sc_i sc)") (auto dest!: Step_ok)

definition checkBalancedQuotes :: "string \<Rightarrow> parse_error option" where
  "checkBalancedQuotes s =
     (let sc = scan_to_end (NewSpecScanner s False) in
      if single (sc_mode sc) \<or> double (sc_mode sc) then Some UnbalancedQuote else None)"

definition unquote :: "parse_env \<Rightarrow> string \<Rightarrow> bool \<Rightarrow> parse_error + string" where
  "unquote env s0 pathValue =
     (let s = trimUnescapedSpace s0 in
      if 2 \<le> length s \<and>
         ((hd s = CHR 0x22 \<and> last s = CHR 0x22) \<or> (hd s = CHR 0x27 \<and> last s = CHR 0x27)) then
        (let t = segment s 1 (length s - 1) in
         if pathValue \<and> looksLikeWindowsPath env t then Inr t else expandSlashEscapes t)
      else
        let t = (if contains_any s [CHR 0x22, CHR 0x27] then stripNestingQuotes s else s) in
        if pathValue \<and> looksLikeWindowsPath env t then Inr t
        else if \<not> contains_byte t (CHR 0x5C) then Inr t
        else expandSlashEscapes t)"

subsection \<open>Options\<close>

definition parseOption :: "parse_env \<Rightarrow> string \<Rightarrow> parse_error + ParsedOption" where
  "parseOption env s =
     (let (rawName, rawValue, has) =
        (case indexTopLevel s (CHR ''='') of
           None \<Rightarrow> (s, [], False)
         | Some eq \<Rightarrow> (take eq s, drop (eq + 1) s, True));
          spelling = to_lower rawName;
          name = normalizeOptionName env spelling in
      if has then
        bind_ok (unquote env rawValue (pathOption env name))
          (\<lambda>value. Inr \<lparr>opt_name = name, opt_spelling = spelling, opt_value = value, opt_has = True\<rparr>)
      else Inr \<lparr>opt_name = name, opt_spelling = spelling, opt_value = [], opt_has = False\<rparr>)"

text \<open>One piece of the option list: blank pieces are dropped.\<close>

definition add_option :: "parse_env \<Rightarrow> string \<Rightarrow> ParsedOption list \<Rightarrow> parse_error + ParsedOption list" where
  "add_option env piece opts =
     (let part = trimUnescapedSpace piece in
      if part \<noteq> [] then bind_ok (parseOption env part) (\<lambda>opt. Inr (opts @ [opt])) else Inr opts)"

function option_loop ::
  "parse_env \<Rightarrow> SpecScanner \<Rightarrow> nat \<Rightarrow> ParsedOption list \<Rightarrow> parse_error + (nat \<times> ParsedOption list)" where
  "option_loop env sc start opts =
     (case Step sc of ((c, cls, ok), sc') \<Rightarrow>
      if \<not> ok then Inr (start, opts)
      else if cls = ClassTop \<and> c = CHR '','' then
        bind_ok (add_option env (segment (sc_s sc) start (sc_i sc' - 1)) opts)
          (\<lambda>opts'. option_loop env sc' (sc_i sc') opts')
      else option_loop env sc' start opts)"
  by pat_completeness auto
termination
  by (relation "measure (\<lambda>(_, sc, _). length (sc_s sc) - sc_i sc)") (auto dest!: Step_ok)

definition splitOptions :: "parse_env \<Rightarrow> string \<Rightarrow> parse_error + ParsedOption list" where
  "splitOptions env s =
     (if s = [] then Inr []
      else bind_ok (option_loop env (NewSpecScanner s True) 0 [])
             (\<lambda>(start, opts). add_option env (drop start s) opts))"

subsection \<open>Parameters\<close>

definition colonParam :: "parse_env \<Rightarrow> string \<Rightarrow> bool \<Rightarrow> parse_error + string" where
  "colonParam env value preserveRaw = (if preserveRaw then Inr value else unquote env value False)"

definition raw_field :: "nat option \<Rightarrow> nat \<Rightarrow> bool" where
  "raw_field dataIndex index = (case dataIndex of None \<Rightarrow> False | Some d \<Rightarrow> d \<le> index)"

function colon_loop ::
  "parse_env \<Rightarrow> nat option \<Rightarrow> SpecScanner \<Rightarrow> nat \<Rightarrow> nat \<Rightarrow> string list
     \<Rightarrow> parse_error + (nat \<times> nat \<times> string list)" where
  "colon_loop env dataIndex sc start index parts =
     (case Step sc of ((c, cls, ok), sc') \<Rightarrow>
      if \<not> ok then Inr (start, index, parts)
      else if cls = ClassTop \<and> c = CHR '':'' then
        (if isWindowsDriveColon (sc_s sc) start (sc_i sc' - 1)
         then colon_loop env dataIndex sc' start index parts
         else
           bind_ok (colonParam env (segment (sc_s sc) start (sc_i sc' - 1)) (raw_field dataIndex index))
             (\<lambda>part. colon_loop env dataIndex sc' (sc_i sc') (index + 1) (parts @ [part])))
      else colon_loop env dataIndex sc' start index parts)"
  by pat_completeness auto
termination
  by (relation "measure (\<lambda>(_, _, sc, _). length (sc_s sc) - sc_i sc)") (auto dest!: Step_ok)

definition splitColonParams ::
  "parse_env \<Rightarrow> string \<Rightarrow> bool \<Rightarrow> nat option \<Rightarrow> parse_error + string list" where
  "splitColonParams env s pathParam dataIndex =
     (if s = [] then Inr []
      else if pathParam then bind_ok (unquote env s True) (\<lambda>part. Inr [part])
      else bind_ok (colon_loop env dataIndex (NewSpecScanner s (dataIndex = None)) 0 0 [])
             (\<lambda>(start, index, parts).
                bind_ok (colonParam env (drop start s) (raw_field dataIndex index))
                  (\<lambda>part. Inr (parts @ [part]))))"

definition splitParamsAndOptions ::
  "parse_env \<Rightarrow> string \<Rightarrow> bool \<Rightarrow> nat option \<Rightarrow> parse_error + (string list \<times> ParsedOption list)" where
  "splitParamsAndOptions env s pathParam dataIndex =
     (if s = [] then Inr ([], [])
      else
        let (paramPart, optPart) =
          (case indexTopLevel s (CHR '','') of
             None \<Rightarrow> (s, [])
           | Some k \<Rightarrow> (take k s, drop (k + 1) s)) in
        bind_ok (if paramPart \<noteq> [] then splitColonParams env paramPart pathParam dataIndex else Inr [])
          (\<lambda>params. bind_ok (if optPart \<noteq> [] then splitOptions env optPart else Inr [])
             (\<lambda>opts. Inr (params, opts))))"

subsection \<open>Specifications and channels\<close>

fun splitType :: "string \<Rightarrow> string \<times> string \<times> bool" where
  "splitType [] = ([], [], False)"
| "splitType (c # cs) =
     (if c = CHR '':'' then ([], cs, True)
      else if c = CHR '','' then ([], c # cs, False)
      else case splitType cs of (typeName, rest, hadColon) \<Rightarrow> (c # typeName, rest, hadColon))"

text \<open>The bare-path branch of \<open>ParseSpec\<close> rejoins parameters that a colon split.\<close>

definition rejoin_path :: "string \<Rightarrow> string list \<Rightarrow> string list" where
  "rejoin_path s params =
     (if params = [] then [s] else if 1 < length params then [join (CHR '':'') params] else params)"

definition ParseSpec :: "parse_env \<Rightarrow> string \<Rightarrow> parse_error + Spec" where
  "ParseSpec env s0 =
     (let s = trimUnescapedSpace s0 in
      if s = [] then Inl EmptyAddress
      else case checkBalancedQuotes s of Some e \<Rightarrow> Inl e
      | None \<Rightarrow>
        if s = ''-'' then
          Inr \<lparr>spec_type = ''STDIO'', spec_params = [], spec_options = [], spec_raw = s\<rparr>
        else if has_prefix s ''-,'' then
          bind_ok (splitOptions env (drop 2 s))
            (\<lambda>opts. Inr \<lparr>spec_type = ''STDIO'', spec_params = [], spec_options = opts, spec_raw = s\<rparr>)
        else if isAllDigits s then
          Inr \<lparr>spec_type = ''FD'', spec_params = [s], spec_options = [], spec_raw = s\<rparr>
        else if looksLikePath env s then
          bind_ok (splitParamsAndOptions env s True None)
            (\<lambda>(params, opts). Inr \<lparr>spec_type = ''GOPEN'', spec_params = rejoin_path s params,
                                   spec_options = opts, spec_raw = s\<rparr>)
        else
          let (typeName, rest, hadColon) = splitType s in
          if typeName = [] then Inl (MissingType s)
          else
            bind_ok (splitParamsAndOptions env rest (pathParamType env typeName) (socketDataIndex typeName))
              (\<lambda>(params, opts). Inr \<lparr>spec_type = to_upper typeName,
                 spec_params = (if hadColon \<and> params = [] then [[]] else params),
                 spec_options = opts, spec_raw = s\<rparr>))"

function dual_loop :: "SpecScanner \<Rightarrow> (string \<times> string) option" where
  "dual_loop sc =
     (case Step sc of ((c, cls, ok), sc') \<Rightarrow>
      if \<not> ok then None
      else if cls = ClassTop \<and> c = CHR ''!'' \<and> sc_i sc' < length (sc_s sc) \<and>
              sc_s sc ! sc_i sc' = CHR ''!''
      then Some (take (sc_i sc' - 1) (sc_s sc), drop (sc_i sc' + 1) (sc_s sc))
      else dual_loop sc')"
  by pat_completeness auto
termination
  by (relation "measure (\<lambda>sc. length (sc_s sc) - sc_i sc)") (auto dest!: Step_ok)

definition splitDual :: "string \<Rightarrow> (string \<times> string) option" where
  "splitDual s = dual_loop (NewSpecScanner s True)"

fun map_err :: "('e \<Rightarrow> 'f) \<Rightarrow> 'e + 'a \<Rightarrow> 'f + 'a" where
  "map_err f (Inl e) = Inl (f e)"
| "map_err f (Inr x) = Inr x"

definition ParseChannel :: "parse_env \<Rightarrow> string \<Rightarrow> parse_error + Channel" where
  "ParseChannel env s0 =
     (let s = trimUnescapedSpace s0 in
      if s = [] then Inl EmptyAddress
      else case splitDual s of
        Some (left, right) \<Rightarrow>
          bind_ok (map_err DualLeft (ParseSpec env left)) (\<lambda>ls.
          bind_ok (map_err DualRight (ParseSpec env right)) (\<lambda>rs.
            Inr \<lparr>chan_single = None,
                 chan_dual = Some \<lparr>dual_left = ls, dual_right = rs, dual_raw = s\<rparr>,
                 chan_raw = s\<rparr>))
      | None \<Rightarrow>
          bind_ok (ParseSpec env s) (\<lambda>spec.
            Inr \<lparr>chan_single = Some spec, chan_dual = None, chan_raw = s\<rparr>))"

declare strip_loop.simps [simp del] scan_to_end.simps [simp del] option_loop.simps [simp del]
  colon_loop.simps [simp del] dual_loop.simps [simp del]

end
