(* ===== verification/ParseLemmas.thy ===== *)
theory ParseLemmas
  imports ParseSpec
begin

text \<open>
  Lemmas about the address parser.  The scanner loops of \<open>ParseSpec\<close> are shown equal to folds
  over \<open>split_top\<close>; \<open>hex_escape\<close> is a specification-level encoder (every byte as \<open>\\xHH\<close>) with
  which any byte string can be written as a parameter or option value; the round-trip
  properties of the root theory rest on the lemmas here.
\<close>

definition hex_digit :: "nat \<Rightarrow> char" where
  "hex_digit n = char_of (if n < 10 then n + 48 else n - 10 + 97)"

definition hex_escape_byte :: "char \<Rightarrow> string" where
  "hex_escape_byte c = [CHR 0x5C, CHR ''x'', hex_digit (code c div 16), hex_digit (code c mod 16)]"

definition hex_escape :: "string \<Rightarrow> string" where
  "hex_escape s = concat (map hex_escape_byte s)"

text \<open>Characters of type keywords and option names.\<close>

definition plain_char :: "char \<Rightarrow> bool" where
  "plain_char c \<longleftrightarrow> is_digit c \<or> is_upper c \<or> is_lower c \<or> c = CHR ''-''"

definition plain_word :: "string \<Rightarrow> bool" where
  "plain_word s \<longleftrightarrow> s \<noteq> [] \<and> list_all plain_char s"

text \<open>A specification text with every value escaped.\<close>

definition render_spec :: "string \<Rightarrow> string list \<Rightarrow> (string \<times> string) list \<Rightarrow> string" where
  "render_spec T ps os =
     T @ concat (map (\<lambda>p. CHR '':'' # hex_escape p) ps) @
     concat (map (\<lambda>(n, v). CHR '','' # n @ CHR ''='' # hex_escape v) os)"

definition rendered_option :: "parse_env \<Rightarrow> string \<times> string \<Rightarrow> ParsedOption" where
  "rendered_option env nv =
     \<lparr>opt_name = normalizeOptionName env (to_lower (fst nv)), opt_spelling = to_lower (fst nv),
      opt_value = snd nv, opt_has = True\<rparr>"

text \<open>The errors that escape expansion can report.\<close>

definition escape_error :: "parse_error \<Rightarrow> bool" where
  "escape_error e \<longleftrightarrow> e = TrailingBackslash \<or> e = MalformedHexEscape"

text \<open>Options added one piece at a time, stopping at the first error.\<close>

fun add_all :: "parse_env \<Rightarrow> string list \<Rightarrow> ParsedOption list \<Rightarrow> parse_error + ParsedOption list" where
  "add_all env [] opts = Inr opts"
| "add_all env (p # ps) opts = bind_ok (add_option env p opts) (add_all env ps)"

fun params_all :: "parse_env \<Rightarrow> nat option \<Rightarrow> nat \<Rightarrow> string list \<Rightarrow> parse_error + string list" where
  "params_all env di index [] = Inr []"
| "params_all env di index (p # ps) =
     bind_ok (colonParam env p (raw_field di index))
       (\<lambda>part. bind_ok (params_all env di (Suc index) ps) (\<lambda>parts. Inr (part # parts)))"

subsection \<open>The loops compute the references\<close>

lemma option_loop_add_all:
  "start \<le> length pre \<Longrightarrow>
   bind_ok (option_loop env (scanner_at (pre @ s) (length pre) m) start opts)
     (\<lambda>(st, os). add_option env (drop st (pre @ s)) os) =
   add_all env ((drop start pre @ hd (split_top m (CHR '','') s)) # tl (split_top m (CHR '','') s)) opts"
proof (induction s arbitrary: pre m start opts)
  case Nil
  then show ?case by (subst option_loop.simps) (simp add: Step_end, cases "add_option env (drop start pre) opts", auto)
next
  case (Cons c cs)
  let ?m = "snd (classify m c)" and ?ps = "split_top (snd (classify m c)) (CHR '','') cs"
  obtain p ps where ps: "?ps = p # ps" by (cases ?ps) auto
  show ?case
  proof (cases "fst (classify m c) = ClassTop \<and> c = CHR '',''")
    case True
    have seg: "segment (pre @ c # cs) start (length pre) = drop start pre"
      using Cons.prems by (simp add: segment_def)
    show ?thesis
    proof (cases "add_option env (drop start pre) opts")
      case (Inl e)
      with True seg show ?thesis by (subst option_loop.simps) auto
    next
      case (Inr opts')
      with Cons.IH [of "length (pre @ [c])" "pre @ [c]" ?m opts'] True seg ps show ?thesis
        by (subst option_loop.simps) auto
    qed
  next
    case False
    with Cons.IH [of start "pre @ [c]" ?m opts] Cons.prems ps show ?thesis
      by (subst option_loop.simps) auto
  qed
qed

lemma splitOptions_add_all: "splitOptions env s = add_all env (split_top (mode0 True) (CHR '','') s) []"
proof (cases "s = []")
  case True
  have "trimUnescapedSpace [] = []"
    by (simp add: trimUnescapedSpace_def trim_left_space.simps trim_end.simps)
  with True show ?thesis by (simp add: splitOptions_def add_option_def)
next
  case False
  with option_loop_add_all [of 0 "[]" env s "mode0 True" "[]"] show ?thesis
    by (simp add: splitOptions_def NewSpecScanner_def)
qed

text \<open>No piece but the last is a single letter that a slash or backslash follows, so no colon
  is taken for a Windows drive colon.\<close>

definition no_drive :: "string list \<Rightarrow> bool" where
  "no_drive ps \<longleftrightarrow> (\<forall>p \<in> set ps. \<not> (length p = 1 \<and> ascii_letter (hd p)))"

lemma colon_loop_params_all:
  "start \<le> length pre \<Longrightarrow>
   no_drive ((drop start pre @ hd (split_top m (CHR '':'') s)) # tl (split_top m (CHR '':'') s)) \<Longrightarrow>
   bind_ok (colon_loop env di (scanner_at (pre @ s) (length pre) m) start index parts)
     (\<lambda>(st, ix, ps). bind_ok (colonParam env (drop st (pre @ s)) (raw_field di ix))
        (\<lambda>part. Inr (ps @ [part]))) =
   bind_ok (params_all env di index
      ((drop start pre @ hd (split_top m (CHR '':'') s)) # tl (split_top m (CHR '':'') s)))
     (\<lambda>ps. Inr (parts @ ps))"
proof (induction s arbitrary: pre m start index parts)
  case Nil
  then show ?case
    by (subst colon_loop.simps)
      (simp add: Step_end, cases "colonParam env (drop start pre) (raw_field di index)", auto)
next
  case (Cons c cs)
  let ?m = "snd (classify m c)" and ?ps = "split_top (snd (classify m c)) (CHR '':'') cs"
  obtain p ps where ps: "?ps = p # ps" by (cases ?ps) auto
  show ?case
  proof (cases "fst (classify m c) = ClassTop \<and> c = CHR '':''")
    case True
    have seg: "segment (pre @ c # cs) start (length pre) = drop start pre"
      using Cons.prems by (simp add: segment_def)
    have nd: "\<not> isWindowsDriveColon (pre @ c # cs) start (length pre)"
    proof
      assume w: "isWindowsDriveColon (pre @ c # cs) start (length pre)"
      then have len: "length (drop start pre) = 1" by (simp add: isWindowsDriveColon_def)
      then have "start < length pre" by simp
      with len have "hd (drop start pre) = pre ! start" by (simp add: hd_drop_conv_nth)
      with w \<open>start < length pre\<close> have "ascii_letter (hd (drop start pre))"
        by (simp add: isWindowsDriveColon_def nth_append)
      with len Cons.prems(2) True ps show False by (auto simp: no_drive_def)
    qed
    from Cons.prems(2) True ps have nd': "no_drive (p # ps)" by (auto simp: no_drive_def)
    show ?thesis
    proof (cases "colonParam env (drop start pre) (raw_field di index)")
      case (Inl e)
      with True seg nd show ?thesis by (subst colon_loop.simps) auto
    next
      case (Inr part)
      with Cons.IH [of "length (pre @ [c])" "pre @ [c]" ?m "index + 1" "parts @ [part]"]
        True seg nd nd' ps show ?thesis
        by (subst colon_loop.simps)
          (auto, cases "params_all env di (Suc index) (p # ps)", auto)
    qed
  next
    case False
    with Cons.prems(2) ps have "no_drive ((drop start (pre @ [c]) @ hd ?ps) # tl ?ps)"
      using Cons.prems(1) by auto
    with False Cons.IH [of start "pre @ [c]" ?m index parts] Cons.prems(1) ps show ?thesis
      by (subst colon_loop.simps) auto
  qed
qed

subsection \<open>Neutral text\<close>

definition calm :: "scan_mode \<Rightarrow> bool" where
  "calm m \<longleftrightarrow> \<not> single m \<and> \<not> double m \<and> \<not> esc m \<and> paren m = 0 \<and> brace m = 0 \<and> bracket m = 0"

definition special_char :: "char \<Rightarrow> bool" where
  "special_char c \<longleftrightarrow> List.member [CHR 0x5C, CHR 0x27, CHR 0x22, CHR ''('', CHR '')'', CHR ''{'', CHR ''}'', CHR ''['', CHR '']''] c"

lemma calm_mode0 [simp]: "calm (mode0 t)"
  by (simp add: calm_def mode0_def)

lemma classify_ordinary [simp]: "calm m \<Longrightarrow> \<not> special_char c \<Longrightarrow> classify m c = (ClassTop, m)"
  by (auto simp: calm_def special_char_def classify_def classify_nesting_def)

lemma classify_escape:
  "calm m \<Longrightarrow> classify m (CHR 0x5C) = (ClassSkip, m\<lparr>esc := True\<rparr>)"
  by (simp add: calm_def classify_def)

lemma classify_escaped:
  "calm m \<Longrightarrow> classify (m\<lparr>esc := True\<rparr>) c = (ClassSkip, m)"
  by (simp add: calm_def classify_def)

text \<open>\<open>neutral sep t\<close>: walking \<open>t\<close> from a calm mode comes back to that mode and meets no
  top-level \<open>sep\<close>.\<close>

definition neutral :: "char \<Rightarrow> string \<Rightarrow> bool" where
  "neutral sep t \<longleftrightarrow> (\<forall>m. calm m \<longrightarrow> mode_after m t = m \<and> find_top m sep t = None)"

lemma find_top_append:
  "find_top m sep (s @ t) =
     (case find_top m sep s of Some i \<Rightarrow> Some i
      | None \<Rightarrow> (case find_top (mode_after m s) sep t of None \<Rightarrow> None | Some k \<Rightarrow> Some (length s + k)))"
  by (induction s arbitrary: m) (auto split: option.splits)

lemma neutral_Nil [simp]: "neutral sep []"
  by (simp add: neutral_def)

lemma neutral_append [intro]: "neutral sep s \<Longrightarrow> neutral sep t \<Longrightarrow> neutral sep (s @ t)"
  by (simp add: neutral_def mode_after_append find_top_append)

lemma neutral_Cons: "\<not> special_char c \<Longrightarrow> c \<noteq> sep \<Longrightarrow> neutral sep t \<Longrightarrow> neutral sep (c # t)"
  by (simp add: neutral_def)

lemma neutral_escape:
  "neutral sep t \<Longrightarrow> neutral sep (CHR 0x5C # c # t)"
  by (simp add: neutral_def classify_escape classify_escaped)

lemma neutral_concat: "(\<And>t. t \<in> set ts \<Longrightarrow> neutral sep t) \<Longrightarrow> neutral sep (concat ts)"
  by (induction ts) auto

lemma find_top_neutral:
  "calm m \<Longrightarrow> neutral sep t \<Longrightarrow> \<not> special_char sep \<Longrightarrow> find_top m sep (t @ sep # rest) = Some (length t)"
  by (simp add: neutral_def find_top_append)

lemma split_top_neutral_last: "calm m \<Longrightarrow> neutral sep t \<Longrightarrow> split_top m sep t = [t]"
  by (subst split_top_find_top) (simp add: neutral_def)

lemma split_top_neutral_cons:
  "calm m \<Longrightarrow> neutral sep t \<Longrightarrow> \<not> special_char sep \<Longrightarrow>
     split_top m sep (t @ sep # rest) = t # split_top m sep rest"
  by (subst split_top_find_top)
    (simp add: find_top_neutral mode_after_append, simp add: neutral_def)

lemma split_top_neutral_join:
  "calm m \<Longrightarrow> (\<And>t. t \<in> set ts \<Longrightarrow> neutral sep t) \<Longrightarrow> \<not> special_char sep \<Longrightarrow> ts \<noteq> [] \<Longrightarrow>
     split_top m sep (join sep ts) = ts"
proof (induction ts)
  case (Cons t ts)
  then show ?case
    by (cases "ts = []") (simp_all add: join_Cons split_top_neutral_last split_top_neutral_cons)
qed simp

subsection \<open>Plain words and hexadecimal escapes\<close>

lemma code_hex_digit: "n < 16 \<Longrightarrow> code (hex_digit n) = (if n < 10 then n + 48 else n - 10 + 97)"
  by (simp add: code_def hex_digit_def)

lemma hex_val_hex_digit [simp]: "n < 16 \<Longrightarrow> hex_val (hex_digit n) = Some n"
  by (auto simp: hex_val_def is_digit_def code_hex_digit)

lemma code_lt [simp]: "code c < 256"
  by (simp add: code_def)

lemma code_div16 [simp]: "code c div 16 < 16"
  using code_lt [of c] by arith

lemma char_of_code [simp]: "char_of (code c) = c"
  by (simp add: code_def)

lemma code_eq_iff: "code c = code d \<longleftrightarrow> c = d"
  by (metis char_of_code)

lemma code_const [simp]:
  "code (CHR 0x5C) = 92" "code (CHR 0x27) = 39" "code (CHR 0x22) = 34"
  "code (CHR ''('') = 40" "code (CHR '')'') = 41" "code (CHR ''{'') = 123" "code (CHR ''}'') = 125"
  "code (CHR ''['') = 91" "code (CHR '']'') = 93" "code (CHR '':'') = 58" "code (CHR '','') = 44"
  "code (CHR ''='') = 61" "code (CHR ''/'') = 47" "code (CHR ''-'') = 45" "code (CHR ''!'') = 33"
  "code (CHR ''x'') = 120"
  by (simp_all add: code_def)

lemma special_code: "special_char c \<longleftrightarrow> code c \<in> {92, 39, 34, 40, 41, 123, 125, 91, 93}"
  unfolding special_char_def
  by (simp add: code_eq_iff [symmetric])

lemma plain_not_special [simp]: "plain_char c \<Longrightarrow> \<not> special_char c"
  by (auto simp: plain_char_def special_code is_digit_def is_upper_def is_lower_def)

lemma hex_digit_plain: "n < 16 \<Longrightarrow> plain_char (hex_digit n)"
  by (auto simp: plain_char_def is_digit_def is_lower_def code_hex_digit)

lemma plain_not_sep:
  "plain_char c \<Longrightarrow> c \<noteq> CHR '':'' \<and> c \<noteq> CHR '','' \<and> c \<noteq> CHR ''='' \<and> c \<noteq> CHR ''/'' \<and> c \<noteq> CHR ''!'' \<and> c \<noteq> CHR 0x5C"
  by (auto simp: plain_char_def is_digit_def is_upper_def is_lower_def)

lemma neutral_plain:
  "list_all plain_char s \<Longrightarrow> \<not> plain_char sep \<Longrightarrow> neutral sep s"
  by (induction s) (auto intro!: neutral_Cons)

lemma neutral_hex_escape: "\<not> plain_char sep \<Longrightarrow> neutral sep (hex_escape s)"
  unfolding hex_escape_def hex_escape_byte_def
  by (rule neutral_concat)
    (auto intro!: neutral_escape neutral_Cons hex_digit_plain plain_not_special dest: hex_digit_plain)

lemma expandSlashEscapes_hex_escape: "expandSlashEscapes (hex_escape s) = Inr s"
proof (induction s)
  case (Cons c s)
  have "char_of (code c div 16 * 16 + code c mod 16) = c" by simp
  then show ?case using Cons by (simp add: hex_escape_def hex_escape_byte_def)
qed (simp add: hex_escape_def)

subsection \<open>Text that trimming leaves alone\<close>

definition solid :: "char \<Rightarrow> bool" where
  "solid c \<longleftrightarrow> code c < 128 \<and> \<not> is_space (code c)"

lemma trimUnescapedSpace_Nil [simp]: "trimUnescapedSpace [] = []"
  by (simp add: trimUnescapedSpace_def trim_left_space.simps trim_end.simps)

lemma trimUnescapedSpace_solid:
  assumes "s \<noteq> []" "solid (hd s)" "solid (last s)"
  shows "trimUnescapedSpace s = s"
proof -
  have "trim_left_space s = s"
    using assms by (cases s) (simp_all add: trim_left_space.simps solid_def)
  moreover have "trim_end 0 s = s"
    using assms by (simp add: trim_end.simps decode_last_rune_def Let_def solid_def last_conv_nth)
  ultimately show ?thesis by (simp add: trimUnescapedSpace_def)
qed

lemma trim_space_solid:
  assumes "s \<noteq> []" "solid (hd s)" "solid (last s)"
  shows "trim_space s = s"
proof -
  have "trim_left_space s = s"
    using assms by (cases s) (simp_all add: trim_left_space.simps solid_def)
  moreover have "trim_right_space s = s"
    using assms by (simp add: trim_right_space.simps decode_last_rune_def Let_def solid_def last_conv_nth)
  ultimately show ?thesis by (simp add: trim_space_def)
qed

lemma solid_plain [simp]: "plain_char c \<Longrightarrow> solid c"
  by (auto simp: solid_def plain_char_def is_digit_def is_upper_def is_lower_def is_space_def)

lemma solid_const [simp]: "solid (CHR 0x5C)" "solid (CHR '':'')" "solid (CHR '','')" "solid (CHR ''='')"
  by (simp_all add: solid_def is_space_def)

lemma hex_escape_Nil_iff [simp]: "hex_escape s = [] \<longleftrightarrow> s = []"
  by (cases s) (simp_all add: hex_escape_def hex_escape_byte_def)

lemma hd_hex_escape: "s \<noteq> [] \<Longrightarrow> hd (hex_escape s) = CHR 0x5C"
  by (cases s) (simp_all add: hex_escape_def hex_escape_byte_def)

lemma plain_last_hex_escape: "s \<noteq> [] \<Longrightarrow> plain_char (last (hex_escape s))"
  by (cases s rule: rev_cases) (simp_all add: hex_escape_def hex_escape_byte_def hex_digit_plain)

lemma trim_hex_escape [simp]: "trimUnescapedSpace (hex_escape s) = hex_escape s"
proof (cases "s = []")
  case True
  then show ?thesis by (simp add: hex_escape_def)
next
  case False
  then show ?thesis by (intro trimUnescapedSpace_solid) (simp_all add: hd_hex_escape plain_last_hex_escape)
qed

lemma hex_escape_chars: "c \<in> set (hex_escape s) \<Longrightarrow> c = CHR 0x5C \<or> plain_char c"
proof (induction s)
  case (Cons a s)
  have "plain_char (CHR ''x'')" by (simp add: plain_char_def is_lower_def)
  with Cons show ?case by (auto simp: hex_escape_def hex_escape_byte_def hex_digit_plain)
qed (simp add: hex_escape_def)

lemma hex_escape_no_quotes: "CHR 0x22 \<notin> set (hex_escape s)" "CHR 0x27 \<notin> set (hex_escape s)"
  using hex_escape_chars [of "CHR 0x22" s] hex_escape_chars [of "CHR 0x27" s]
  by (auto simp: plain_char_def is_digit_def is_upper_def is_lower_def)

lemma unquote_hex_escape:
  assumes "\<not> nativeWindowsPathSeparators env"
  shows "unquote env (hex_escape s) pathValue = Inr s"
proof (cases s)
  case Nil
  then show ?thesis
    by (simp add: unquote_def hex_escape_def contains_any_def contains_byte_def
        looksLikeWindowsPath_def hasWindowsVolume_def)
next
  case (Cons c cs)
  have noq: "\<not> contains_any (hex_escape s) [CHR 0x22, CHR 0x27]"
    using hex_escape_no_quotes [of s] by (auto simp: contains_any_def list_ex_iff)
  have nv: "\<not> looksLikeWindowsPath env (hex_escape s)"
    using assms Cons
    by (simp add: looksLikeWindowsPath_def hasWindowsVolume_def hex_escape_def hex_escape_byte_def
        ascii_letter_def is_upper_def is_lower_def)
  have "contains_byte (hex_escape s) (CHR 0x5C)"
    using Cons by (simp add: contains_byte_def hex_escape_def hex_escape_byte_def)
  moreover have "hd (hex_escape s) = CHR 0x5C" using Cons by (simp add: hd_hex_escape)
  ultimately show ?thesis
    using noq nv expandSlashEscapes_hex_escape [of s] by (simp add: unquote_def Let_def)
qed

lemma parseOption_roundtrip:
  assumes "\<not> nativeWindowsPathSeparators env" "plain_word n"
  shows "parseOption env (n @ CHR ''='' # hex_escape v) =
     Inr \<lparr>opt_name = normalizeOptionName env (to_lower n), opt_spelling = to_lower n,
          opt_value = v, opt_has = True\<rparr>"
proof -
  have "\<not> special_char (CHR ''='')" "\<not> plain_char (CHR ''='')"
    by (simp_all add: special_code plain_char_def is_digit_def is_upper_def is_lower_def)
  then have "indexTopLevel (n @ CHR ''='' # hex_escape v) (CHR ''='') = Some (length n)"
    unfolding indexTopLevel_find_top
    using assms(2) by (intro find_top_neutral neutral_plain) (simp_all add: plain_word_def)
  then show ?thesis
    by (simp add: parseOption_def Let_def unquote_hex_escape [OF assms(1)])
qed

subsection \<open>Quotes\<close>

lemma scan_to_end_mode:
  "sc_mode (scan_to_end (scanner_at (pre @ s) (length pre) m)) = mode_after m s"
proof (induction s arbitrary: pre m)
  case Nil
  show ?case by (subst scan_to_end.simps) (simp add: Step_end)
next
  case (Cons c cs)
  from Cons [of "pre @ [c]" "snd (classify m c)"] show ?case by (subst scan_to_end.simps) simp
qed

lemma checkBalancedQuotes_iff:
  "checkBalancedQuotes s =
     (if single (mode_after (mode0 False) s) \<or> double (mode_after (mode0 False) s)
      then Some UnbalancedQuote else None)"
  using scan_to_end_mode [of "[]" s "mode0 False"]
  by (simp add: checkBalancedQuotes_def NewSpecScanner_def Let_def)

lemma no_quotes_mode:
  "CHR 0x22 \<notin> set s \<Longrightarrow> CHR 0x27 \<notin> set s \<Longrightarrow> \<not> single m \<Longrightarrow> \<not> double m \<Longrightarrow>
     \<not> single (mode_after m s) \<and> \<not> double (mode_after m s)"
proof (induction s arbitrary: m)
  case (Cons c cs)
  then have "\<not> single (snd (classify m c)) \<and> \<not> double (snd (classify m c))"
    by (auto simp: classify_def classify_nesting_def)
  with Cons show ?case by simp
qed simp

lemma checkBalancedQuotes_no_quotes:
  "CHR 0x22 \<notin> set s \<Longrightarrow> CHR 0x27 \<notin> set s \<Longrightarrow> checkBalancedQuotes s = None"
  using no_quotes_mode [of s "mode0 False"] by (simp add: checkBalancedQuotes_iff mode0_def)

lemma strip_loop_filter:
  "strip_loop (scanner_at (pre @ s) (length pre) m) b =
     b @ map fst (filter (\<lambda>(c, cls). cls \<noteq> ClassDelim) (zip s (walk m s)))"
proof (induction s arbitrary: pre m b)
  case Nil
  show ?case by (subst strip_loop.simps) (simp add: Step_end)
next
  case (Cons c cs)
  from Cons [of "pre @ [c]" "snd (classify m c)"] show ?case by (subst strip_loop.simps) simp
qed

subsection \<open>Dual addresses\<close>

lemma dual_loop_Some:
  "dual_loop (scanner_at (pre @ s) (length pre) m) = Some (l, r) \<Longrightarrow>
     \<exists>k. k + 1 < length s \<and> s ! k = CHR ''!'' \<and> s ! (k + 1) = CHR ''!'' \<and> walk m s ! k = ClassTop \<and>
         l = pre @ take k s \<and> r = drop (k + 2) s \<and>
         (\<forall>j < k. \<not> (s ! j = CHR ''!'' \<and> s ! (j + 1) = CHR ''!'' \<and> walk m s ! j = ClassTop))"
proof (induction s arbitrary: pre m)
  case Nil
  then show ?case by (subst (asm) dual_loop.simps) (simp add: Step_end)
next
  case (Cons c cs)
  let ?m = "snd (classify m c)"
  let ?hit = "fst (classify m c) = ClassTop \<and> c = CHR ''!'' \<and> cs \<noteq> [] \<and> hd cs = CHR ''!''"
  have nxt: "cs \<noteq> [] \<Longrightarrow> (pre @ c # cs) ! Suc (length pre) = hd cs"
    by (cases cs) (simp_all add: nth_append)
  show ?case
  proof (cases ?hit)
    case True
    with Cons.prems nxt have "l = pre" "r = tl cs"
      by (subst (asm) dual_loop.simps, cases cs, auto)+
    with True show ?thesis by (intro exI [of _ 0]) (cases cs, auto)
  next
    case False
    with Cons.prems nxt have "dual_loop (scanner_at ((pre @ [c]) @ cs) (length (pre @ [c])) ?m) = Some (l, r)"
      by (subst (asm) dual_loop.simps) (auto split: if_splits)
    from Cons.IH [OF this] obtain k where k: "k + 1 < length cs" "cs ! k = CHR ''!''"
      "cs ! (k + 1) = CHR ''!''" "walk ?m cs ! k = ClassTop" "l = (pre @ [c]) @ take k cs"
      "r = drop (k + 2) cs"
      "\<forall>j < k. \<not> (cs ! j = CHR ''!'' \<and> cs ! (j + 1) = CHR ''!'' \<and> walk ?m cs ! j = ClassTop)"
      by blast
    have "\<not> ((c # cs) ! j = CHR ''!'' \<and> (c # cs) ! (j + 1) = CHR ''!'' \<and> walk m (c # cs) ! j = ClassTop)"
      if "j < Suc k" for j
      using that k(1,7) False by (cases j; cases cs) auto
    with k show ?thesis by (intro exI [of _ "Suc k"]) simp
  qed
qed

lemma dual_loop_None:
  "dual_loop (scanner_at (pre @ s) (length pre) m) = None \<Longrightarrow> k + 1 < length s \<Longrightarrow>
     \<not> (s ! k = CHR ''!'' \<and> s ! (k + 1) = CHR ''!'' \<and> walk m s ! k = ClassTop)"
proof (induction s arbitrary: pre m k)
  case (Cons c cs)
  let ?m = "snd (classify m c)"
  have nxt: "cs \<noteq> [] \<Longrightarrow> (pre @ c # cs) ! Suc (length pre) = hd cs"
    by (cases cs) (simp_all add: nth_append)
  from Cons.prems(1) nxt have nh: "\<not> (fst (classify m c) = ClassTop \<and> c = CHR ''!'' \<and> cs \<noteq> [] \<and> hd cs = CHR ''!'')"
    by (subst (asm) dual_loop.simps, cases cs) (auto split: if_splits)
  from Cons.prems(1) nh nxt have rec: "dual_loop (scanner_at ((pre @ [c]) @ cs) (length (pre @ [c])) ?m) = None"
    by (subst (asm) dual_loop.simps) (auto split: if_splits)
  show ?case
    using Cons.IH [OF rec, of "k - 1"] Cons.prems(2) nh by (cases k; cases cs) auto
qed simp


subsection \<open>Rendered specifications parse back\<close>

lemma concat_join: "ps \<noteq> [] \<Longrightarrow> concat (map (\<lambda>p. sep # f p) ps) = sep # join sep (map f ps)"
proof (induction ps)
  case (Cons p ps)
  then show ?case by (cases ps) simp_all
qed simp

lemma sep_facts [simp]:
  "\<not> special_char (CHR '':'')" "\<not> special_char (CHR '','')" "\<not> special_char (CHR ''='')"
  "\<not> plain_char (CHR '':'')" "\<not> plain_char (CHR '','')" "\<not> plain_char (CHR ''='')"
  by (simp_all add: special_code plain_char_def is_digit_def is_upper_def is_lower_def)

lemma render_chars:
  assumes "plain_word T" "\<forall>(n, v) \<in> set os. plain_word n" "c \<in> set (render_spec T ps os)"
  shows "plain_char c \<or> c \<in> {CHR 0x5C, CHR '':'', CHR '','', CHR ''=''}"
proof -
  from assms(3) consider "c \<in> set T" | p where "p \<in> set ps" "c \<in> set (CHR '':'' # hex_escape p)"
    | n v where "(n, v) \<in> set os" "c \<in> set (CHR '','' # n @ CHR ''='' # hex_escape v)"
    unfolding render_spec_def set_append set_concat set_map image_image
    by (auto simp del: list.set set_append UN_insert UN_simps)
  then show ?thesis
  proof cases
    case 1
    with assms(1) show ?thesis by (auto simp: plain_word_def list_all_iff)
  next
    case 2
    with hex_escape_chars [of c p] show ?thesis by auto
  next
    case 3
    with hex_escape_chars [of c v] assms(2) show ?thesis by (auto simp: plain_word_def list_all_iff)
  qed
qed

lemma solid_chars_trim: "s \<noteq> [] \<Longrightarrow> (\<And>c. c \<in> set s \<Longrightarrow> solid c) \<Longrightarrow> trimUnescapedSpace s = s"
  by (intro trimUnescapedSpace_solid) auto

lemma option_piece:
  assumes "\<not> nativeWindowsPathSeparators env" "plain_word n"
  shows "add_option env (n @ CHR ''='' # hex_escape v) opts =
     Inr (opts @ [\<lparr>opt_name = normalizeOptionName env (to_lower n), opt_spelling = to_lower n,
                   opt_value = v, opt_has = True\<rparr>])"
proof -
  have "solid c" if "c \<in> set (n @ CHR ''='' # hex_escape v)" for c
    using that assms(2) hex_escape_chars [of c v] by (auto simp: plain_word_def list_all_iff)
  then have "trimUnescapedSpace (n @ CHR ''='' # hex_escape v) = n @ CHR ''='' # hex_escape v"
    by (intro solid_chars_trim) auto
  with parseOption_roundtrip [OF assms, of v] show ?thesis
    by (simp add: add_option_def)
qed

lemma add_all_rendered:
  assumes "\<not> nativeWindowsPathSeparators env"
  shows "\<forall>(n, v) \<in> set os. plain_word n \<Longrightarrow>
    add_all env (map (\<lambda>(n, v). n @ CHR ''='' # hex_escape v) os) opts
      = Inr (opts @ map (rendered_option env) os)"
  by (induction os arbitrary: opts) (auto simp: option_piece [OF assms] rendered_option_def)

lemma neutral_option: "plain_word n \<Longrightarrow> neutral (CHR '','') (n @ CHR ''='' # hex_escape v)"
  by (intro neutral_append neutral_plain neutral_Cons neutral_hex_escape) (simp_all add: plain_word_def)

lemma splitOptions_rendered:
  assumes "\<not> nativeWindowsPathSeparators env" "\<forall>(n, v) \<in> set os. plain_word n" "os \<noteq> []"
  shows "splitOptions env (join (CHR '','') (map (\<lambda>(n, v). n @ CHR ''='' # hex_escape v) os))
    = Inr (map (rendered_option env) os)"
proof -
  have "split_top (mode0 True) (CHR '','') (join (CHR '','') (map (\<lambda>(n, v). n @ CHR ''='' # hex_escape v) os))
     = map (\<lambda>(n, v). n @ CHR ''='' # hex_escape v) os"
    using assms by (intro split_top_neutral_join) (auto intro: neutral_option)
  with add_all_rendered [OF assms(1,2), of "[]"] show ?thesis by (simp add: splitOptions_add_all)
qed

lemma params_all_rendered:
  "\<not> nativeWindowsPathSeparators env \<Longrightarrow> params_all env None index (map hex_escape ps) = Inr ps"
  by (induction ps arbitrary: index) (simp_all add: colonParam_def raw_field_def unquote_hex_escape)

lemma hex_escape_not_letter: "\<not> (length (hex_escape p) = 1 \<and> ascii_letter (hd (hex_escape p)))"
  by (cases p) (simp_all add: hex_escape_def hex_escape_byte_def)

lemma splitColonParams_rendered:
  assumes "\<not> nativeWindowsPathSeparators env" "ps \<noteq> []" "join (CHR '':'') (map hex_escape ps) \<noteq> []"
  shows "splitColonParams env (join (CHR '':'') (map hex_escape ps)) False None = Inr ps"
proof -
  have pieces: "split_top (mode0 True) (CHR '':'') (join (CHR '':'') (map hex_escape ps)) = map hex_escape ps"
    using assms by (intro split_top_neutral_join) (auto intro: neutral_hex_escape)
  moreover have "no_drive (map hex_escape ps)"
    using hex_escape_not_letter by (auto simp: no_drive_def)
  moreover have "hd (map hex_escape ps) # tl (map hex_escape ps) = map hex_escape ps"
    using assms(2) by simp
  ultimately show ?thesis
    using colon_loop_params_all [of 0 "[]" "mode0 True" "join (CHR '':'') (map hex_escape ps)" env None 0 "[]"]
      params_all_rendered [OF assms(1), of 0 ps] assms(3)
    by (simp add: splitColonParams_def NewSpecScanner_def)
qed

lemma neutral_params:
  "neutral (CHR '','') (join (CHR '':'') (map hex_escape ps))"
proof (induction ps)
  case (Cons p ps)
  then show ?case
    by (cases "ps = []") (auto simp: join_Cons intro!: neutral_append neutral_Cons neutral_hex_escape)
qed simp

lemma join_map_Nil: "ps \<noteq> [] \<Longrightarrow> join sep (map f ps) = [] \<Longrightarrow> \<exists>p. ps = [p] \<and> f p = []"
  by (cases ps; cases "tl ps") auto

lemma splitParams_rendered:
  assumes "\<not> nativeWindowsPathSeparators env" "ps \<noteq> []" "\<forall>(n, v) \<in> set os. plain_word n"
  shows "\<exists>params. splitParamsAndOptions env
       (join (CHR '':'') (map hex_escape ps) @
        concat (map (\<lambda>(n, v). CHR '','' # n @ CHR ''='' # hex_escape v) os)) False None
     = Inr (params, map (rendered_option env) os) \<and> (if params = [] then [[]] else params) = ps"
proof -
  let ?J = "join (CHR '':'') (map hex_escape ps)"
  let ?g = "\<lambda>(n, v). n @ CHR ''='' # hex_escape v"
  define params where "params = (if ?J = [] then [] else ps)"
  have pp: "(if params = [] then [[]] else params) = ps"
    using assms(2) join_map_Nil [OF assms(2), of "CHR '':''" hex_escape] by (auto simp: params_def)
  have sp: "(if ?J \<noteq> [] then splitColonParams env ?J False None else Inr []) = Inr params"
    using splitColonParams_rendered [OF assms(1,2)] by (auto simp: params_def)
  have "splitParamsAndOptions env
       (?J @ concat (map (\<lambda>(n, v). CHR '','' # n @ CHR ''='' # hex_escape v) os)) False None
     = Inr (params, map (rendered_option env) os)"
  proof (cases "os = []")
    case True
    moreover have "indexTopLevel ?J (CHR '','') = None"
      using neutral_params [of ps] by (simp add: indexTopLevel_find_top neutral_def)
    ultimately show ?thesis using sp by (auto simp: splitParamsAndOptions_def params_def)
  next
    case False
    let ?O = "join (CHR '','') (map ?g os)"
    have eq: "concat (map (\<lambda>(n, v). CHR '','' # n @ CHR ''='' # hex_escape v) os) = CHR '','' # ?O"
      using concat_join [OF False, of "CHR '',''" ?g] by (simp add: case_prod_unfold)
    have "indexTopLevel (?J @ CHR '','' # ?O) (CHR '','') = Some (length ?J)"
      unfolding indexTopLevel_find_top by (rule find_top_neutral) (simp_all add: neutral_params)
    moreover have "?O \<noteq> []"
    proof
      assume "?O = []"
      then show False using join_map_Nil [OF False, of "CHR '',''" ?g] by auto
    qed
    ultimately show ?thesis
      using sp splitOptions_rendered [OF assms(1,3) False]
      by (simp add: splitParamsAndOptions_def eq)
  qed
  with pp show ?thesis by blast
qed

lemma splitType_plain: "list_all plain_char T \<Longrightarrow> splitType (T @ CHR '':'' # r) = (T, r, True)"
  by (induction T) (auto dest: plain_not_sep)

lemma path_scan_plain: "list_all plain_char T \<Longrightarrow> path_scan native (T @ CHR '':'' # r) = False"
  by (induction T) (auto dest: plain_not_sep)

subsection \<open>Which errors the parser reports\<close>

lemma expand_error: "expandSlashEscapes s = Inl e \<Longrightarrow> escape_error e"
proof (induction s rule: expandSlashEscapes.induct)
  case (2 c cs)
  show ?case
  proof (cases "c = CHR 0x5C")
    case False
    with 2 show ?thesis by (simp add: bind_ok_eq_Inl)
  next
    case True
    show ?thesis
    proof (cases cs)
      case Nil
      with 2 True show ?thesis by (simp add: escape_error_def)
    next
      case (Cons d ds)
      show ?thesis
      proof (cases "d = CHR ''x''")
        case False
        with 2 True Cons show ?thesis by (simp add: bind_ok_eq_Inl del: escape_byte.simps)
      next
        case x: True
        with 2 True Cons show ?thesis
          by (auto simp: escape_error_def bind_ok_eq_Inl split: list.splits option.splits)
      qed
    qed
  qed
qed simp

lemma unquote_error: "unquote env s pv = Inl e \<Longrightarrow> escape_error e"
  by (auto simp: unquote_def Let_def split: if_splits dest: expand_error)

lemma add_option_error: "add_option env p opts = Inl e \<Longrightarrow> escape_error e"
  by (auto simp: add_option_def parseOption_def Let_def bind_ok_eq_Inl split: if_splits option.splits
      dest: unquote_error)

lemma add_all_error: "add_all env ps opts = Inl e \<Longrightarrow> escape_error e"
  by (induction ps arbitrary: opts) (auto simp: bind_ok_eq_Inl dest: add_option_error)

lemma splitOptions_error: "splitOptions env s = Inl e \<Longrightarrow> escape_error e"
  by (auto simp: splitOptions_add_all dest: add_all_error)

lemma colon_loop_error:
  "colon_loop env di (scanner_at (pre @ s) (length pre) m) start index parts = Inl e \<Longrightarrow> escape_error e"
proof (induction s arbitrary: pre m start index parts)
  case Nil
  then show ?case by (subst (asm) colon_loop.simps) (simp add: Step_end)
next
  case (Cons c cs)
  have IH: "escape_error e" if "colon_loop env di (scanner_at (pre @ c' # cs) (Suc (length pre)) m') st ix ps = Inl e"
    for c' m' st ix ps
    using that Cons.IH [of "pre @ [c']"] by simp
  from Cons.prems show ?case
    by (subst (asm) colon_loop.simps)
      (auto simp: bind_ok_eq_Inl colonParam_def split: if_splits dest: unquote_error IH)
qed

lemma splitColonParams_error: "splitColonParams env s pp di = Inl e \<Longrightarrow> escape_error e"
  using colon_loop_error [of env di "[]" s]
  by (auto simp: splitColonParams_def bind_ok_eq_Inl colonParam_def NewSpecScanner_def split: if_splits
      dest: unquote_error)

lemma splitParamsAndOptions_error: "splitParamsAndOptions env s pp di = Inl e \<Longrightarrow> escape_error e"
  by (auto simp: splitParamsAndOptions_def Let_def bind_ok_eq_Inl split: if_splits option.splits
      dest: splitColonParams_error splitOptions_error)

end
