(* ===== verification/ParseProps.thy ===== *)
theory ParseProps
  imports ParseLemmas
begin

text \<open>
  Properties of the address parser (\<open>internal/parse\<close>) and of the option catalog that it consults
  (\<open>internal/optionmeta\<close>).
\<close>

text \<open>The environment of the witnesses: a Unix build with a one-option catalog.\<close>

definition demo_env :: parse_env where
  "demo_env = \<lparr>nativeWindowsPathSeparators = False,
     env_catalog = [\<lparr>Canonical = ''bind'', Aliases = [''b''], ParserAliases = [], PublicAliases = [],
       Advertise = 0, Hidden = False, PathValue = False, Isolation = False, Kind = 1\<rparr>]\<rparr>"

lemma demo_valid: "validateCatalog (env_catalog demo_env) = None"
  by (simp add: demo_env_def validateCatalog_def Names_def to_lower_def to_lower_char_def is_upper_def
      code_def)

subsection \<open>Rendering and parsing\<close>

text \<open>C4: ordinary addresses can be written down.  On a build without native Windows separators, take a type keyword
  of letters, digits and dashes, at least two long, that is neither a path type nor a SOCKET type with a raw data
  field, a non-empty list of parameters and a list of options whose names are of the same characters;
  parameters and option values are byte strings of any content.  The text that writes them with
  hexadecimal escapes parses to the type in upper case, exactly those parameters, and those options in
  order, with their names normalised and their values unchanged.\<close>

theorem ParseSpec_render_roundtrip:
  assumes "\<not> nativeWindowsPathSeparators env"
    and "plain_word T" "2 \<le> length T" "\<not> pathParamType env T" "socketDataIndex T = None"
    and "ps \<noteq> []" "\<forall>(n, v) \<in> set os. plain_word n"
  shows "ParseSpec env (render_spec T ps os) =
     Inr \<lparr>spec_type = to_upper T, spec_params = ps, spec_options = map (rendered_option env) os,
          spec_raw = render_spec T ps os\<rparr>"
proof -
  let ?s = "render_spec T ps os"
  let ?r = "join (CHR '':'') (map hex_escape ps) @
            concat (map (\<lambda>(n, v). CHR '','' # n @ CHR ''='' # hex_escape v) os)"
  have s: "?s = T @ CHR '':'' # ?r"
    by (simp add: render_spec_def concat_join [OF assms(6)])
  obtain a b T' where T: "T = a # b # T'"
    using assms(3) by (cases T; cases "tl T") auto
  have ab: "plain_char a" "plain_char b" using assms(2) T by (auto simp: plain_word_def)
  have s2: "?s = a # b # T' @ CHR '':'' # ?r" using s T by simp
  note chars = render_chars [OF assms(2,7)]
  have "solid c" if "c \<in> set ?s" for c using chars [OF that] by auto
  then have trim: "trimUnescapedSpace ?s = ?s" by (intro solid_chars_trim) (simp add: s)
  have "CHR 0x22 \<notin> set ?s" "CHR 0x27 \<notin> set ?s"
    using chars [of "CHR 0x22" ps] chars [of "CHR 0x27" ps]
    by (auto simp: plain_char_def is_digit_def is_upper_def is_lower_def)
  then have quotes: "checkBalancedQuotes ?s = None" by (rule checkBalancedQuotes_no_quotes)
  have notdash: "?s \<noteq> ''-''" "\<not> has_prefix ?s ''-,''"
    unfolding s2 using plain_not_sep [OF ab(2)] by auto
  have notdigits: "\<not> isAllDigits ?s"
    unfolding s2 by (simp add: is_digit_def)
  have "\<not> hasWindowsVolume ?s"
    unfolding s2 using plain_not_sep [OF ab(1)] plain_not_sep [OF ab(2)] by (simp add: hasWindowsVolume_def)
  moreover have "\<not> path_scan (nativeWindowsPathSeparators env) ?s"
    unfolding s using assms(2) by (simp add: path_scan_plain plain_word_def)
  ultimately have notpath: "\<not> looksLikePath env ?s" by (simp add: looksLikePath_def)
  have type: "splitType ?s = (T, ?r, True)"
    using assms(2) by (simp add: s splitType_plain plain_word_def)
  obtain params where sp: "splitParamsAndOptions env ?r False None = Inr (params, map (rendered_option env) os)"
    and pp: "(if params = [] then [[]] else params) = ps"
    using splitParams_rendered [OF assms(1,6,7)] by blast
  have ne: "?s \<noteq> []" "T \<noteq> []" unfolding s2 by (simp_all add: T)
  have tp: "pathParamType env T = False" using assms(4) by simp
  have "ParseSpec env ?s =
    (let (typeName, rest, hadColon) = splitType ?s in
          if typeName = [] then Inl (MissingType ?s)
          else
            bind_ok (splitParamsAndOptions env rest (pathParamType env typeName) (socketDataIndex typeName))
              (\<lambda>(params, opts). Inr \<lparr>spec_type = to_upper typeName,
                 spec_params = (if hadColon \<and> params = [] then [[]] else params),
                 spec_options = opts, spec_raw = ?s\<rparr>))"
    unfolding ParseSpec_def trim Let_def
    by (simp only: quotes ne notdash notdigits notpath if_False option.case)
  also have "\<dots> = Inr \<lparr>spec_type = to_upper T, spec_params = (if params = [] then [[]] else params),
       spec_options = map (rendered_option env) os, spec_raw = ?s\<rparr>"
    unfolding type Let_def prod.case using ne(2)
    by (simp only: if_False tp assms(5) sp bind_ok.simps prod.case simp_thms)
  finally show ?thesis by (simp only: pp)
qed

theorem ParseSpec_render_roundtrip_witness:
  "ParseSpec demo_env (render_spec ''TCP'' [''a:b'', '', ''] [(''BIND'', ''x=y'')]) =
     Inr \<lparr>spec_type = ''TCP'', spec_params = [''a:b'', '', ''],
          spec_options = [rendered_option demo_env (''BIND'', ''x=y'')],
          spec_raw = render_spec ''TCP'' [''a:b'', '', ''] [(''BIND'', ''x=y'')]\<rparr>"
proof -
  have "\<not> nativeWindowsPathSeparators demo_env" by (simp add: demo_env_def)
  moreover have "plain_word ''TCP''" "plain_word ''BIND''"
    by (simp_all add: plain_word_def plain_char_def is_upper_def code_def)
  moreover have up: "to_upper ''TCP'' = ''TCP''"
    by (simp add: to_upper_def to_upper_char_def is_lower_def code_def)
  moreover have "\<not> pathParamType demo_env ''TCP''" by (simp add: pathParamType_def up demo_env_def)
  moreover have "trim_space ''TCP'' = ''TCP''"
    by (rule trim_space_solid) (simp_all add: solid_def is_space_def code_def)
  then have "socketDataIndex ''TCP'' = None" by (simp add: socketDataIndex_def up)
  ultimately show ?thesis
    using ParseSpec_render_roundtrip [of demo_env "''TCP''" "[''a:b'', '', '']" "[(''BIND'', ''x=y'')]"]
    by simp
qed

text \<open>C13: a non-blank specification is rejected for unbalanced quotes exactly when the quote
  automaton of the scanner ends inside a quote; no other input reports that error.\<close>

theorem ParseSpec_unbalanced_iff:
  assumes "trimUnescapedSpace s \<noteq> []"
  shows "ParseSpec env s = Inl UnbalancedQuote \<longleftrightarrow>
     single (mode_after (mode0 False) (trimUnescapedSpace s)) \<or>
     double (mode_after (mode0 False) (trimUnescapedSpace s))"
proof -
  let ?t = "trimUnescapedSpace s"
  have "ParseSpec env s \<noteq> Inl UnbalancedQuote" if bal: "checkBalancedQuotes ?t = None"
  proof
    assume "ParseSpec env s = Inl UnbalancedQuote"
    with bal assms have "escape_error UnbalancedQuote"
      by (auto simp: ParseSpec_def Let_def bind_ok_eq_Inl split: if_splits prod.splits
          dest: splitOptions_error splitParamsAndOptions_error)
    then show False by (simp add: escape_error_def)
  qed
  moreover have "ParseSpec env s = Inl UnbalancedQuote" if "checkBalancedQuotes ?t \<noteq> None"
    using that assms by (auto simp: ParseSpec_def Let_def checkBalancedQuotes_iff split: if_splits)
  ultimately have "ParseSpec env s = Inl UnbalancedQuote \<longleftrightarrow> checkBalancedQuotes ?t \<noteq> None" by blast
  then show ?thesis by (simp add: checkBalancedQuotes_iff)
qed


theorem ParseSpec_unbalanced_iff_witness:
  "ParseSpec demo_env (''EXEC:'' @ [CHR 0x22] @ ''a'') = Inl UnbalancedQuote"
proof -
  have t: "trimUnescapedSpace (''EXEC:'' @ [CHR 0x22] @ ''a'') = ''EXEC:'' @ [CHR 0x22] @ ''a''"
    by (rule trimUnescapedSpace_solid) (simp_all add: solid_def is_space_def code_def)
  moreover have "double (mode_after (mode0 False) (''EXEC:'' @ [CHR 0x22] @ ''a''))"
    by (simp add: mode0_def classify_def)
  ultimately show ?thesis
    using ParseSpec_unbalanced_iff [of "''EXEC:'' @ [CHR 0x22] @ ''a''" demo_env] by simp
qed

text \<open>C14: \<open>splitDual\<close> splits an address at the first pair of exclamation marks that begins at
  top level (outside quotes, escapes and brackets), and only there.\<close>

theorem splitDual_iff:
  "splitDual s = Some (l, r) \<longleftrightarrow>
     s = l @ ''!!'' @ r \<and> walk (mode0 True) s ! length l = ClassTop \<and>
     (\<forall>j < length l. \<not> (s ! j = CHR ''!'' \<and> s ! (j + 1) = CHR ''!'' \<and> walk (mode0 True) s ! j = ClassTop))"
  (is "_ \<longleftrightarrow> ?first l r")
proof -
  have sd: "splitDual s = dual_loop (scanner_at ([] @ s) (length ([] :: string)) (mode0 True))"
    by (simp add: splitDual_def NewSpecScanner_def)
  have sound: "?first l r" if "splitDual s = Some (l, r)" for l r
  proof -
    from dual_loop_Some [OF that [unfolded sd]] obtain k where k: "k + 1 < length s" "s ! k = CHR ''!''"
      "s ! (k + 1) = CHR ''!''" "walk (mode0 True) s ! k = ClassTop" "l = take k s" "r = drop (k + 2) s"
      "\<forall>j < k. \<not> (s ! j = CHR ''!'' \<and> s ! (j + 1) = CHR ''!'' \<and> walk (mode0 True) s ! j = ClassTop)"
      by auto
    have "s = take k s @ s ! k # s ! (k + 1) # drop (k + 2) s"
      using k(1) id_take_nth_drop [of k s] Cons_nth_drop_Suc [of "Suc k" s] by simp
    with k show ?thesis by (simp add: min_def)
  qed
  have hit: "s ! length l = CHR ''!'' \<and> s ! (length l + 1) = CHR ''!''" if "s = l @ ''!!'' @ r" for l r
    unfolding that by (simp add: nth_append)
  have complete: "splitDual s = Some (l, r)" if f: "?first l r"
  proof (cases "splitDual s")
    case None
    from f have "length l + 1 < length s" by simp
    with dual_loop_None [OF None [unfolded sd], of "length l"] f show ?thesis
      by (auto simp: nth_append)
  next
    case (Some lr)
    obtain l' r' where lr: "lr = (l', r')" by (cases lr)
    have f': "?first l' r'" by (rule sound) (simp only: Some lr)
    have "length l = length l'"
      using f f' hit [of l r] hit [of l' r'] by (meson linorder_neqE_nat)
    moreover from f f' have "l @ ''!!'' @ r = l' @ ''!!'' @ r'" by simp
    ultimately have "l = l' \<and> r = r'" by simp
    with Some lr show ?thesis by simp
  qed
  show ?thesis using sound complete by blast
qed

theorem splitDual_iff_witness: "splitDual ''a!!b'' = Some (''a'', ''b'')"
  using splitDual_iff [of "''a!!b''" "''a''" "''b''"]
  by (simp add: mode0_def classify_def classify_nesting_def)

text \<open>C15: the scanner loop of \<open>splitOptions\<close> is the fold of \<open>add_option\<close> over the text between
  top-level commas, and those pieces, joined by commas, are the input again: no byte of an option
  list is lost or read twice.\<close>

theorem splitOptions_pieces:
  "splitOptions env s = add_all env (split_top (mode0 True) (CHR '','') s) [] \<and>
   join (CHR '','') (split_top (mode0 True) (CHR '','') s) = s"
  by (simp add: splitOptions_add_all join_split_top)

subsection \<open>The option catalog\<close>

text \<open>C16: folding parser aliases is idempotent for every catalog that the start-up validation
  accepts: the canonical name of an option is never itself an alias of another.\<close>

theorem normalizeOptionName_idem:
  assumes "validateCatalog (env_catalog env) = None"
  shows "normalizeOptionName env (normalizeOptionName env name) = normalizeOptionName env name"
  using ParserCanonical_idem [OF assms] by (simp add: normalizeOptionName_def)

theorem normalizeOptionName_idem_witness:
  "validateCatalog (env_catalog demo_env) = None \<and>
   normalizeOptionName demo_env (normalizeOptionName demo_env ''B'') = normalizeOptionName demo_env ''B''"
proof -
  have v: "validateCatalog (env_catalog demo_env) = None" by (rule demo_valid)
  with normalizeOptionName_idem [OF v] show ?thesis by simp
qed

text \<open>C17: in an accepted catalog \<open>Lookup\<close> finds an entry exactly when the name, without surrounding space and in
  lower case, is one of the spellings of that entry, canonical or alias: every spelling is found in any case and
  with space around it, it belongs to one entry only, and nothing else is found.\<close>

theorem Lookup_names:
  assumes "validateCatalog cat = None"
  shows "Lookup cat name = Some d \<longleftrightarrow> d \<in> set cat \<and> to_lower (trim_space name) \<in> set (Names d)"
proof
  assume "Lookup cat name = Some d"
  then obtain k where "bySpelling cat (to_lower (trim_space name)) = Some k" "d = cat ! k" by (auto simp: Lookup_def)
  with bySpelling_sound [OF assms] show "d \<in> set cat \<and> to_lower (trim_space name) \<in> set (Names d)" by auto
next
  assume r: "d \<in> set cat \<and> to_lower (trim_space name) \<in> set (Names d)"
  then obtain k where k: "k < length cat" "d = cat ! k" by (auto simp: in_set_conv_nth)
  have "bySpelling cat (to_lower (trim_space name)) = Some k"
    using index_names_at [OF validateCatalog_names(1) [OF assms] k(1), of _ 0 Map.empty] r k(2) by (simp add: bySpelling_def)
  then show "Lookup cat name = Some d" by (simp add: Lookup_def k(2))
qed

theorem Lookup_names_witness:
  "Lookup (env_catalog demo_env) '' B'' = Some (env_catalog demo_env ! 0)"
proof -
  have "trim_space '' B'' = ''B''" by code_simp
  moreover have "to_lower ''B'' = ''b''" by code_simp
  moreover have "env_catalog demo_env ! 0 \<in> set (env_catalog demo_env)" "''b'' \<in> set (Names (env_catalog demo_env ! 0))"
    by (simp_all add: demo_env_def Names_def)
  ultimately show ?thesis using Lookup_names [OF demo_valid, of "'' B''" "env_catalog demo_env ! 0"] by simp
qed

end
