(* ===== verification/Wire.thy ===== *)
theory Wire
  imports Prelude
begin

text \<open>
  \<open>internal/dtls13/wire.go\<close>: the sticky-error reader and writer of nested TLS vectors.  A
  method that changes its receiver returns the new reader or writer beside its value.  The
  lemmas in \<open>wire_simps\<close> say what reading does in front of a written field, so that a codec
  round trip is one simplification; \<open>rd_done\<close> and the \<open>err\<close> lemmas say that an error is never
  forgotten.  The errors of the whole package are the datatype
  \<open>dtls_error\<close>; the alerts of \<open>alert.go\<close> are \<open>alertError\<close> with their codes.  \<open>ErrMessageTooLong\<close> is a
  transport error for which \<open>isMessageTooLong\<close> holds, \<open>ErrTransport\<close> any other one.
\<close>

named_theorems wire_simps

datatype dtls_error =
    alertError byte | errRecord | errRecordOverflow | errSequence
  | errReplay | errAuthentication | errACK | errHandshakeLimit | errFragmentConflict
  | errHandshakeTimeout | errCipherSuite | errCipher | errOperationPending
  | errKeyMaterial | errHKDFLabel | errPathPending | errProbeDisabled | errProbePending
  | errProbeBusy | errProbeSize | errProbeTooBig | ErrMessageTooLong | ErrTransport | ErrRandom
  | errSignature | errCertificate | errWritePending | ErrClosed | ErrDeadlineExceeded
  | ErrHandshakeReadTimeout | ErrContextDeadline | errCIDCollision | panicked

abbreviation errUnexpectedMessage :: dtls_error where "errUnexpectedMessage \<equiv> alertError 10"
abbreviation errHandshakeFailure :: dtls_error where "errHandshakeFailure \<equiv> alertError 40"
abbreviation errBadCertificate :: dtls_error where "errBadCertificate \<equiv> alertError 42"
abbreviation errIllegalParameter :: dtls_error where "errIllegalParameter \<equiv> alertError 47"
abbreviation errDecode :: dtls_error where "errDecode \<equiv> alertError 50"
abbreviation errDecrypt :: dtls_error where "errDecrypt \<equiv> alertError 51"
abbreviation errProtocolVersion :: dtls_error where "errProtocolVersion \<equiv> alertError 70"
abbreviation errInternal :: dtls_error where "errInternal \<equiv> alertError 80"
abbreviation errMissingExtension :: dtls_error where "errMissingExtension \<equiv> alertError 109"
abbreviation errUnsupportedExtension :: dtls_error where "errUnsupportedExtension \<equiv> alertError 110"

record wireReader =
  rd_data :: "byte list"
  rd_err :: "dtls_error option"

record wireWriter =
  wr_data :: "byte list"
  wr_err :: "dtls_error option"

definition new_reader :: "byte list \<Rightarrow> wireReader" where
  "new_reader d = \<lparr>rd_data = d, rd_err = None\<rparr>"

definition new_writer :: wireWriter where
  "new_writer = \<lparr>wr_data = [], wr_err = None\<rparr>"

definition rd_take :: "nat \<Rightarrow> wireReader \<Rightarrow> byte list \<times> wireReader" where
  "rd_take n r =
     (if rd_err r \<noteq> None \<or> length (rd_data r) < n then ([], r\<lparr>rd_err := Some errDecode\<rparr>)
      else (take n (rd_data r), r\<lparr>rd_data := drop n (rd_data r)\<rparr>))"

definition readUint8 :: "wireReader \<Rightarrow> byte \<times> wireReader" where
  "readUint8 r = (let (b, r') = rd_take 1 r in (if length b = 0 then 0 else b ! 0, r'))"

definition readUint16 :: "wireReader \<Rightarrow> u16 \<times> wireReader" where
  "readUint16 r = (let (b, r') = rd_take 2 r in (if length b = 0 then 0 else of_nat (be_dec b), r'))"

definition uint24 :: "wireReader \<Rightarrow> nat \<times> wireReader" where
  "uint24 r = (let (b, r') = rd_take 3 r in (if length b = 0 then 0 else be_dec b, r'))"

definition vector8 :: "wireReader \<Rightarrow> byte list \<times> wireReader" where
  "vector8 r = (let (n, r') = readUint8 r in rd_take (unat n) r')"

definition vector16 :: "wireReader \<Rightarrow> byte list \<times> wireReader" where
  "vector16 r = (let (n, r') = readUint16 r in rd_take (unat n) r')"

definition vector24 :: "wireReader \<Rightarrow> byte list \<times> wireReader" where
  "vector24 r = (let (n, r') = uint24 r in rd_take n r')"

definition rd_done :: "wireReader \<Rightarrow> dtls_error option" where
  "rd_done r = (if rd_err r \<noteq> None \<or> length (rd_data r) \<noteq> 0 then Some errDecode else None)"

definition writeUint8 :: "byte \<Rightarrow> wireWriter \<Rightarrow> wireWriter" where
  "writeUint8 v w = w\<lparr>wr_data := wr_data w @ [v]\<rparr>"

definition writeUint16 :: "u16 \<Rightarrow> wireWriter \<Rightarrow> wireWriter" where
  "writeUint16 v w = w\<lparr>wr_data := wr_data w @ be_enc 2 (unat v)\<rparr>"

definition write_uint24 :: "nat \<Rightarrow> wireWriter \<Rightarrow> wireWriter" where
  "write_uint24 v w =
     (if 0xffffff < v then w\<lparr>wr_err := Some errDecode\<rparr> else w\<lparr>wr_data := wr_data w @ be_enc 3 v\<rparr>)"

definition write_vector8 :: "byte list \<Rightarrow> wireWriter \<Rightarrow> wireWriter" where
  "write_vector8 v w =
     (if 255 < length v then w\<lparr>wr_err := Some errDecode\<rparr>
      else let w' = writeUint8 (of_nat (length v)) w in w'\<lparr>wr_data := wr_data w' @ v\<rparr>)"

definition write_vector16 :: "byte list \<Rightarrow> wireWriter \<Rightarrow> wireWriter" where
  "write_vector16 v w =
     (if 65535 < length v then w\<lparr>wr_err := Some errDecode\<rparr>
      else let w' = writeUint16 (of_nat (length v)) w in w'\<lparr>wr_data := wr_data w' @ v\<rparr>)"

definition write_vector24 :: "byte list \<Rightarrow> wireWriter \<Rightarrow> wireWriter" where
  "write_vector24 v w =
     (if 0xffffff < length v then w\<lparr>wr_err := Some errDecode\<rparr>
      else let w' = write_uint24 (length v) w in w'\<lparr>wr_data := wr_data w' @ v\<rparr>)"

definition wr_result :: "wireWriter \<Rightarrow> dtls_error + byte list" where
  "wr_result w = (case wr_err w of Some e \<Rightarrow> Inl e | None \<Rightarrow> Inr (wr_data w))"

subsection \<open>Reading what was written\<close>

lemma new_reader_sel [simp, wire_simps]: "rd_data (new_reader d) = d" "rd_err (new_reader d) = None"
  by (simp_all add: new_reader_def)

lemma rd_take_append [simp, wire_simps]:
  "length v = n \<Longrightarrow> rd_take n (new_reader (v @ rest)) = (v, new_reader rest)"
  by (auto simp: rd_take_def new_reader_def)

lemma readUint8_cons [simp, wire_simps]: "readUint8 (new_reader (b # rest)) = (b, new_reader rest)"
  using rd_take_append [of "[b]" 1 rest] by (simp add: readUint8_def)

lemma unat_u16_lt: "unat (v :: u16) < 256 ^ 2"
  using unsigned_less [of v, where ?'a = nat] by simp

lemma readUint16_enc [simp, wire_simps]:
  "readUint16 (new_reader (be_enc 2 (unat v) @ rest)) = (v, new_reader rest)"
  using rd_take_append [of "be_enc 2 (unat v)" 2 rest] unat_u16_lt [of v]
  by (simp add: readUint16_def del: be_enc.simps)

lemma uint24_enc [simp, wire_simps]:
  "v \<le> 0xffffff \<Longrightarrow> uint24 (new_reader (be_enc 3 v @ rest)) = (v, new_reader rest)"
  using rd_take_append [of "be_enc 3 v" 3 rest] by (simp add: uint24_def del: be_enc.simps)

lemma vector8_enc [simp, wire_simps]:
  "length v \<le> 255 \<Longrightarrow> vector8 (new_reader (of_nat (length v) # v @ rest)) = (v, new_reader rest)"
  by (simp add: vector8_def unat_of_nat)

lemma readUint16_enc_len [wire_simps]:
  "n \<le> 65535 \<Longrightarrow> readUint16 (new_reader (be_enc 2 n @ rest)) = (of_nat n, new_reader rest)"
  using readUint16_enc [of "of_nat n" rest] by (simp add: unat_of_nat del: be_enc.simps readUint16_enc)

lemma vector16_enc [simp, wire_simps]:
  "length v \<le> 65535 \<Longrightarrow> vector16 (new_reader (be_enc 2 (length v) @ v @ rest)) = (v, new_reader rest)"
  by (simp add: vector16_def readUint16_enc_len unat_of_nat del: be_enc.simps)

lemma vector24_enc [simp, wire_simps]:
  "length v \<le> 0xffffff \<Longrightarrow> vector24 (new_reader (be_enc 3 (length v) @ v @ rest)) = (v, new_reader rest)"
  by (simp add: vector24_def del: be_enc.simps)

lemma rd_done_new [simp, wire_simps]: "rd_done (new_reader d) = (if d = [] then None else Some errDecode)"
  by (simp add: rd_done_def new_reader_def)

subsection \<open>Errors stick, data only shrinks\<close>

text \<open>\<open>reads_within r r'\<close>: \<open>r'\<close> is what a reader method may leave behind.\<close>

definition reads_within :: "wireReader \<Rightarrow> wireReader \<Rightarrow> bool" where
  "reads_within r r' \<longleftrightarrow>
     (rd_err r \<noteq> None \<longrightarrow> rd_err r' \<noteq> None) \<and> (\<exists>pre. rd_data r = pre @ rd_data r')"

lemma reads_within_refl [intro, simp]: "reads_within r r"
  by (simp add: reads_within_def)

lemma reads_within_trans [trans]: "reads_within a b \<Longrightarrow> reads_within b c \<Longrightarrow> reads_within a c"
  by (auto simp: reads_within_def)

lemma rd_take_within: "reads_within r (snd (rd_take n r))"
  by (auto simp: reads_within_def rd_take_def intro: exI [of _ "take n (rd_data r)"] exI [of _ "[]"])

lemma readUint8_within: "reads_within r (snd (readUint8 r))"
  using rd_take_within [of r 1] by (simp add: readUint8_def case_prod_unfold Let_def)

lemma readUint16_within: "reads_within r (snd (readUint16 r))"
  using rd_take_within [of r 2] by (simp add: readUint16_def case_prod_unfold Let_def)

lemma uint24_within: "reads_within r (snd (uint24 r))"
  using rd_take_within [of r 3] by (simp add: uint24_def case_prod_unfold Let_def)

lemma vector8_within: "reads_within r (snd (vector8 r))"
  using reads_within_trans [OF readUint8_within rd_take_within] by (simp add: vector8_def case_prod_unfold Let_def)

lemma vector16_within: "reads_within r (snd (vector16 r))"
  using reads_within_trans [OF readUint16_within rd_take_within] by (simp add: vector16_def case_prod_unfold Let_def)

lemma vector24_within: "reads_within r (snd (vector24 r))"
  using reads_within_trans [OF uint24_within rd_take_within] by (simp add: vector24_def case_prod_unfold Let_def)

lemma reads_within_length: "reads_within r r' \<Longrightarrow> length (rd_data r') \<le> length (rd_data r)"
  by (auto simp: reads_within_def)

text \<open>A successful field read makes progress: the loops over lists of fields terminate.\<close>

lemma readUint8_progress:
  "rd_err (snd (readUint8 r)) = None \<Longrightarrow> length (rd_data (snd (readUint8 r))) < length (rd_data r)"
  by (auto simp: readUint8_def rd_take_def Let_def split: if_splits)

lemma readUint16_progress:
  "rd_err (snd (readUint16 r)) = None \<Longrightarrow> length (rd_data (snd (readUint16 r))) < length (rd_data r)"
  by (auto simp: readUint16_def rd_take_def Let_def split: if_splits)

subsection \<open>Writers\<close>

lemma write_ok [simp, wire_simps]:
  "wr_err (writeUint8 b w) = wr_err w" "wr_data (writeUint8 b w) = wr_data w @ [b]"
  "wr_err (writeUint16 x w) = wr_err w" "wr_data (writeUint16 x w) = wr_data w @ be_enc 2 (unat x)"
  "n \<le> 0xffffff \<Longrightarrow> wr_err (write_uint24 n w) = wr_err w"
  "n \<le> 0xffffff \<Longrightarrow> wr_data (write_uint24 n w) = wr_data w @ be_enc 3 n"
  "length v \<le> 255 \<Longrightarrow> wr_err (write_vector8 v w) = wr_err w"
  "length v \<le> 255 \<Longrightarrow> wr_data (write_vector8 v w) = wr_data w @ of_nat (length v) # v"
  "length v \<le> 65535 \<Longrightarrow> wr_err (write_vector16 v w) = wr_err w"
  "length v \<le> 65535 \<Longrightarrow> wr_data (write_vector16 v w) = wr_data w @ be_enc 2 (length v) @ v"
  "length v \<le> 0xffffff \<Longrightarrow> wr_err (write_vector24 v w) = wr_err w"
  "length v \<le> 0xffffff \<Longrightarrow> wr_data (write_vector24 v w) = wr_data w @ be_enc 3 (length v) @ v"
  by (simp_all add: writeUint8_def writeUint16_def write_uint24_def write_vector8_def
      write_vector16_def write_vector24_def Let_def unat_of_nat del: be_enc.simps)

lemma new_writer_simps [simp, wire_simps]: "wr_data new_writer = []" "wr_err new_writer = None"
  by (simp_all add: new_writer_def)

lemma wr_result_ok [simp, wire_simps]: "wr_err w = None \<Longrightarrow> wr_result w = Inr (wr_data w)"
  by (simp add: wr_result_def)

text \<open>An oversized vector poisons the writer, and nothing clears the error.\<close>

lemma write_err_sticks:
  "wr_err w \<noteq> None \<Longrightarrow> wr_err (writeUint8 b w) \<noteq> None"
  "wr_err w \<noteq> None \<Longrightarrow> wr_err (writeUint16 v w) \<noteq> None"
  "wr_err w \<noteq> None \<Longrightarrow> wr_err (write_uint24 n w) \<noteq> None"
  "wr_err w \<noteq> None \<Longrightarrow> wr_err (write_vector8 vs w) \<noteq> None"
  "wr_err w \<noteq> None \<Longrightarrow> wr_err (write_vector16 vs w) \<noteq> None"
  "wr_err w \<noteq> None \<Longrightarrow> wr_err (write_vector24 vs w) \<noteq> None"
  by (simp_all add: writeUint8_def writeUint16_def write_uint24_def write_vector8_def
      write_vector16_def write_vector24_def Let_def)

lemma write_oversized:
  "255 < length v \<Longrightarrow> wr_err (write_vector8 v w) = Some errDecode"
  "65535 < length v \<Longrightarrow> wr_err (write_vector16 v w) = Some errDecode"
  "0xffffff < length v \<Longrightarrow> wr_err (write_vector24 v w) = Some errDecode"
  by (simp_all add: write_vector8_def write_vector16_def write_vector24_def)

end
