(* ===== verification/DtlsRecord.thy ===== *)
theory DtlsRecord
  imports Wire
begin

unbundle bit_operations_syntax

text \<open>
  The record layer of \<open>internal/dtls13\<close>: \<open>record.go\<close> (parsing and encoding of plain and
  protected records, reconstruction of truncated sequence numbers, the replay window) and the
  per-record part of \<open>protection.go\<close> (nonce, sequence-number mask, seal and open).

  The AEAD and the two sequence-number ciphers are packages outside the repository: they are
  fields of \<open>trafficKeys\<close>, and \<open>keys_ok\<close> states what their documentation promises.  A
  receiver buffer that Go reuses between calls (\<open>nonceBuffer\<close>, \<open>maskBuffer\<close>, \<open>headerBuffer\<close>)
  holds no information across calls and is a local value here.
\<close>

definition contentAlert :: byte where "contentAlert = 21"
definition contentHandshake :: byte where "contentHandshake = 22"
definition contentData :: byte where "contentData = 23"
definition contentACK :: byte where "contentACK = 26"
definition contentRRC :: byte where "contentRRC = 27"

definition maxContent :: nat where "maxContent = 16384"
definition maxCiphertext :: nat where "maxCiphertext = maxContent + 256"
definition plainHeader :: nat where "plainHeader = 13"
definition maxCIDLen :: nat where "maxCIDLen = 255"
definition unifiedSeqLen :: nat where "unifiedSeqLen = 2"
definition unifiedLengthLen :: nat where "unifiedLengthLen = 2"
definition maxUnifiedHeader :: nat where
  "maxUnifiedHeader = 1 + maxCIDLen + unifiedSeqLen + unifiedLengthLen"
definition seqNumMaskLen :: nat where "seqNumMaskLen = 16"

lemmas record_consts =
  contentAlert_def contentHandshake_def contentData_def contentACK_def contentRRC_def
  maxContent_def maxCiphertext_def plainHeader_def maxCIDLen_def unifiedSeqLen_def
  unifiedLengthLen_def maxUnifiedHeader_def seqNumMaskLen_def

record recordNumber =
  epoch :: u64
  sequence :: u64

record dtls_record =
  rec_header :: "byte list"
  rec_body :: "byte list"
  rec_cid :: "byte list"
  rec_number :: recordNumber
  rec_typ :: byte
  rec_encrypted :: bool
  rec_seqOffset :: nat
  rec_seqLen :: nat

text \<open>The byte loops \<open>s = s << 8 | b\<close> of the source.\<close>

definition shift_in :: "u64 \<Rightarrow> byte list \<Rightarrow> u64" where
  "shift_in s bs = foldl (\<lambda>s b. push_bit 8 s OR ucast b) s bs"

subsection \<open>Parsing\<close>

definition parse_unified :: "byte list \<Rightarrow> int \<Rightarrow> dtls_error + dtls_record \<times> byte list" where
  "parse_unified datagram cidLen =
     (let first = datagram ! 0; hasCID = first AND 0x10 \<noteq> 0 in
      if hasCID \<and> (cidLen = 0 \<or> length datagram < 1 + nat cidLen) then Inl errRecord
      else
        let cid = (if hasCID then segment datagram 1 (1 + nat cidLen) else []);
            seqOffset = (if hasCID then 1 + nat cidLen else 1);
            seqLen = (if first AND 0x08 \<noteq> 0 then unifiedSeqLen else 1);
            hasLen = first AND 0x04 \<noteq> 0;
            headerLen = seqOffset + seqLen + (if hasLen then unifiedLengthLen else 0)
        in if length datagram < headerLen then Inl errRecord
           else
             let bodyLen = (if hasLen then be_dec (segment datagram (headerLen - unifiedLengthLen) headerLen)
                            else length datagram - headerLen)
             in if bodyLen < seqNumMaskLen \<or> length datagram - headerLen < bodyLen then Inl errRecord
                else if maxCiphertext < bodyLen then Inl errRecordOverflow
                else Inr (\<lparr>rec_header = take headerLen datagram,
                           rec_body = segment datagram headerLen (headerLen + bodyLen),
                           rec_cid = cid,
                           rec_number = \<lparr>epoch = ucast (first AND 3), sequence = 0\<rparr>,
                           rec_typ = first, rec_encrypted = True,
                           rec_seqOffset = seqOffset, rec_seqLen = seqLen\<rparr>,
                          drop (headerLen + bodyLen) datagram))"

definition parse_plain :: "byte list \<Rightarrow> dtls_error + dtls_record \<times> byte list" where
  "parse_plain datagram =
     (let first = datagram ! 0 in
      if first \<noteq> contentAlert \<and> first \<noteq> contentHandshake \<and> first \<noteq> contentACK then Inl errRecord
      else if length datagram < plainHeader then Inl errRecord
      else if be_dec (segment datagram 3 5) \<noteq> 0 then Inl errRecord
      else
        let n = be_dec (segment datagram 11 13) in
        if length datagram - plainHeader < n then Inl errRecord
        else if maxContent < n then Inl errRecordOverflow
        else Inr (\<lparr>rec_header = take plainHeader datagram,
                   rec_body = segment datagram plainHeader (plainHeader + n),
                   rec_cid = [],
                   rec_number = \<lparr>epoch = 0, sequence = shift_in 0 (segment datagram 5 11)\<rparr>,
                   rec_typ = first, rec_encrypted = False, rec_seqOffset = 0, rec_seqLen = 0\<rparr>,
                  drop (plainHeader + n) datagram))"

definition parseRecord :: "byte list \<Rightarrow> int \<Rightarrow> dtls_error + dtls_record \<times> byte list" where
  "parseRecord datagram cidLen =
     (if length datagram = 0 \<or> cidLen < 0 \<or> int maxCIDLen < cidLen then Inl errRecord
      else if datagram ! 0 AND 0xe0 = 0x20 then parse_unified datagram cidLen
      else parse_plain datagram)"

definition encodePlainRecord :: "byte \<Rightarrow> u64 \<Rightarrow> byte list \<Rightarrow> dtls_error + byte list" where
  "encodePlainRecord typ seqn content =
     (if 2 ^ 48 \<le> seqn then Inl errSequence
      else if typ \<noteq> contentHandshake \<and> typ \<noteq> contentAlert \<and> typ \<noteq> contentACK then Inl errRecord
      else if maxContent < length content then Inl errRecordOverflow
      else Inr ([typ, 0xfe, 0xfd] @ [0, 0] @ be_enc 6 (unat seqn) @ be_enc 2 (length content) @ content))"

subsection \<open>Protection\<close>

text \<open>\<open>SnBlock\<close> carries the block cipher's \<open>Encrypt\<close>; \<open>SnChaCha\<close> the constructor of a ChaCha20
  stream for a nonce, which may refuse, and then maps a block counter and a text to the text
  combined with the key stream.\<close>

datatype sn_key =
    SnBlock "byte list \<Rightarrow> byte list"
  | SnChaCha "byte list \<Rightarrow> (u32 \<Rightarrow> byte list \<Rightarrow> byte list) option"
  | SnOther

record trafficKeys =
  aead_Seal :: "byte list \<Rightarrow> byte list \<Rightarrow> byte list \<Rightarrow> byte list"
  aead_Open :: "byte list \<Rightarrow> byte list \<Rightarrow> byte list \<Rightarrow> byte list option"
  aead_Overhead :: nat
  tk_sn :: sn_key
  recordLimit :: u64
  tk_iv :: "byte list"

definition tk_nonce :: "trafficKeys \<Rightarrow> u64 \<Rightarrow> byte list" where
  "tk_nonce k seqn =
     (let val = of_nat (be_dec (drop 4 (tk_iv k))) XOR seqn in take 4 (tk_iv k) @ be_enc 8 (unat val))"

definition tk_mask :: "trafficKeys \<Rightarrow> byte list \<Rightarrow> dtls_error + byte list" where
  "tk_mask k ciphertext =
     (if length ciphertext < seqNumMaskLen then Inl errAuthentication
      else case tk_sn k of
        SnBlock encrypt \<Rightarrow> Inr (encrypt (take seqNumMaskLen ciphertext))
      | SnChaCha newCipher \<Rightarrow>
          (let sample = take seqNumMaskLen ciphertext in
           case newCipher (drop 4 sample) of
             None \<Rightarrow> Inl errCipher
           | Some stream \<Rightarrow>
               Inr (stream (of_nat (be_dec (rev (take 4 sample)))) (replicate seqNumMaskLen 0)))
      | SnOther \<Rightarrow> Inl errCipherSuite)"

definition tk_seal :: "trafficKeys \<Rightarrow> byte list \<Rightarrow> u64 \<Rightarrow> byte list \<Rightarrow> byte list" where
  "tk_seal k header seqn plaintext = aead_Seal k (tk_nonce k seqn) plaintext header"

definition tk_open :: "trafficKeys \<Rightarrow> byte list \<Rightarrow> u64 \<Rightarrow> byte list \<Rightarrow> dtls_error + byte list" where
  "tk_open k header seqn ciphertext =
     (if length ciphertext < aead_Overhead k then Inl errAuthentication
      else case aead_Open k (tk_nonce k seqn) ciphertext header of
        None \<Rightarrow> Inl errAuthentication
      | Some plaintext \<Rightarrow> Inr plaintext)"

text \<open>The loops that combine the mask with the sequence number of a header in place.\<close>

definition xor_mask :: "byte list \<Rightarrow> nat \<Rightarrow> byte list \<Rightarrow> nat \<Rightarrow> byte list" where
  "xor_mask header off msk n = foldl (\<lambda>h i. h[off + i := h ! (off + i) XOR msk ! i]) header [0..<n]"

definition validContentType :: "byte \<Rightarrow> bool" where
  "validContentType typ \<longleftrightarrow>
     typ = contentAlert \<or> typ = contentHandshake \<or> typ = contentData \<or> typ = contentACK \<or> typ = contentRRC"

text \<open>\<open>Seal\<close> writes its output over the plaintext, in the rest of the packet: the packet is the
  header followed by that output.\<close>

definition encodeRecord ::
  "trafficKeys \<Rightarrow> recordNumber \<Rightarrow> byte list \<Rightarrow> byte \<Rightarrow> byte list \<Rightarrow> int \<Rightarrow> dtls_error + byte list" where
  "encodeRecord k number cid typ content padding =
     (if epoch number < 2 \<or> maxCIDLen < length cid \<or> \<not> validContentType typ then Inl errRecord
      else if maxContent < length content \<or> padding < 0 \<or> int (maxContent - length content) < padding
      then Inl errRecordOverflow
      else
        let first = (0x2c OR ucast (epoch number AND 3)) OR (if length cid \<noteq> 0 then 0x10 else 0);
            seqOffset = 1 + length cid;
            innerLen = length content + 1 + nat padding;
            protectedLen = innerLen + aead_Overhead k
        in if maxCiphertext < protectedLen then Inl errRecordOverflow
           else
             let header = first # cid @ be_enc 2 (unat (sequence number AND 0xffff)) @ be_enc 2 protectedLen;
                 inner = content @ typ # replicate (nat padding) 0;
                 sealed = tk_seal k header (sequence number) inner
             in bind_ok (tk_mask k sealed)
                  (\<lambda>msk. Inr (xor_mask (header @ sealed) seqOffset msk unifiedSeqLen)))"

subsection \<open>Sequence numbers\<close>

definition reconstructSequence :: "u64 \<Rightarrow> nat \<Rightarrow> u64 \<Rightarrow> u64" where
  "reconstructSequence truncated sz expected =
     (let window = push_bit (8 * sz) 1; half = window div 2;
          candidate = (expected AND NOT (window - 1)) OR truncated
      in if candidate \<le> expected \<and> half \<le> expected - candidate \<and> candidate \<le> - 1 - window
         then candidate + window
         else if expected < candidate \<and> half < candidate - expected \<and> window \<le> candidate
         then candidate - window
         else candidate)"

record replayWindow =
  highest :: u64
  bits :: u64

definition rw_next :: "replayWindow \<Rightarrow> u64" where
  "rw_next w = (if bits w = 0 then 0 else if highest w = - 1 then - 1 else highest w + 1)"

definition rw_accept :: "replayWindow \<Rightarrow> u64 \<Rightarrow> bool \<times> replayWindow" where
  "rw_accept w s =
     (if bits w = 0 then (True, \<lparr>highest = s, bits = 1\<rparr>)
      else if highest w < s
      then (True, \<lparr>highest = s, bits = push_bit (unat (s - highest w)) (bits w) OR 1\<rparr>)
      else
        let distance = highest w - s in
        if 64 \<le> distance \<or> bits w AND push_bit (unat distance) 1 \<noteq> 0 then (False, w)
        else (True, w\<lparr>bits := bits w OR push_bit (unat distance) 1\<rparr>))"

text \<open>\<open>inner_end inner n\<close> is one more than the index of the last non-zero byte before \<open>n\<close>, or 0:
  the loop of \<open>decodeRecord\<close> over the padding.\<close>

fun inner_end :: "byte list \<Rightarrow> nat \<Rightarrow> nat" where
  "inner_end inner 0 = 0"
| "inner_end inner (Suc n) = (if inner ! n = 0 then inner_end inner n else Suc n)"

definition decodeRecord ::
  "trafficKeys \<Rightarrow> dtls_record \<Rightarrow> u64 \<Rightarrow> byte list \<Rightarrow> replayWindow \<Rightarrow>
   (dtls_error + recordNumber \<times> byte \<times> byte list) \<times> replayWindow" where
  "decodeRecord k r ep cid window =
     (if \<not> rec_encrypted r \<or> epoch (rec_number r) \<noteq> ep AND 3 \<or> (length (rec_cid r) \<noteq> 0 \<and> cid \<noteq> rec_cid r)
      then (Inl errAuthentication, window)
      else case tk_mask k (rec_body r) of
        Inl e \<Rightarrow> (Inl e, window)
      | Inr msk \<Rightarrow>
          if maxUnifiedHeader < length (rec_header r) then (Inl errRecord, window)
          else
            let header = xor_mask (rec_header r) (rec_seqOffset r) msk (rec_seqLen r);
                truncated = shift_in 0 (segment header (rec_seqOffset r) (rec_seqOffset r + rec_seqLen r));
                seqn = reconstructSequence truncated (rec_seqLen r) (rw_next window)
            in case tk_open k header seqn (rec_body r) of
                 Inl e \<Rightarrow> (Inl e, window)
               | Inr inner \<Rightarrow>
                   if maxContent + 1 < length inner then (Inl errRecordOverflow, window)
                   else
                     let n = inner_end inner (length inner) in
                     if n = 0 \<or> \<not> validContentType (inner ! (n - 1)) then (Inl errRecord, window)
                     else
                       let (ok, window') = rw_accept window seqn in
                       if \<not> ok then (Inl errReplay, window')
                       else (Inr (\<lparr>epoch = ep, sequence = seqn\<rparr>, inner ! (n - 1), take (n - 1) inner), window'))"

end
