(* ===== verification/Ack.thy ===== *)
theory Ack
  imports DtlsRecord
begin

text \<open>
  \<open>internal/dtls13/ack.go\<close>: the acknowledgement message.  \<open>slices.SortFunc\<close> is insertion with the
  source's comparison function, which fixes the result because two numbers that compare equal
  are the same number; \<open>slices.Compact\<close> is \<^const>\<open>remdups_adj\<close>.
\<close>

definition compareRecordNumber :: "recordNumber \<Rightarrow> recordNumber \<Rightarrow> int" where
  "compareRecordNumber a b =
     (if epoch a < epoch b \<or> (epoch a = epoch b \<and> sequence a < sequence b) then - 1
      else if a = b then 0 else 1)"

fun insert_by :: "('a \<Rightarrow> 'a \<Rightarrow> int) \<Rightarrow> 'a \<Rightarrow> 'a list \<Rightarrow> 'a list" where
  "insert_by cmp x [] = [x]"
| "insert_by cmp x (y # ys) = (if cmp x y \<le> 0 then x # y # ys else y # insert_by cmp x ys)"

fun SortFunc :: "('a \<Rightarrow> 'a \<Rightarrow> int) \<Rightarrow> 'a list \<Rightarrow> 'a list" where
  "SortFunc cmp [] = []"
| "SortFunc cmp (x # xs) = insert_by cmp x (SortFunc cmp xs)"

definition encode_number :: "recordNumber \<Rightarrow> byte list" where
  "encode_number r = be_enc 8 (unat (epoch r)) @ be_enc 8 (unat (sequence r))"

definition encodeACK :: "recordNumber list \<Rightarrow> dtls_error + byte list" where
  "encodeACK records =
     (if (maxContent - 2) div 16 < length records then Inl errACK
      else
        let rs = remdups_adj (SortFunc compareRecordNumber records); n = 16 * length rs in
        if maxContent - 2 < n then Inl errACK
        else Inr (be_enc 2 n @ concat (map encode_number rs)))"

function ack_loop :: "byte list \<Rightarrow> recordNumber list" where
  "ack_loop data =
     (if data = [] then []
      else \<lparr>epoch = of_nat (be_dec (take 8 data)), sequence = of_nat (be_dec (segment data 8 16))\<rparr>
           # ack_loop (drop 16 data))"
  by auto
termination by (relation "measure length") (auto simp: length_greater_0_conv)

declare ack_loop.simps [simp del]

definition parseACK :: "byte list \<Rightarrow> dtls_error + recordNumber list" where
  "parseACK data =
     (if length data < 2 \<or> maxContent < length data \<or> be_dec (take 2 data) \<noteq> length data - 2 \<or>
         (length data - 2) mod 16 \<noteq> 0
      then Inl errACK
      else Inr (ack_loop (drop 2 data)))"

subsection \<open>Order and encoding of record numbers\<close>

definition before :: "recordNumber \<Rightarrow> recordNumber \<Rightarrow> bool" where
  "before a b \<longleftrightarrow> compareRecordNumber a b = - 1"

lemma before_iff: "before a b \<longleftrightarrow> epoch a < epoch b \<or> (epoch a = epoch b \<and> sequence a < sequence b)"
  by (auto simp: before_def compareRecordNumber_def)

lemma compare_le_iff: "compareRecordNumber a b \<le> 0 \<longleftrightarrow> before a b \<or> a = b"
  by (auto simp: before_def compareRecordNumber_def split: if_splits)

lemma before_trans: "before a b \<Longrightarrow> before b c \<Longrightarrow> before a c"
  by (auto simp: before_iff)

lemma before_total: "before a b \<or> a = b \<or> before b a"
  by (cases a; cases b) (auto simp: before_iff)

lemma before_irrefl: "\<not> before a a"
  by (simp add: before_iff)

abbreviation sorted_numbers :: "recordNumber list \<Rightarrow> bool" where
  "sorted_numbers \<equiv> sorted_wrt (\<lambda>a b. before a b \<or> a = b)"

lemma insert_by_set [simp]: "set (insert_by cmp x xs) = insert x (set xs)"
  by (induction xs) auto

lemma insert_by_length [simp]: "length (insert_by cmp x xs) = Suc (length xs)"
  by (induction xs) auto

lemma SortFunc_set [simp]: "set (SortFunc cmp xs) = set xs"
  by (induction xs) auto

lemma SortFunc_length [simp]: "length (SortFunc cmp xs) = length xs"
  by (induction xs) auto

lemma insert_by_sorted: "sorted_numbers xs \<Longrightarrow> sorted_numbers (insert_by compareRecordNumber x xs)"
proof (induction xs)
  case (Cons y ys)
  show ?case
  proof (cases "compareRecordNumber x y \<le> 0")
    case True
    then show ?thesis using Cons.prems before_trans by (auto simp: compare_le_iff)
  next
    case False
    with before_total [of x y] have "before y x" by (auto simp: compare_le_iff)
    then show ?thesis using Cons False by auto
  qed
qed simp

lemma SortFunc_sorted: "sorted_numbers (SortFunc compareRecordNumber xs)"
  by (induction xs) (auto simp: insert_by_sorted)

lemma remdups_adj_strict: "sorted_numbers xs \<Longrightarrow> sorted_wrt before (remdups_adj xs)"
proof (induction xs rule: remdups_adj.induct)
  case (3 x y xs)
  show ?case
  proof (cases "x = y")
    case False
    have "before x z" if "z \<in> set (y # xs)" for z
      using 3(3) that False before_trans [of x y z] by auto
    then show ?thesis using 3 False by (auto simp: remdups_adj_set)
  qed (use 3 in auto)
qed auto

lemma strict_distinct: "sorted_wrt before xs \<Longrightarrow> distinct xs"
  by (induction xs) (auto simp: before_irrefl)

lemma length_encode_number [simp]: "length (encode_number r) = 16"
  by (simp add: encode_number_def)

lemma length_encode_numbers [simp]: "length (concat (map encode_number rs)) = 16 * length rs"
  by (induction rs) auto

lemma ack_loop_encode: "ack_loop (concat (map encode_number rs)) = rs"
proof (induction rs)
  case Nil
  then show ?case by (simp add: ack_loop.simps)
next
  case (Cons r rs)
  have lt: "unat x < 256 ^ 8" for x :: u64 using unsigned_less [of x, where ?'a = nat] by simp
  have "drop 16 (encode_number r @ concat (map encode_number rs)) = concat (map encode_number rs)" by simp
  moreover have "take 8 (encode_number r @ concat (map encode_number rs)) = be_enc 8 (unat (epoch r))"
    "segment (encode_number r @ concat (map encode_number rs)) 8 16 = be_enc 8 (unat (sequence r))"
    by (simp_all add: encode_number_def segment_def)
  moreover have "encode_number r \<noteq> []" by (metis length_encode_number list.size(3) zero_neq_numeral)
  ultimately show ?case
    using Cons be_dec_enc [OF lt] by (subst ack_loop.simps) simp
qed

subsection \<open>Properties\<close>

text \<open>C23: an acknowledgement lists exactly the records it was given.  Any list of at most 1023
  record numbers, repeated or in any order, is encoded; \<open>parseACK\<close> reads the encoding back as the same
  set, without repetition and in increasing order of epoch and sequence.\<close>

theorem ack_roundtrip:
  assumes "length records \<le> 1023"
  shows "\<exists>b rs. encodeACK records = Inr b \<and> parseACK b = Inr rs \<and>
           set rs = set records \<and> distinct rs \<and> sorted_wrt (\<lambda>x y. compareRecordNumber x y = - 1) rs"
proof -
  define rs where "rs = remdups_adj (SortFunc compareRecordNumber records)"
  have strict: "sorted_wrt before rs" unfolding rs_def by (rule remdups_adj_strict [OF SortFunc_sorted])
  have len: "length rs \<le> 1023"
    using assms remdups_adj_length [of "SortFunc compareRecordNumber records"] by (simp add: rs_def)
  have enc: "encodeACK records = Inr (be_enc 2 (16 * length rs) @ concat (map encode_number rs))"
    using assms len by (simp add: encodeACK_def rs_def [symmetric] maxContent_def Let_def)
  have "16 * length rs < 256 ^ 2" using len by simp
  then have "be_dec (be_enc 2 (16 * length rs)) = 16 * length rs" by (rule be_dec_enc)
  then have "parseACK (be_enc 2 (16 * length rs) @ concat (map encode_number rs)) = Inr rs"
    using len by (simp add: parseACK_def maxContent_def ack_loop_encode)
  moreover have "set rs = set records" by (simp add: rs_def)
  moreover have "sorted_wrt (\<lambda>x y. compareRecordNumber x y = - 1) rs"
    using strict by (simp add: before_def [abs_def])
  ultimately show ?thesis using enc strict strict_distinct by blast
qed

theorem ack_roundtrip_witness:
  "\<exists>b rs. encodeACK [\<lparr>epoch = 2, sequence = 5\<rparr>, \<lparr>epoch = 0, sequence = 1\<rparr>] = Inr b \<and> parseACK b = Inr rs \<and>
     set rs = {\<lparr>epoch = 2, sequence = 5\<rparr>, \<lparr>epoch = 0, sequence = 1\<rparr>}"
  using ack_roundtrip [of "[\<lparr>epoch = 2, sequence = 5\<rparr>, \<lparr>epoch = 0, sequence = 1\<rparr>]"] by auto

end
