(* ===== verification/Bitset.thy ===== *)
theory Bitset
  imports Prelude
begin

unbundle bit_operations_syntax

text \<open>
  The byte bitmaps that \<open>fragment.go\<close> and \<open>flight.go\<close> of \<open>internal/dtls13\<close> keep per handshake
  byte, behind the interface \<open>bitmap\<close>: a bit is set exactly when it was marked.  The clients'
  counting lemmas are proved once in the locale and used through its interpretation on the
  bitmaps of the source.
\<close>

definition has_bit :: "byte list \<Rightarrow> nat \<Rightarrow> bool" where
  "has_bit bs i \<longleftrightarrow> bs ! (i div 8) AND push_bit (i mod 8) 1 \<noteq> 0"

definition mark_bit :: "byte list \<Rightarrow> nat \<Rightarrow> byte list" where
  "mark_bit bs i = bs[i div 8 := bs ! (i div 8) OR push_bit (i mod 8) 1]"

definition bit_bytes :: "nat \<Rightarrow> nat" where
  "bit_bytes n = (n + 7) div 8"

locale bitmap =
  fixes has :: "'b \<Rightarrow> nat \<Rightarrow> bool" and mark :: "'b \<Rightarrow> nat \<Rightarrow> 'b" and cap :: "'b \<Rightarrow> nat"
  assumes has_mark: "i < cap b \<Longrightarrow> j < cap b \<Longrightarrow> has (mark b i) j \<longleftrightarrow> has b j \<or> i = j"
    and cap_mark: "cap (mark b i) = cap b"
begin

definition missing :: "'b \<Rightarrow> nat \<Rightarrow> nat set" where
  "missing b n = {i. i < n \<and> \<not> has b i}"

lemma finite_missing [simp]: "finite (missing b n)"
  by (simp add: missing_def)

lemma card_missing_mark:
  assumes "i < n" "n \<le> cap b" "\<not> has b i"
  shows "int (card (missing (mark b i) n)) = int (card (missing b n)) - 1"
proof -
  have "missing (mark b i) n = missing b n - {i}"
    using assms has_mark [of i b] by (auto simp: missing_def)
  moreover have "i \<in> missing b n" using assms by (simp add: missing_def)
  moreover from this have "0 < card (missing b n)" by (auto simp: card_gt_0_iff)
  ultimately show ?thesis by (simp add: card_Diff_singleton of_nat_diff Suc_leI)
qed

lemma card_missing_0: "int (card (missing b n)) = 0 \<longleftrightarrow> (\<forall>i < n. has b i)"
  by (auto simp: missing_def)

fun mark_range :: "'b \<Rightarrow> nat \<Rightarrow> nat \<Rightarrow> 'b" where
  "mark_range b s 0 = b"
| "mark_range b s (Suc n) = mark_range (mark b s) (Suc s) n"

lemma cap_mark_range [simp]: "cap (mark_range b s n) = cap b"
  by (induction b s n rule: mark_range.induct) (simp_all add: cap_mark)

lemma has_mark_range:
  "s + n \<le> cap b \<Longrightarrow> j < cap b \<Longrightarrow> has (mark_range b s n) j \<longleftrightarrow> has b j \<or> (s \<le> j \<and> j < s + n)"
  by (induction b s n rule: mark_range.induct) (auto simp: has_mark cap_mark)

end

lemma has_bit_bit: "has_bit bs i \<longleftrightarrow> bit (bs ! (i div 8)) (i mod 8)"
  by (simp add: has_bit_def and_exp_eq_0_iff_not_bit)

interpretation bytes: bitmap has_bit mark_bit "\<lambda>bs. 8 * length bs"
proof
  fix bs :: "byte list" and i j
  assume "i < 8 * length bs" "j < 8 * length bs"
  then have l: "i div 8 < length bs" "j div 8 < length bs" by simp_all
  show "has_bit (mark_bit bs i) j \<longleftrightarrow> has_bit bs j \<or> i = j"
  proof (cases "i div 8 = j div 8")
    case True
    have "i mod 8 = j mod 8 \<longleftrightarrow> i = j" using True by (metis div_mult_mod_eq)
    then show ?thesis
      using l True by (auto simp: has_bit_bit mark_bit_def bit_or_iff bit_exp_iff)
  next
    case False
    then show ?thesis using l by (auto simp: has_bit_bit mark_bit_def)
  qed
next
  fix bs :: "byte list" and i
  show "8 * length (mark_bit bs i) = 8 * length bs" by (simp add: mark_bit_def)
qed

lemma length_mark_bit [simp]: "length (mark_bit bs i) = length bs"
  by (simp add: mark_bit_def)

lemma has_bit_zero [simp]: "i < 8 * n \<Longrightarrow> \<not> has_bit (replicate n 0) i"
  by (simp add: has_bit_bit less_mult_imp_div_less mult.commute)

lemma bit_bytes_cap: "n \<le> 8 * bit_bytes n"
  by (simp add: bit_bytes_def)

lemma missing_zero [simp]: "bytes.missing (replicate (bit_bytes n) 0) n = {..<n}"
  using bit_bytes_cap [of n] by (auto simp: bytes.missing_def)

end
