(* ===== verification/Budget.thy ===== *)
theory Budget
  imports Prelude
begin

text \<open>
  \<open>internal/dtls13/budget.go\<close>: the memory budget that listeners share between handshakes.  The
  compare-and-swap loop of \<open>reserve\<close> has one effect, at the swap that succeeds; the model is that
  effect.  A nil budget is \<open>None\<close> and grants everything.  The counters are \<open>int64\<close> and far below
  overflow, so they are integers here.  A budget is a value held by the
  reassembler that charges it; what other connections charge beside it is not part of the model.  The locale \<open>account\<close> is what a client relies on.
\<close>

record memoryBudget =
  used :: int
  limit :: int

definition reserve :: "memoryBudget option \<Rightarrow> nat \<Rightarrow> bool \<times> memoryBudget option" where
  "reserve b sz =
     (case b of
        None \<Rightarrow> (True, None)
      | Some m \<Rightarrow> if limit m - used m < int sz then (False, Some m)
                  else (True, Some (m\<lparr>used := used m + int sz\<rparr>)))"

definition release :: "memoryBudget option \<Rightarrow> nat \<Rightarrow> memoryBudget option" where
  "release b sz = map_option (\<lambda>m. m\<lparr>used := used m - int sz\<rparr>) b"

locale account =
  fixes take_from :: "'b \<Rightarrow> nat \<Rightarrow> bool \<times> 'b" and give_back :: "'b \<Rightarrow> nat \<Rightarrow> 'b"
    and valid :: "'b \<Rightarrow> bool"
  assumes granted: "take_from b n = (True, b') \<Longrightarrow> give_back b' n = b \<and> (valid b \<longrightarrow> valid b')"
    and denied: "take_from b n = (False, b') \<Longrightarrow> b' = b"
    and back_commute: "give_back (give_back b m) n = give_back (give_back b n) m"
    and back_valid: "valid b \<Longrightarrow> valid (give_back b n)"
begin

definition give_all :: "'b \<Rightarrow> nat list \<Rightarrow> 'b" where
  "give_all b ns = foldl give_back b ns"

lemma give_all_simps [simp]:
  "give_all b [] = b" "give_all b (n # ns) = give_all (give_back b n) ns"
  "give_all b (ms @ ns) = give_all (give_all b ms) ns"
  by (simp_all add: give_all_def)

lemma give_all_back: "give_all (give_back b n) ns = give_back (give_all b ns) n"
  by (induction ns arbitrary: b) (simp_all add: back_commute)

lemma give_all_append: "give_all b (ms @ n # ns) = give_all (give_back b n) (ms @ ns)"
  by (simp add: give_all_back)

text \<open>Taking one more amount keeps the balance that is left after returning everything held.\<close>

lemma take_balance:
  "take_from b n = (True, b') \<Longrightarrow> give_all b' (ns @ [n]) = give_all b ns"
  using granted [of b n b'] by (simp add: give_all_back [symmetric])

end

definition within_limit :: "memoryBudget option \<Rightarrow> bool" where
  "within_limit b \<longleftrightarrow> (case b of None \<Rightarrow> True | Some m \<Rightarrow> used m \<le> limit m)"

interpretation shared: account reserve release within_limit
  by unfold_locales
     (auto simp: reserve_def release_def within_limit_def option.map_comp o_def algebra_simps
       split: option.splits if_splits)

end
