(* ===== verification/Fragment.thy ===== *)
theory Fragment
  imports Wire Bitset Budget "HOL-Library.AList"
begin

text \<open>
  \<open>internal/dtls13/fragment.go\<close>: handshake messages, their fragments on the wire, and the
  reassembler that accepts fragments in any order within fixed memory limits.  The map of pending
  messages is an association list with distinct keys; a nil map is the empty list.  A method that
  changes the reassembler returns it beside its results, on error paths too.
\<close>

definition handshakeHeader :: nat where "handshakeHeader = 12"
definition maxHandshakeBody :: nat where "maxHandshakeBody = 2 ^ 20"
definition maxPendingMessages :: nat where "maxPendingMessages = 16"

record handshakeMessage =
  msg_typ :: byte
  msg_sequence :: u16
  msg_epoch :: u64
  msg_body :: "byte list"

record handshakeFragment =
  frag_typ :: byte
  frag_sequence :: u16
  frag_total :: nat
  frag_offset :: nat
  frag_body :: "byte list"

definition transcript :: "handshakeMessage \<Rightarrow> dtls_error + byte list" where
  "transcript m =
     (if maxHandshakeBody < length (msg_body m) then Inl errHandshakeLimit
      else wr_result (write_vector24 (msg_body m) (writeUint8 (msg_typ m) new_writer)))"

definition fragment :: "handshakeMessage \<Rightarrow> int \<Rightarrow> int \<Rightarrow> dtls_error + byte list" where
  "fragment m offset len =
     (let n = int (length (msg_body m)) in
      if int maxHandshakeBody < n then Inl errHandshakeLimit
      else if offset < 0 \<or> n < offset \<or> len < 0 \<or> n - offset < len then Inl errDecode
      else
        wr_result
          (write_vector24 (segment (msg_body m) (nat offset) (nat (offset + len)))
          (write_uint24 (nat offset)
          (writeUint16 (msg_sequence m)
          (write_uint24 (length (msg_body m))
          (writeUint8 (msg_typ m) new_writer))))))"

definition parseFragment :: "byte list \<Rightarrow> dtls_error + handshakeFragment \<times> byte list" where
  "parseFragment data =
     (let (t, r1) = readUint8 (new_reader data);
          (total, r2) = uint24 r1;
          (seqn, r3) = readUint16 r2;
          (offset, r4) = uint24 r3;
          (body, r5) = vector24 r4
      in if rd_err r5 \<noteq> None \<or> total < offset \<or> total - offset < length body then Inl errDecode
         else Inr (\<lparr>frag_typ = t, frag_sequence = seqn, frag_total = total, frag_offset = offset,
                    frag_body = body\<rparr>, rd_data r5))"

record partialHandshake =
  part_message :: handshakeMessage
  seen :: "byte list"
  remaining :: int

record reassembler =
  next_seq :: u32
  pending :: "(u16 \<times> partialHandshake) list"
  buffered :: int
  budget :: "memoryBudget option"

definition fragmentCost :: "nat \<Rightarrow> nat" where
  "fragmentCost sz = sz + (sz + 7) div 8 + 128"

text \<open>The byte loop of \<open>insert\<close>: \<open>False\<close> reports a conflict, at which the source stops.\<close>

fun fill :: "partialHandshake \<Rightarrow> nat \<Rightarrow> byte list \<Rightarrow> bool \<times> partialHandshake" where
  "fill p position [] = (True, p)"
| "fill p position (b # bs) =
     (if has_bit (seen p) position then
        (if msg_body (part_message p) ! position \<noteq> b then (False, p) else fill p (Suc position) bs)
      else
        fill (p\<lparr>seen := mark_bit (seen p) position,
                part_message := (part_message p)\<lparr>msg_body := (msg_body (part_message p))[position := b]\<rparr>,
                remaining := remaining p - 1\<rparr>) (Suc position) bs)"

definition new_partial :: "handshakeFragment \<Rightarrow> u64 \<Rightarrow> partialHandshake" where
  "new_partial f ep =
     \<lparr>part_message = \<lparr>msg_typ = frag_typ f, msg_sequence = frag_sequence f, msg_epoch = ep,
                      msg_body = replicate (frag_total f) 0\<rparr>,
      seen = replicate (bit_bytes (frag_total f)) 0, remaining = int (frag_total f)\<rparr>"

text \<open>The entry a fragment belongs to, created when there is none; \<open>None\<close> discards the fragment.\<close>

definition open_partial ::
  "reassembler \<Rightarrow> handshakeFragment \<Rightarrow> u64 \<Rightarrow> (partialHandshake \<times> reassembler) option" where
  "open_partial r f ep =
     (case map_of (pending r) (frag_sequence f) of
        Some p \<Rightarrow> Some (p, r)
      | None \<Rightarrow>
          let futureBytes = (case map_of (pending r) (ucast (next_seq r)) of
                               Some n \<Rightarrow> buffered r - int (length (msg_body (part_message n)))
                             | None \<Rightarrow> buffered r)
          in if ucast (frag_sequence f) \<noteq> next_seq r \<and> int maxHandshakeBody < futureBytes + int (frag_total f)
             then None
             else
               let (ok, budget') = reserve (budget r) (fragmentCost (frag_total f)) in
               if \<not> ok then None
               else
                 let p = new_partial f ep in
                 Some (p, r\<lparr>budget := budget', pending := AList.update (frag_sequence f) p (pending r),
                            buffered := buffered r + int (frag_total f)\<rparr>))"

definition insert_frag ::
  "reassembler \<Rightarrow> handshakeFragment \<Rightarrow> u64 \<Rightarrow> (dtls_error + bool) \<times> reassembler" where
  "insert_frag r f ep =
     (if ucast (frag_sequence f) < next_seq r then (Inr True, r)
      else if of_nat maxPendingMessages \<le> ucast (frag_sequence f) - next_seq r then (Inr False, r)
      else if maxHandshakeBody < frag_total f then (Inl errHandshakeLimit, r)
      else case open_partial r f ep of
        None \<Rightarrow> (Inr False, r)
      | Some (p, r') \<Rightarrow>
          if msg_typ (part_message p) \<noteq> frag_typ f \<or> msg_epoch (part_message p) \<noteq> ep \<or>
             length (msg_body (part_message p)) \<noteq> frag_total f
          then (Inl errFragmentConflict, r')
          else
            let (ok, p') = fill p (frag_offset f) (frag_body f);
                r'' = r'\<lparr>pending := AList.update (frag_sequence f) p' (pending r')\<rparr>
            in (if ok then Inr True else Inl errFragmentConflict, r''))"

definition pop :: "reassembler \<Rightarrow> handshakeMessage option \<times> reassembler" where
  "pop r =
     (if 65535 < next_seq r then (None, r)
      else case map_of (pending r) (ucast (next_seq r)) of
        None \<Rightarrow> (None, r)
      | Some p \<Rightarrow>
          if remaining p \<noteq> 0 then (None, r)
          else (Some (part_message p),
                r\<lparr>pending := AList.delete (ucast (next_seq r)) (pending r), next_seq := next_seq r + 1,
                  buffered := buffered r - int (length (msg_body (part_message p))),
                  budget := release (budget r) (fragmentCost (length (msg_body (part_message p))))\<rparr>))"

function prefix_from :: "partialHandshake \<Rightarrow> nat \<Rightarrow> nat" where
  "prefix_from p n =
     (if n < length (msg_body (part_message p)) \<and> has_bit (seen p) n then prefix_from p (Suc n) else n)"
  by auto
termination by (relation "measure (\<lambda>(p, n). length (msg_body (part_message p)) - n)") auto

declare prefix_from.simps [simp del]

definition prefixLength :: "partialHandshake \<Rightarrow> nat" where
  "prefixLength p = prefix_from p 0"

definition disrupted :: "reassembler \<Rightarrow> bool" where
  "disrupted r =
     (if 1 < length (pending r) then True
      else if length (pending r) = 0 then False
      else case map_of (pending r) (ucast (next_seq r)) of
        None \<Rightarrow> True
      | Some p \<Rightarrow> int (prefixLength p) < int (length (msg_body (part_message p))) - remaining p)"

definition reset :: "reassembler \<Rightarrow> reassembler" where
  "reset r =
     r\<lparr>budget := foldl (\<lambda>b (k, p). release b (fragmentCost (length (msg_body (part_message p))))) (budget r) (pending r),
       pending := [], buffered := 0\<rparr>"

subsection \<open>The wire format of a fragment\<close>

lemma parseFragment_shorter:
  assumes "parseFragment data = Inr (f, rest)"
  shows "length rest < length data"
proof -
  define r1 where "r1 = readUint8 (new_reader data)"
  define r2 where "r2 = uint24 (snd r1)"
  define r3 where "r3 = readUint16 (snd r2)"
  define r4 where "r4 = uint24 (snd r3)"
  define r5 where "r5 = vector24 (snd r4)"
  have w: "reads_within (snd r1) (snd r5)"
    unfolding r5_def r4_def r3_def r2_def
    by (meson reads_within_trans uint24_within readUint16_within vector24_within)
  from assms have "rd_err (snd r5) = None" "rest = rd_data (snd r5)"
    by (auto simp: parseFragment_def r1_def r2_def r3_def r4_def r5_def Let_def case_prod_unfold
        split: if_splits)
  moreover from this w have "rd_err (snd r1) = None" by (auto simp: reads_within_def)
  ultimately show ?thesis
    using readUint8_progress [of "new_reader data"] reads_within_length [OF w]
    by (simp add: r1_def new_reader_def)
qed

function add_loop :: "reassembler \<Rightarrow> byte list \<Rightarrow> u64 \<Rightarrow> bool \<Rightarrow> (dtls_error + bool) \<times> reassembler" where
  "add_loop r data ep accepted =
     (if data = [] then (Inr accepted, r)
      else case parseFragment data of
        Inl e \<Rightarrow> (Inl e, r)
      | Inr (f, rest) \<Rightarrow>
          (case insert_frag r f ep of
             (Inl e, r') \<Rightarrow> (Inl e, r')
           | (Inr ok, r') \<Rightarrow> add_loop r' rest ep (accepted \<and> ok)))"
  by pat_completeness auto
termination
  by (relation "measure (\<lambda>(r, data, ep, accepted). length data)") (auto simp: parseFragment_shorter)

declare add_loop.simps [simp del]

definition add :: "reassembler \<Rightarrow> byte list \<Rightarrow> u64 \<Rightarrow> (dtls_error + bool) \<times> reassembler" where
  "add r data ep = (if data = [] then (Inl errDecode, r) else add_loop r data ep True)"

text \<open>What a fragment of \<open>m\<close> at an offset and of a length looks like after parsing.\<close>

definition part_of :: "handshakeMessage \<Rightarrow> nat \<Rightarrow> nat \<Rightarrow> handshakeFragment" where
  "part_of m off len =
     \<lparr>frag_typ = msg_typ m, frag_sequence = msg_sequence m, frag_total = length (msg_body m),
      frag_offset = off, frag_body = segment (msg_body m) off (off + len)\<rparr>"

lemma fragment_parse:
  assumes "fragment m off len = Inr b"
  shows "parseFragment (b @ rest) = Inr (part_of m (nat off) (nat len), rest)"
    and "0 \<le> off" "0 \<le> len" "nat off + nat len \<le> length (msg_body m)" "b \<noteq> []"
proof -
  from assms have c: "0 \<le> off" "0 \<le> len" "off + len \<le> int (length (msg_body m))"
    "length (msg_body m) \<le> maxHandshakeBody"
    by (auto simp: fragment_def Let_def split: if_splits)
  define s where "s = segment (msg_body m) (nat off) (nat off + nat len)"
  have sum: "nat off + nat len \<le> length (msg_body m)" using c by linarith
  then have ls: "length s = nat len" by (simp add: s_def segment_def)
  have le: "length (msg_body m) \<le> 0xffffff" "nat off \<le> 0xffffff" "length s \<le> 0xffffff"
    "nat off \<le> length (msg_body m)" "length s \<le> length (msg_body m) - nat off"
    using c ls by (auto simp: maxHandshakeBody_def)
  have "nat (off + len) = nat off + nat len" using c by simp
  with assms c le have b: "b = msg_typ m # be_enc 3 (length (msg_body m)) @ be_enc 2 (unat (msg_sequence m)) @
      be_enc 3 (nat off) @ be_enc 3 (length s) @ s"
    by (simp add: fragment_def Let_def s_def del: be_enc.simps)
  then show "parseFragment (b @ rest) = Inr (part_of m (nat off) (nat len), rest)"
    using le by (simp add: parseFragment_def part_of_def s_def [symmetric] del: be_enc.simps)
  show "0 \<le> off" "0 \<le> len" "nat off + nat len \<le> length (msg_body m)" "b \<noteq> []" using c b by auto
qed

end
