(* ===== verification/FragmentLemmas.thy ===== *)
theory FragmentLemmas
  imports Fragment
begin

text \<open>
  Lemmas on the reassembler: filling bytes keeps the bitmap and the count of missing bytes in
  step, the invariant \<open>reasm_ok\<close> bounds what is buffered, and every operation keeps it and the
  \<open>settled\<close> budget.  \<open>agrees\<close> relates a partial message to the message it is a part of.
\<close>

subsection \<open>Association lists of pending messages\<close>

lemma alist_update_absent: "k \<notin> fst ` set al \<Longrightarrow> AList.update k v al = al @ [(k, v)]"
  by (induction al) auto

lemma alist_update_map:
  "map_of al k = Some v \<Longrightarrow> (g k w :: 'c) = g k v \<Longrightarrow> map (\<lambda>(k, v). g k v) (AList.update k w al) = map (\<lambda>(k, v). g k v) al"
  by (induction al) auto

lemma alist_update_entries: "(j, x) \<in> set (AList.update k v al) \<Longrightarrow> (j, x) = (k, v) \<or> (j, x) \<in> set al"
  by (induction al) (auto split: if_splits)

lemma alist_delete_sum:
  fixes g :: "'k \<Rightarrow> 'v \<Rightarrow> nat"
  shows "map_of al k = Some v \<Longrightarrow> distinct (map fst al) \<Longrightarrow>
   (\<Sum>(k, v) \<leftarrow> al. g k v) = g k v + (\<Sum>(k, v) \<leftarrow> AList.delete k al. g k v)"
  by (induction al) (auto simp: delete_id split: if_splits)

lemma alist_le_sum:
  fixes g :: "'k \<Rightarrow> 'v \<Rightarrow> nat"
  shows "map_of al k = Some v \<Longrightarrow> g k v \<le> (\<Sum>(k, v) \<leftarrow> al. g k v)"
  by (induction al) (auto split: if_splits)

subsection \<open>One message\<close>

abbreviation plen :: "partialHandshake \<Rightarrow> nat" where
  "plen p \<equiv> length (msg_body (part_message p))"

definition partial_ok :: "partialHandshake \<Rightarrow> bool" where
  "partial_ok p \<longleftrightarrow> length (seen p) = bit_bytes (plen p) \<and>
     remaining p = int (card (bytes.missing (seen p) (plen p)))"

text \<open>\<open>agrees m p\<close>: the bytes collected so far are those of \<open>m\<close>.\<close>

definition agrees :: "handshakeMessage \<Rightarrow> partialHandshake \<Rightarrow> bool" where
  "agrees m p \<longleftrightarrow> msg_typ (part_message p) = msg_typ m \<and> msg_sequence (part_message p) = msg_sequence m \<and>
     msg_epoch (part_message p) = msg_epoch m \<and> plen p = length (msg_body m) \<and>
     (\<forall>i < plen p. has_bit (seen p) i \<longrightarrow> msg_body (part_message p) ! i = msg_body m ! i)"

lemma new_partial_ok [simp]: "partial_ok (new_partial f ep)"
  by (simp add: partial_ok_def new_partial_def)

lemma fill_step_ok:
  assumes "partial_ok p" "i < plen p" "\<not> has_bit (seen p) i"
  shows "partial_ok (p\<lparr>seen := mark_bit (seen p) i,
           part_message := (part_message p)\<lparr>msg_body := (msg_body (part_message p))[i := b]\<rparr>,
           remaining := remaining p - 1\<rparr>)"
  using assms bit_bytes_cap [of "plen p"] bytes.card_missing_mark [of i "plen p" "seen p"]
  by (simp add: partial_ok_def)

lemma fill_ok:
  assumes "partial_ok p" "pos + length bs \<le> plen p"
  shows "partial_ok (snd (fill p pos bs)) \<and> plen (snd (fill p pos bs)) = plen p \<and>
    msg_sequence (part_message (snd (fill p pos bs))) = msg_sequence (part_message p)"
  using assms
proof (induction p pos bs rule: fill.induct)
  case (2 p pos b bs)
  show ?case
  proof (cases "has_bit (seen p) pos")
    case True
    then show ?thesis using 2 by auto
  next
    case False
    then show ?thesis using 2(2) [OF False] 2(3,4) fill_step_ok [OF 2(3) _ False] by simp
  qed
qed simp

lemma fill_agrees:
  assumes "partial_ok p" "pos + length bs \<le> plen p" "agrees m p"
    "\<forall>i < length bs. bs ! i = msg_body m ! (pos + i)"
  shows "fst (fill p pos bs) \<and> agrees m (snd (fill p pos bs)) \<and>
    (\<forall>j < plen p. has_bit (seen (snd (fill p pos bs))) j \<longleftrightarrow> has_bit (seen p) j \<or> (pos \<le> j \<and> j < pos + length bs))"
  using assms
proof (induction p pos bs rule: fill.induct)
  case (2 p pos b bs)
  have b: "b = msg_body m ! pos" and bs: "\<forall>i < length bs. bs ! i = msg_body m ! (Suc pos + i)"
    using 2(6) by (auto dest: spec [of _ 0] spec [of _ "Suc _"])
  have pos: "pos < plen p" using 2(4) by simp
  show ?case
  proof (cases "has_bit (seen p) pos")
    case True
    then have "msg_body (part_message p) ! pos = b" using 2(5) pos b by (simp add: agrees_def)
    then show ?thesis using True 2(1) [OF True] 2(3-5) bs by (auto simp: Suc_le_eq le_less)
  next
    case False
    define q where "q = p\<lparr>seen := mark_bit (seen p) pos,
           part_message := (part_message p)\<lparr>msg_body := (msg_body (part_message p))[pos := b]\<rparr>,
           remaining := remaining p - 1\<rparr>"
    have ok: "partial_ok q" unfolding q_def by (rule fill_step_ok [OF 2(3) pos False])
    have hm: "has_bit (seen q) j \<longleftrightarrow> has_bit (seen p) j \<or> pos = j" if "j < plen p" for j
      using that pos 2(3) bit_bytes_cap [of "plen p"] bytes.has_mark [of pos "seen p" j]
      by (simp add: q_def partial_ok_def)
    have ag: "agrees m q" using 2(5) b hm pos by (auto simp: agrees_def q_def nth_list_update)
    have "fst (fill q (Suc pos) bs) \<and> agrees m (snd (fill q (Suc pos) bs)) \<and>
      (\<forall>j < plen q. has_bit (seen (snd (fill q (Suc pos) bs))) j \<longleftrightarrow>
         has_bit (seen q) j \<or> (Suc pos \<le> j \<and> j < Suc pos + length bs))"
      using 2(2) [OF False] ok ag bs 2(4) unfolding q_def by simp
    moreover have "plen q = plen p" by (simp add: q_def)
    moreover have "fill p pos (b # bs) = fill q (Suc pos) bs" using False by (simp add: q_def)
    ultimately show ?thesis using hm by (auto simp: Suc_le_eq le_less)
  qed
qed auto

lemma complete_agrees: "partial_ok p \<Longrightarrow> agrees m p \<Longrightarrow> remaining p = 0 \<Longrightarrow> part_message p = m"
  using bytes.card_missing_0 [of "seen p" "plen p"]
  by (auto simp: partial_ok_def agrees_def intro!: handshakeMessage.equality nth_equalityI)

lemma complete_iff: "partial_ok p \<Longrightarrow> remaining p = 0 \<longleftrightarrow> (\<forall>i < plen p. has_bit (seen p) i)"
  using bytes.card_missing_0 [of "seen p" "plen p"] by (simp add: partial_ok_def)


subsection \<open>The reassembler\<close>

abbreviation total_len :: "(u16 \<times> partialHandshake) list \<Rightarrow> nat" where
  "total_len al \<equiv> (\<Sum>(k, p) \<leftarrow> al. plen p)"

abbreviation future_len :: "u32 \<Rightarrow> (u16 \<times> partialHandshake) list \<Rightarrow> nat" where
  "future_len n al \<equiv> (\<Sum>(k, p) \<leftarrow> al. if ucast k = n then 0 else plen p)"

definition entry_ok :: "u32 \<Rightarrow> u16 \<Rightarrow> partialHandshake \<Rightarrow> bool" where
  "entry_ok n k p \<longleftrightarrow> partial_ok p \<and> msg_sequence (part_message p) = k \<and> plen p \<le> maxHandshakeBody \<and>
     unat n \<le> unat k \<and> unat k < unat n + maxPendingMessages"

definition reasm_ok :: "reassembler \<Rightarrow> bool" where
  "reasm_ok r \<longleftrightarrow> distinct (map fst (pending r)) \<and>
     (\<forall>(k, p) \<in> set (pending r). entry_ok (next_seq r) k p) \<and>
     buffered r = int (total_len (pending r)) \<and>
     future_len (next_seq r) (pending r) \<le> maxHandshakeBody"

definition costs :: "reassembler \<Rightarrow> nat list" where
  "costs r = map (\<lambda>(k, p). fragmentCost (plen p)) (pending r)"

text \<open>The budget as it will be once everything pending is given back.\<close>

definition settled :: "reassembler \<Rightarrow> memoryBudget option" where
  "settled r = shared.give_all (budget r) (costs r)"

lemma unat_ucast_u16 [simp]: "unat (ucast (k :: u16) :: u32) = unat k"
proof -
  have "ucast k = (of_nat (unat k) :: u32)" by simp
  then show ?thesis
    using unsigned_less [of k, where ?'a = nat] by (simp only: unat_of_nat) (simp add: take_bit_nat_eq_self)
qed

lemma unat_ucast_u32: "unat (n :: u32) \<le> 65535 \<Longrightarrow> unat (ucast n :: u16) = unat n"
proof -
  assume "unat n \<le> 65535"
  moreover have "ucast n = (of_nat (unat n) :: u16)" by simp
  ultimately show ?thesis by (simp only: unat_of_nat) (simp add: take_bit_nat_eq_self)
qed

lemma ucast_eq_iff: "unat n \<le> 65535 \<Longrightarrow> k = ucast (n :: u32) \<longleftrightarrow> (ucast (k :: u16) :: u32) = n"
  using unat_ucast_u32 [of n] unat_ucast_u16 [of k] by (simp only: word_unat_eq_iff)

lemma frag_window:
  assumes "\<not> ucast (k :: u16) < (n :: u32)" "\<not> of_nat maxPendingMessages \<le> ucast k - n"
  shows "unat n \<le> unat k" "unat k < unat n + maxPendingMessages" "unat n \<le> 65535"
proof -
  show le: "unat n \<le> unat k" using assms(1) by (simp add: word_less_nat_alt)
  then have "unat (ucast k - n) = unat k - unat n" by (simp add: unat_sub word_le_nat_alt)
  then show "unat k < unat n + maxPendingMessages"
    using assms(2) le by (simp add: word_le_nat_alt maxPendingMessages_def)
  show "unat n \<le> 65535" using le unsigned_less [of k, where ?'a = nat] by simp
qed

lemma put_ok:
  assumes ok: "reasm_ok r" and p: "map_of (pending r) k = Some p"
    and p': "partial_ok p'" "plen p' = plen p" "msg_sequence (part_message p') = msg_sequence (part_message p)"
  defines "r' \<equiv> r\<lparr>pending := AList.update k p' (pending r)\<rparr>"
  shows "reasm_ok r'" "settled r' = settled r" "costs r' = costs r"
proof -
  have t: "map (\<lambda>(k, p). plen p) (pending r') = map (\<lambda>(k, p). plen p) (pending r)"
    using alist_update_map [OF p, of "\<lambda>k p. plen p" p'] p'(2) by (simp add: r'_def)
  have f: "map (\<lambda>(k, p). if ucast k = n then 0 else plen p) (pending r') =
           map (\<lambda>(k, p). if ucast k = n then 0 else plen p) (pending r)" for n :: u32
    using alist_update_map [OF p, of "\<lambda>k p. if ucast k = n then 0 else plen p" p'] p'(2) by (simp add: r'_def)
  show c: "costs r' = costs r"
    using alist_update_map [OF p, of "\<lambda>k p. fragmentCost (plen p)" p'] p'(2) by (simp add: costs_def r'_def)
  then show "settled r' = settled r" by (simp add: settled_def r'_def)
  have "entry_ok (next_seq r) k p" using ok map_of_SomeD [OF p] by (auto simp: reasm_ok_def)
  then have "entry_ok (next_seq r) k p'" using p' by (simp add: entry_ok_def)
  then have "\<forall>(j, x) \<in> set (pending r'). entry_ok (next_seq r') j x"
    using ok alist_update_entries [of _ _ k p' "pending r"] by (fastforce simp: reasm_ok_def r'_def)
  moreover have "distinct (map fst (pending r'))"
    using ok distinct_update [of "pending r" k p'] by (simp add: reasm_ok_def r'_def)
  moreover have "next_seq r' = next_seq r" "buffered r' = buffered r" by (simp_all add: r'_def)
  moreover have "total_len (pending r') = total_len (pending r)"
    "future_len (next_seq r) (pending r') = future_len (next_seq r) (pending r)"
    by (simp_all only: t f)
  ultimately show "reasm_ok r'"
    using ok unfolding reasm_ok_def by (simp only:)
qed

lemma open_partial_cases:
  assumes "open_partial r f ep = Some (p, r')"
  obtains (found) "map_of (pending r) (frag_sequence f) = Some p" "r' = r"
    | (created) b where "map_of (pending r) (frag_sequence f) = None" "p = new_partial f ep"
        "reserve (budget r) (fragmentCost (frag_total f)) = (True, b)"
        "r' = r\<lparr>budget := b, pending := pending r @ [(frag_sequence f, p)],
                 buffered := buffered r + int (frag_total f)\<rparr>"
        "ucast (frag_sequence f) \<noteq> next_seq r \<longrightarrow>
           (case map_of (pending r) (ucast (next_seq r)) of
              Some n \<Rightarrow> buffered r - int (plen n) | None \<Rightarrow> buffered r) + int (frag_total f) \<le> int maxHandshakeBody"
proof (cases "map_of (pending r) (frag_sequence f)")
  case (Some q)
  then have "q = p" "r' = r" using assms unfolding open_partial_def by simp_all
  with Some show thesis by (intro that(1)) simp_all
next
  case None
  define fb where "fb = (case map_of (pending r) (ucast (next_seq r)) of
              Some n \<Rightarrow> buffered r - int (plen n) | None \<Rightarrow> buffered r)"
  obtain ok b where res: "reserve (budget r) (fragmentCost (frag_total f)) = (ok, b)" by fastforce
  have up: "AList.update (frag_sequence f) v (pending r) = pending r @ [(frag_sequence f, v)]" for v
    using None by (simp add: map_of_eq_None_iff alist_update_absent)
  have "ok" "\<not> (ucast (frag_sequence f) \<noteq> next_seq r \<and> int maxHandshakeBody < fb + int (frag_total f))"
    "p = new_partial f ep" "r' = r\<lparr>budget := b, pending := pending r @ [(frag_sequence f, p)],
                 buffered := buffered r + int (frag_total f)\<rparr>"
    using assms by (auto simp: open_partial_def None res up Let_def fb_def [symmetric] split: if_splits)
  then show thesis
    using that(2) [OF None, of b] res unfolding fb_def by auto
qed

lemma future_bytes:
  assumes ok: "reasm_ok r" and n: "unat (next_seq r) \<le> 65535"
  shows "(case map_of (pending r) (ucast (next_seq r)) of
            Some p \<Rightarrow> buffered r - int (plen p) | None \<Rightarrow> buffered r) = int (future_len (next_seq r) (pending r))"
proof -
  have key: "ucast k = next_seq r \<longleftrightarrow> k = ucast (next_seq r)" for k :: u16 using ucast_eq_iff [OF n] by blast
  have "distinct (map fst al) \<Longrightarrow>
    int (total_len al) - (case map_of al (ucast (next_seq r)) of Some p \<Rightarrow> int (plen p) | None \<Rightarrow> 0) =
    int (future_len (next_seq r) al)" for al
  proof (induction al)
    case (Cons e al)
    obtain k p where e: "e = (k, p)" by (cases e)
    show ?case
    proof (cases "k = ucast (next_seq r)")
      case True
      then have "map_of al (ucast (next_seq r)) = None"
        using Cons.prems e by (simp add: map_of_eq_None_iff)
      then show ?thesis using Cons e True by (simp add: key)
    next
      case False
      then show ?thesis using Cons e by (auto simp: key split: option.splits)
    qed
  qed simp
  from this [of "pending r"] ok have
    "int (total_len (pending r)) - (case map_of (pending r) (ucast (next_seq r)) of Some p \<Rightarrow> int (plen p) | None \<Rightarrow> 0) =
     int (future_len (next_seq r) (pending r))" and "buffered r = int (total_len (pending r))"
    by (simp_all add: reasm_ok_def)
  then show ?thesis by (cases "map_of (pending r) (ucast (next_seq r))") simp_all
qed

lemma open_partial_ok:
  assumes ok: "reasm_ok r" and op: "open_partial r f ep = Some (p, r')"
    and win: "unat (next_seq r) \<le> unat (frag_sequence f)" "unat (frag_sequence f) < unat (next_seq r) + maxPendingMessages"
    and tot: "frag_total f \<le> maxHandshakeBody"
  shows "reasm_ok r'" "map_of (pending r') (frag_sequence f) = Some p" "settled r' = settled r"
    "next_seq r' = next_seq r" "partial_ok p"
    "within_limit (budget r) \<Longrightarrow> within_limit (budget r')"
proof -
  have n: "unat (next_seq r) \<le> 65535"
    using win(1) unsigned_less [of "frag_sequence f", where ?'a = nat] by simp
  have "reasm_ok r' \<and> map_of (pending r') (frag_sequence f) = Some p \<and> settled r' = settled r \<and>
    next_seq r' = next_seq r \<and> partial_ok p \<and> (within_limit (budget r) \<longrightarrow> within_limit (budget r'))"
    using op
  proof (cases rule: open_partial_cases)
    case found
    then show ?thesis using ok map_of_SomeD [OF found(1)] by (auto simp: reasm_ok_def entry_ok_def)
  next
    case (created b)
    have pl: "plen p = frag_total f" "msg_sequence (part_message p) = frag_sequence f"
      by (simp_all add: created(2) new_partial_def)
    have eo: "entry_ok (next_seq r) (frag_sequence f) p"
      using pl win tot created(2) by (simp add: entry_ok_def)
    have fut: "future_len (next_seq r) (pending r) + (if ucast (frag_sequence f) = next_seq r then 0 else plen p)
        \<le> maxHandshakeBody"
      using created(5) ok pl unfolding future_bytes [OF ok n] by (auto simp: reasm_ok_def)
    have "frag_sequence f \<notin> fst ` set (pending r)" using created(1) by (simp add: map_of_eq_None_iff)
    then have "reasm_ok r'"
      using ok eo fut pl by (auto simp: reasm_ok_def created(4))
    moreover have "settled r' = settled r"
      using shared.take_balance [OF created(3), of "costs r"] pl by (simp add: settled_def costs_def created(4))
    moreover have "within_limit (budget r) \<longrightarrow> within_limit (budget r')"
      using shared.granted [OF created(3)] by (simp add: created(4))
    ultimately show ?thesis using created(1,2) by (simp add: created(4) map_add_Some_iff)
  qed
  then show "reasm_ok r'" "map_of (pending r') (frag_sequence f) = Some p" "settled r' = settled r"
    "next_seq r' = next_seq r" "partial_ok p"
    "within_limit (budget r) \<Longrightarrow> within_limit (budget r')" by blast+
qed

lemma insert_frag_ok:
  fixes ep :: u64
  assumes ok: "reasm_ok r" and b: "frag_offset f + length (frag_body f) \<le> frag_total f"
  defines "r' \<equiv> snd (insert_frag r f ep)"
  shows "reasm_ok r' \<and> settled r' = settled r \<and> next_seq r' = next_seq r \<and>
    (within_limit (budget r) \<longrightarrow> within_limit (budget r'))"
proof -
  consider (skip) "r' = r"
    | (opened) p q where "open_partial r f ep = Some (p, q)" "frag_total f \<le> maxHandshakeBody"
        "\<not> ucast (frag_sequence f) < next_seq r"
        "\<not> of_nat maxPendingMessages \<le> ucast (frag_sequence f) - next_seq r"
  proof (cases "ucast (frag_sequence f) < next_seq r \<or>
      of_nat maxPendingMessages \<le> ucast (frag_sequence f) - next_seq r \<or> maxHandshakeBody < frag_total f \<or>
      open_partial r f ep = None")
    case True
    then have "r' = r" by (auto simp: r'_def insert_frag_def)
    then show thesis by (rule that(1))
  next
    case False
    then obtain p q where "open_partial r f ep = Some (p, q)" by fastforce
    with False show thesis by (intro that(2)) auto
  qed
  then show ?thesis
  proof cases
    case skip
    then show ?thesis using ok by simp
  next
    case opened
    note win = frag_window [OF opened(3,4)]
    note op = open_partial_ok [OF ok opened(1) win(1,2) opened(2)]
    show ?thesis
    proof (cases "msg_typ (part_message p) \<noteq> frag_typ f \<or> msg_epoch (part_message p) \<noteq> ep \<or> plen p \<noteq> frag_total f")
      case True
      then have "r' = q" using opened by (simp add: r'_def insert_frag_def)
      then show ?thesis using op by simp
    next
      case False
      have pl: "frag_offset f + length (frag_body f) \<le> plen p" using False b by simp
      note fl = fill_ok [OF op(5) pl]
      have r': "r' = q\<lparr>pending := AList.update (frag_sequence f) (snd (fill p (frag_offset f) (frag_body f))) (pending q)\<rparr>"
        using opened False by (simp add: r'_def insert_frag_def Let_def case_prod_unfold)
      have "reasm_ok r'" "settled r' = settled q"
        unfolding r' using put_ok [OF op(1,2)] fl by blast+
      moreover have "next_seq r' = next_seq q" "budget r' = budget q" by (simp_all add: r')
      ultimately show ?thesis using op by simp
    qed
  qed
qed

lemma parseFragment_bounds:
  "parseFragment data = Inr (f, rest) \<Longrightarrow> frag_offset f + length (frag_body f) \<le> frag_total f"
  by (auto simp: parseFragment_def Let_def case_prod_unfold split: if_splits)

lemma add_loop_ok:
  assumes "reasm_ok r"
  shows "let r' = snd (add_loop r data ep acc) in
    reasm_ok r' \<and> settled r' = settled r \<and> next_seq r' = next_seq r \<and>
    (within_limit (budget r) \<longrightarrow> within_limit (budget r'))"
  using assms
proof (induction r data ep acc rule: add_loop.induct)
  case (1 r data ep acc)
  show ?case
  proof (cases "parseFragment data")
    case (Inl e)
    then show ?thesis using "1.prems" by (simp add: add_loop.simps [of r])
  next
    case (Inr a)
    then obtain f rest where pf: "parseFragment data = Inr (f, rest)" by (cases a) auto
    obtain res r' where ins: "insert_frag r f ep = (res, r')" by fastforce
    note ok = insert_frag_ok [OF "1.prems" parseFragment_bounds [OF pf], of ep, unfolded ins snd_conv]
    show ?thesis
    proof (cases "data = []")
      case False
      show ?thesis
      proof (cases res)
        case (Inl e)
        then show ?thesis using pf ins ok False by (simp add: add_loop.simps [of r] Let_def)
      next
        case (Inr b)
        have "let r'' = snd (add_loop r' rest ep (acc \<and> b)) in
          reasm_ok r'' \<and> settled r'' = settled r' \<and> next_seq r'' = next_seq r' \<and>
          (within_limit (budget r') \<longrightarrow> within_limit (budget r''))"
          using "1.IH" [OF False pf refl] ins Inr ok by simp
        moreover have "add_loop r data ep acc = add_loop r' rest ep (acc \<and> b)"
          using pf ins Inr False by (simp add: add_loop.simps [of r])
        ultimately show ?thesis using ok by (simp add: Let_def)
      qed
    qed (use "1.prems" in \<open>simp add: add_loop.simps [of r]\<close>)
  qed
qed

lemma add_ok:
  fixes ep :: u64 and data :: "byte list"
  assumes "reasm_ok r"
  defines "r' \<equiv> snd (add r data ep)"
  shows "reasm_ok r' \<and> settled r' = settled r \<and> next_seq r' = next_seq r \<and>
    (within_limit (budget r) \<longrightarrow> within_limit (budget r'))"
  using add_loop_ok [OF assms(1), of data ep True] assms(1) by (simp add: r'_def add_def Let_def)

lemma alist_delete_entries: "(j, x) \<in> set (AList.delete k al) \<Longrightarrow> j \<noteq> k \<and> (j, x) \<in> set al"
  by (induction al) (auto split: if_splits)

lemma alist_delete_costs:
  "map_of al k = Some v \<Longrightarrow> distinct (map fst al) \<Longrightarrow>
   \<exists>xs ys. map (\<lambda>(k, v). g v) al = xs @ g v # ys \<and> map (\<lambda>(k, v). g v) (AList.delete k al) = xs @ ys"
proof (induction al)
  case (Cons e al)
  obtain j x where e: "e = (j, x)" by (cases e)
  show ?case
  proof (cases "j = k")
    case True
    then have "AList.delete k al = al" using Cons.prems e by (auto simp: delete_id)
    then show ?thesis using True Cons.prems e by (auto intro: exI [of _ "[]"])
  next
    case False
    with Cons e obtain xs ys where "map (\<lambda>(k, v). g v) al = xs @ g v # ys"
      "map (\<lambda>(k, v). g v) (AList.delete k al) = xs @ ys" by auto
    then show ?thesis using False e by (intro exI [of _ "g x # xs"] exI [of _ ys]) simp
  qed
qed simp

lemma pop_cases:
  obtains (none) "pop r = (None, r)"
    | (message) p where "unat (next_seq r) \<le> 65535" "map_of (pending r) (ucast (next_seq r)) = Some p"
       "remaining p = 0"
       "pop r = (Some (part_message p),
          r\<lparr>pending := AList.delete (ucast (next_seq r)) (pending r), next_seq := next_seq r + 1,
            buffered := buffered r - int (plen p), budget := release (budget r) (fragmentCost (plen p))\<rparr>)"
proof (cases "65535 < next_seq r")
  case False
  then have n: "unat (next_seq r) \<le> 65535" by (simp add: word_less_nat_alt)
  show thesis
  proof (cases "map_of (pending r) (ucast (next_seq r))")
    case (Some p)
    then show thesis using that n False by (cases "remaining p = 0") (simp_all add: pop_def)
  qed (use that(1) False in \<open>simp add: pop_def\<close>)
qed (use that(1) in \<open>simp add: pop_def\<close>)

lemma pop_ok:
  assumes ok: "reasm_ok r"
  defines "r' \<equiv> snd (pop r)"
  shows "reasm_ok r' \<and> settled r' = settled r \<and> (within_limit (budget r) \<longrightarrow> within_limit (budget r'))"
proof (cases rule: pop_cases [of r])
  case none
  then show ?thesis using ok by (simp add: r'_def)
next
  case (message p)
  define k where "k = (ucast (next_seq r) :: u16)"
  have k: "ucast k = next_seq r" using ucast_eq_iff [OF message(1), of k] by (simp add: k_def)
  have r': "r' = r\<lparr>pending := AList.delete k (pending r), next_seq := next_seq r + 1,
            buffered := buffered r - int (plen p), budget := release (budget r) (fragmentCost (plen p))\<rparr>"
    using message(4) by (simp add: r'_def k_def)
  have d: "distinct (map fst (pending r))" using ok by (simp add: reasm_ok_def)
  have mo: "map_of (pending r) k = Some p" using message(2) by (simp add: k_def)
  have un: "unat (next_seq r + 1) = unat (next_seq r) + 1"
    using message(1) by (simp add: unat_word_ariths(1))
  have ents: "\<forall>(j, x) \<in> set (pending r'). entry_ok (next_seq r') j x"
  proof -
    have nx: "next_seq r' = next_seq r + 1" by (simp add: r')
    have "entry_ok (next_seq r') j x" if "(j, x) \<in> set (AList.delete k (pending r))" for j x
    proof -
      from alist_delete_entries [OF that] have jx: "j \<noteq> k" "(j, x) \<in> set (pending r)" by simp_all
      then have e: "entry_ok (next_seq r) j x" using ok by (auto simp: reasm_ok_def)
      have "ucast j \<noteq> next_seq r" using jx(1) ucast_eq_iff [OF message(1), of j] by (simp add: k_def)
      then have "unat (next_seq r) \<noteq> unat j" using unat_ucast_u16 [of j] by (simp add: word_unat_eq_iff)
      then show ?thesis using e un by (simp add: entry_ok_def nx)
    qed
    moreover have "pending r' = AList.delete k (pending r)" by (simp add: r')
    ultimately show ?thesis by auto
  qed
  have tot: "total_len (pending r) = plen p + total_len (AList.delete k (pending r))"
    by (rule alist_delete_sum [OF mo d])
  have le: "future_len n al \<le> total_len al" for n al by (induction al) auto
  have eq: "total_len (AList.delete k (pending r)) = future_len (next_seq r) (pending r)"
    using future_bytes [OF ok message(1)] ok tot mo by (simp add: reasm_ok_def k_def)
  have p': "pending r' = AList.delete k (pending r)" by (simp add: r')
  have "future_len (next_seq r) (pending r) \<le> maxHandshakeBody" using ok by (simp add: reasm_ok_def)
  then have fut: "future_len (next_seq r') (pending r') \<le> maxHandshakeBody"
    using le [of "next_seq r'" "AList.delete k (pending r)"] unfolding p' eq by (rule le_trans [rotated])
  have "distinct (map fst (pending r'))" using d by (simp add: r' distinct_delete)
  moreover have "buffered r' = int (total_len (pending r'))"
  proof -
    have "buffered r' = buffered r - int (plen p)" by (simp add: r')
    then show ?thesis using ok tot by (simp add: p' reasm_ok_def)
  qed
  ultimately have "reasm_ok r'" using ents fut unfolding reasm_ok_def by (simp only:)
  moreover have "settled r' = settled r"
  proof -
    obtain xs ys where xy: "costs r = xs @ fragmentCost (plen p) # ys" "costs r' = xs @ ys"
      using alist_delete_costs [OF mo d, of "\<lambda>p. fragmentCost (plen p)"] by (auto simp: costs_def r')
    have "budget r' = release (budget r) (fragmentCost (plen p))" by (simp add: r')
    then show ?thesis using shared.give_all_append by (simp add: settled_def xy del: shared.give_all_simps)
  qed
  moreover have "within_limit (budget r) \<longrightarrow> within_limit (budget r')"
    using shared.back_valid by (simp add: r')
  ultimately show ?thesis by simp
qed

lemma reset_ok:
  "reasm_ok (reset r)" "budget (reset r) = settled r" "settled (reset r) = settled r" "next_seq (reset r) = next_seq r"
proof -
  have "foldl (\<lambda>b (k, p). release b (fragmentCost (plen p))) b al =
    shared.give_all b (map (\<lambda>(k, p). fragmentCost (plen p)) al)" for b al
    by (induction al arbitrary: b) auto
  then show b: "budget (reset r) = settled r" by (simp add: reset_def settled_def costs_def)
  then show "settled (reset r) = settled r" by (simp add: settled_def [of "reset r"]) (simp add: costs_def reset_def)
  show "reasm_ok (reset r)" "next_seq (reset r) = next_seq r" by (simp_all add: reset_def reasm_ok_def)
qed

lemma reasm_ok_bounds:
  assumes ok: "reasm_ok r"
  shows "0 \<le> buffered r" "buffered r \<le> 2 * int maxHandshakeBody" "length (pending r) \<le> maxPendingMessages"
proof -
  show "0 \<le> buffered r" using ok by (simp add: reasm_ok_def)
  have "card (set (map fst (pending r))) \<le> card {unat (next_seq r)..<unat (next_seq r) + maxPendingMessages}"
  proof (rule card_inj_on_le [of unat])
    show "inj_on unat (set (map fst (pending r)))" by (auto intro!: inj_onI simp: word_unat_eq_iff)
    show "unat ` set (map fst (pending r)) \<subseteq> {unat (next_seq r)..<unat (next_seq r) + maxPendingMessages}"
      using ok by (fastforce simp: reasm_ok_def entry_ok_def)
  qed simp
  then show "length (pending r) \<le> maxPendingMessages"
    using ok distinct_card [of "map fst (pending r)"] by (simp add: reasm_ok_def)
  show "buffered r \<le> 2 * int maxHandshakeBody"
  proof (cases "pending r = []")
    case True
    then show ?thesis using ok by (simp add: reasm_ok_def)
  next
    case False
    then obtain k p where "(k, p) \<in> set (pending r)" by (metis list.set_intros(1) neq_Nil_conv surj_pair)
    then have "unat (next_seq r) \<le> unat k" using ok by (auto simp: reasm_ok_def entry_ok_def)
    then have n: "unat (next_seq r) \<le> 65535" using unsigned_less [of k, where ?'a = nat] by simp
    have "int (plen q) \<le> int maxHandshakeBody" if "map_of (pending r) j = Some q" for j q
      using ok map_of_SomeD [OF that] by (auto simp: reasm_ok_def entry_ok_def)
    then show ?thesis
      using future_bytes [OF ok n] ok by (fastforce simp: reasm_ok_def split: option.splits)
  qed
qed

subsection \<open>Collecting one message\<close>

text \<open>\<open>collecting m S r\<close>: message \<open>m\<close> is the next expected one, and the bytes at the positions
  in \<open>S\<close> have arrived.\<close>

definition collecting :: "handshakeMessage \<Rightarrow> nat set \<Rightarrow> reassembler \<Rightarrow> bool" where
  "collecting m S r \<longleftrightarrow> reasm_ok r \<and> next_seq r = ucast (msg_sequence m) \<and>
     (\<exists>p. map_of (pending r) (msg_sequence m) = Some p \<and> agrees m p \<and>
          (\<forall>i < length (msg_body m). has_bit (seen p) i \<longleftrightarrow> i \<in> S))"

text \<open>\<open>expecting m r\<close>: nothing of \<open>m\<close> has arrived yet, and the budget has room for it.\<close>

definition expecting :: "handshakeMessage \<Rightarrow> reassembler \<Rightarrow> bool" where
  "expecting m r \<longleftrightarrow> reasm_ok r \<and> next_seq r = ucast (msg_sequence m) \<and>
     map_of (pending r) (msg_sequence m) = None \<and> fst (reserve (budget r) (fragmentCost (length (msg_body m))))"

lemma collect_fill:
  assumes ok: "reasm_ok r" "next_seq r = ucast (msg_sequence m)" "map_of (pending r) (msg_sequence m) = Some p"
    and p: "agrees m p" "\<forall>i < length (msg_body m). has_bit (seen p) i \<longleftrightarrow> i \<in> S"
    and len: "off + len \<le> length (msg_body m)"
  defines "q \<equiv> fill p off (segment (msg_body m) off (off + len))"
  defines "r' \<equiv> r\<lparr>pending := AList.update (msg_sequence m) (snd q) (pending r)\<rparr>"
  shows "fst q" "collecting m (S \<union> {off..<off + len}) r'"
proof -
  have pok: "partial_ok p" using ok map_of_SomeD [OF ok(3)] by (auto simp: reasm_ok_def entry_ok_def)
  have pl: "plen p = length (msg_body m)" using p(1) by (simp add: agrees_def)
  have sl: "length (segment (msg_body m) off (off + len)) = len" using len by (simp add: segment_def)
  have b: "off + length (segment (msg_body m) off (off + len)) \<le> plen p" using len sl pl by simp
  have eq: "\<forall>i < length (segment (msg_body m) off (off + len)).
      segment (msg_body m) off (off + len) ! i = msg_body m ! (off + i)"
    unfolding sl using len by (simp add: segment_def)
  note fa = fill_agrees [OF pok b p(1) eq, folded q_def, unfolded sl]
  show "fst q" using fa by blast
  have "reasm_ok r'" unfolding r'_def
    using put_ok [OF ok(1,3)] fill_ok [OF pok b] by (simp add: q_def)
  moreover have "next_seq r' = ucast (msg_sequence m)" using ok(2) by (simp add: r'_def)
  moreover have "map_of (pending r') (msg_sequence m) = Some (snd q)" by (simp add: r'_def update_conv')
  moreover have "\<forall>i < length (msg_body m). has_bit (seen (snd q)) i \<longleftrightarrow> i \<in> S \<union> {off..<off + len}"
    using fa p(2) pl by auto
  ultimately show "collecting m (S \<union> {off..<off + len}) r'" using fa unfolding collecting_def by blast
qed

lemma insert_open:
  assumes "next_seq r = ucast (msg_sequence m)" "length (msg_body m) \<le> maxHandshakeBody"
    and "open_partial r (part_of m off len) (msg_epoch m) = Some (p, r1)" "agrees m p"
  shows "insert_frag r (part_of m off len) (msg_epoch m) =
    (let q = fill p off (segment (msg_body m) off (off + len)) in
     (if fst q then Inr True else Inl errFragmentConflict,
      r1\<lparr>pending := AList.update (msg_sequence m) (snd q) (pending r1)\<rparr>))"
  using assms by (simp add: insert_frag_def part_of_def agrees_def maxPendingMessages_def Let_def case_prod_unfold)

lemma collect_insert:
  assumes c: "collecting m S r" and len: "off + len \<le> length (msg_body m)" "length (msg_body m) \<le> maxHandshakeBody"
  shows "\<exists>r'. insert_frag r (part_of m off len) (msg_epoch m) = (Inr True, r') \<and> collecting m (S \<union> {off..<off + len}) r'"
proof -
  from c obtain p where p: "reasm_ok r" "next_seq r = ucast (msg_sequence m)"
    "map_of (pending r) (msg_sequence m) = Some p" "agrees m p"
    "\<forall>i < length (msg_body m). has_bit (seen p) i \<longleftrightarrow> i \<in> S"
    unfolding collecting_def by blast
  have "open_partial r (part_of m off len) (msg_epoch m) = Some (p, r)"
    using p(3) by (simp add: open_partial_def part_of_def)
  from insert_open [OF p(2) len(2) this p(4)] collect_fill [OF p len(1)] show ?thesis by (simp add: Let_def)
qed

lemma expect_insert:
  assumes c: "expecting m r" and len: "off + len \<le> length (msg_body m)" "length (msg_body m) \<le> maxHandshakeBody"
  shows "\<exists>r'. insert_frag r (part_of m off len) (msg_epoch m) = (Inr True, r') \<and> collecting m {off..<off + len} r'"
proof -
  from c have e: "reasm_ok r" "next_seq r = ucast (msg_sequence m)" "map_of (pending r) (msg_sequence m) = None"
    "fst (reserve (budget r) (fragmentCost (length (msg_body m))))"
    by (simp_all add: expecting_def)
  define f where "f = part_of m off len"
  define p where "p = new_partial f (msg_epoch m)"
  obtain r1 where op: "open_partial r f (msg_epoch m) = Some (p, r1)"
    using e by (auto simp: open_partial_def f_def part_of_def p_def Let_def case_prod_unfold)
  have seqf: "frag_sequence f = msg_sequence m" "frag_total f = length (msg_body m)"
    by (simp_all add: f_def part_of_def)
  have win: "unat (next_seq r) \<le> unat (frag_sequence f)"
    "unat (frag_sequence f) < unat (next_seq r) + maxPendingMessages"
    using e(2) by (simp_all add: seqf maxPendingMessages_def)
  note o = open_partial_ok [OF e(1) op win, unfolded seqf, OF len(2)]
  have ag: "agrees m p" and em: "\<forall>i < length (msg_body m). has_bit (seen p) i \<longleftrightarrow> i \<in> {}"
    using bit_bytes_cap [of "length (msg_body m)"]
    by (auto simp: agrees_def p_def new_partial_def f_def part_of_def)
  have nx: "next_seq r1 = ucast (msg_sequence m)" using o(4) e(2) by simp
  from insert_open [OF e(2) len(2) op [unfolded f_def] ag]
    collect_fill [OF o(1) nx o(2) ag em len(1)]
  show ?thesis by (simp add: Let_def)
qed

text \<open>\<open>frags m fs S\<close>: \<open>fs\<close> are encoded fragments of \<open>m\<close>, and together they carry the bytes at \<open>S\<close>.\<close>

inductive frags :: "handshakeMessage \<Rightarrow> byte list list \<Rightarrow> nat set \<Rightarrow> bool" for m where
  none: "frags m [] {}"
| more: "fragment m off len = Inr b \<Longrightarrow> frags m fs S \<Longrightarrow> frags m (b # fs) ({nat off..<nat off + nat len} \<union> S)"

lemma fragment_limit: "fragment m off len = Inr b \<Longrightarrow> length (msg_body m) \<le> maxHandshakeBody"
  by (auto simp: fragment_def Let_def split: if_splits)

lemma add_loop_frags:
  assumes "frags m fs S" "collecting m T r"
  shows "\<exists>r'. add_loop r (concat fs) (msg_epoch m) acc = (Inr acc, r') \<and> collecting m (T \<union> S) r'"
  using assms
proof (induction arbitrary: T r rule: frags.induct)
  case none
  then show ?case by (simp add: add_loop.simps)
next
  case (more off len b fs S)
  note fp = fragment_parse(1) [OF more(1), of "concat fs"] fragment_parse(2-5) [OF more(1)]
  obtain r1 where r1: "insert_frag r (part_of m (nat off) (nat len)) (msg_epoch m) = (Inr True, r1)"
    "collecting m (T \<union> {nat off..<nat off + nat len}) r1"
    using collect_insert [OF more(4) fp(4) fragment_limit [OF more(1)]] by blast
  have "add_loop r (concat (b # fs)) (msg_epoch m) acc = add_loop r1 (concat fs) (msg_epoch m) acc"
    using fp(1,5) r1(1) by (simp add: add_loop.simps [of r])
  then show ?case using more(3) [OF r1(2)] by (simp add: Un_assoc)
qed


text \<open>Feeding datagrams, each the concatenation of some fragments.\<close>

definition feed :: "u64 \<Rightarrow> reassembler \<Rightarrow> byte list list \<Rightarrow> reassembler" where
  "feed ep r ds = foldl (\<lambda>r d. snd (add r d ep)) r ds"

inductive datagrams :: "handshakeMessage \<Rightarrow> byte list list \<Rightarrow> nat set \<Rightarrow> bool" for m where
  none: "datagrams m [] {}"
| more: "frags m fs S \<Longrightarrow> datagrams m ds T \<Longrightarrow> datagrams m (concat fs # ds) (S \<union> T)"

lemma add_frags:
  assumes "frags m fs S" "collecting m T r"
  shows "collecting m (T \<union> S) (snd (add r (concat fs) (msg_epoch m)))"
proof (cases "concat fs = []")
  case True
  from assms(1) True have "S = {}"
  proof cases
    case (more off len b gs U)
    then show ?thesis using True fragment_parse(5) by auto
  qed
  then show ?thesis using True assms(2) by (simp add: add_def)
next
  case False
  obtain r' where "add_loop r (concat fs) (msg_epoch m) True = (Inr True, r')" "collecting m (T \<union> S) r'"
    using add_loop_frags [OF assms] by blast
  then show ?thesis using False by (simp add: add_def del: concat_eq_Nil_conv)
qed

lemma feed_collecting:
  "datagrams m ds S \<Longrightarrow> collecting m T r \<Longrightarrow> collecting m (T \<union> S) (feed (msg_epoch m) r ds)"
proof (induction arbitrary: T r rule: datagrams.induct)
  case none
  then show ?case by (simp add: feed_def)
next
  case (more fs S ds U)
  from more(3) [OF add_frags [OF more(1,4)]] show ?case by (simp add: feed_def Un_assoc)
qed

lemma add_frags_first:
  assumes "frags m fs S" "expecting m r"
  shows "fs = [] \<and> S = {} \<and> snd (add r (concat fs) (msg_epoch m)) = r \<or>
         collecting m S (snd (add r (concat fs) (msg_epoch m)))"
  using assms(1)
proof cases
  case none
  then show ?thesis by (simp add: add_def)
next
  case (more off len b gs U)
  note fp = fragment_parse(1) [OF more(3), of "concat gs"] fragment_parse(2-5) [OF more(3)]
  obtain r1 where r1: "insert_frag r (part_of m (nat off) (nat len)) (msg_epoch m) = (Inr True, r1)"
    "collecting m {nat off..<nat off + nat len} r1"
    using expect_insert [OF assms(2) fp(4) fragment_limit [OF more(3)]] by blast
  obtain r2 where "add_loop r1 (concat gs) (msg_epoch m) True = (Inr True, r2)"
    "collecting m ({nat off..<nat off + nat len} \<union> U) r2"
    using add_loop_frags [OF more(4) r1(2)] by blast
  then show ?thesis using fp(1,5) r1(1) more(1,2) by (simp add: add_def add_loop.simps [of r])
qed

lemma feed_expecting:
  "datagrams m ds S \<Longrightarrow> expecting m r \<Longrightarrow>
   ((\<forall>d \<in> set ds. d = []) \<and> feed (msg_epoch m) r ds = r) \<or> collecting m S (feed (msg_epoch m) r ds)"
proof (induction arbitrary: r rule: datagrams.induct)
  case none
  then show ?case by (simp add: feed_def)
next
  case (more fs S ds U)
  from add_frags_first [OF more(1,4)] show ?case
  proof
    assume a: "fs = [] \<and> S = {} \<and> snd (add r (concat fs) (msg_epoch m)) = r"
    then show ?thesis using more(3) [OF more(4)] by (auto simp: feed_def)
  next
    assume "collecting m S (snd (add r (concat fs) (msg_epoch m)))"
    from feed_collecting [OF more(2) this] show ?thesis by (simp add: feed_def)
  qed
qed

lemma pop_collected:
  assumes "collecting m S r" "{..<length (msg_body m)} \<subseteq> S"
  shows "fst (pop r) = Some m"
proof -
  from assms(1) obtain p where p: "reasm_ok r" "next_seq r = ucast (msg_sequence m)"
    "map_of (pending r) (msg_sequence m) = Some p" "agrees m p"
    "\<forall>i < length (msg_body m). has_bit (seen p) i \<longleftrightarrow> i \<in> S"
    unfolding collecting_def by blast
  have pok: "partial_ok p" using p(1) map_of_SomeD [OF p(3)] by (auto simp: reasm_ok_def entry_ok_def)
  have "plen p = length (msg_body m)" using p(4) by (simp add: agrees_def)
  then have rem: "remaining p = 0" using complete_iff [OF pok] p(5) assms(2) by auto
  have "unat (next_seq r) \<le> 65535" using unsigned_less [of "msg_sequence m", where ?'a = nat] by (simp add: p(2))
  then have "\<not> 65535 < next_seq r" "ucast (next_seq r) = msg_sequence m"
    using ucast_eq_iff [of "next_seq r" "msg_sequence m"] p(2) by (simp_all add: word_less_nat_alt)
  then show ?thesis using p(3) rem complete_agrees [OF pok p(4) rem] by (simp add: pop_def)
qed

subsection \<open>Conflicts and gaps\<close>

lemma fill_conflict:
  "\<lbrakk>pos + length bs \<le> plen p; length (seen p) = bit_bytes (plen p); i < length bs;
    has_bit (seen p) (pos + i); msg_body (part_message p) ! (pos + i) \<noteq> bs ! i\<rbrakk> \<Longrightarrow> \<not> fst (fill p pos bs)"
proof (induction p pos bs arbitrary: i rule: fill.induct)
  case (2 p pos b bs)
  show ?case
  proof (cases i)
    case 0
    then show ?thesis using "2.prems" by simp
  next
    case (Suc k)
    show ?thesis
    proof (cases "has_bit (seen p) pos")
      case True
      then show ?thesis using "2.IH"(1) [OF True] "2.prems" Suc by auto
    next
      case False
      have "has_bit (mark_bit (seen p) pos) (Suc pos + k)"
        using "2.prems" Suc bit_bytes_cap [of "plen p"] bytes.has_mark [of pos "seen p" "Suc pos + k"] by simp
      then show ?thesis using "2.IH"(2) [OF False, of k] "2.prems" Suc False by simp
    qed
  qed
qed simp

lemma prefix_from_spec:
  "n \<le> plen p \<Longrightarrow> (\<forall>i < n. has_bit (seen p) i) \<Longrightarrow>
   prefix_from p n \<le> plen p \<and> (\<forall>i < prefix_from p n. has_bit (seen p) i) \<and>
   (prefix_from p n < plen p \<longrightarrow> \<not> has_bit (seen p) (prefix_from p n))"
proof (induction p n rule: prefix_from.induct)
  case (1 p n)
  show ?case
  proof (cases "n < plen p \<and> has_bit (seen p) n")
    case True
    then have "\<forall>i < Suc n. has_bit (seen p) i" using 1(3) less_Suc_eq by auto
    then show ?thesis using 1(1) [OF True] True by (simp add: prefix_from.simps [of p n])
  next
    case False
    have "prefix_from p n = n" by (subst prefix_from.simps) (simp only: if_not_P [OF False])
    then show ?thesis using 1(2,3) False by auto
  qed
qed

definition gap :: "partialHandshake \<Rightarrow> bool" where
  "gap p \<longleftrightarrow> (\<exists>i j. i < j \<and> j < plen p \<and> \<not> has_bit (seen p) i \<and> has_bit (seen p) j)"

lemma received_count:
  "partial_ok p \<Longrightarrow> int (plen p) - remaining p = int (card {i. i < plen p \<and> has_bit (seen p) i})"
proof -
  assume ok: "partial_ok p"
  define A where "A = {i. i < plen p \<and> has_bit (seen p) i}"
  define B where "B = {i. i < plen p \<and> \<not> has_bit (seen p) i}"
  have "{..<plen p} = A \<union> B" "A \<inter> B = {}" "finite A" "finite B" by (auto simp: A_def B_def)
  then have "plen p = card A + card B" by (metis card_Un_disjoint card_lessThan)
  then show ?thesis using ok by (simp add: partial_ok_def bytes.missing_def A_def B_def)
qed

lemma prefix_gap:
  assumes ok: "partial_ok p"
  shows "int (prefixLength p) < int (plen p) - remaining p \<longleftrightarrow> gap p"
proof -
  define n where "n = prefixLength p"
  define A where "A = {i. i < plen p \<and> has_bit (seen p) i}"
  have n: "n \<le> plen p" "\<forall>i < n. has_bit (seen p) i" "n < plen p \<Longrightarrow> \<not> has_bit (seen p) n"
    using prefix_from_spec [of 0 p] by (simp_all add: n_def prefixLength_def)
  have sub: "{..<n} \<subseteq> A" and fin: "finite A" using n by (auto simp: A_def)
  have "n < card A \<longleftrightarrow> A \<noteq> {..<n}"
    using psubset_card_mono [OF fin, of "{..<n}"] sub by auto
  also have "\<dots> \<longleftrightarrow> gap p"
  proof
    assume "A \<noteq> {..<n}"
    then obtain j where j: "j < plen p" "has_bit (seen p) j" "\<not> j < n" using sub by (auto simp: A_def)
    with n have "\<not> has_bit (seen p) n" "j \<noteq> n" by auto
    with j show "gap p" unfolding gap_def by (intro exI [of _ n] exI [of _ j]) simp
  next
    assume "gap p"
    then obtain i j where "i < j" "j < plen p" "\<not> has_bit (seen p) i" "has_bit (seen p) j" by (auto simp: gap_def)
    with n have "n \<le> i" "j \<in> A" by (auto simp: A_def not_less [symmetric])
    with \<open>i < j\<close> show "A \<noteq> {..<n}" by auto
  qed
  finally show ?thesis using received_count [OF ok] by (simp add: n_def A_def)
qed

end
