(* ===== verification/FragmentProps.thy ===== *)
theory FragmentProps
  imports FragmentLemmas
begin

text \<open>
  The properties of handshake fragmentation and reassembly.  \<open>reassembling b\<close> is reachability: the
  states a reassembler with budget \<open>b\<close> can take under any sequence of datagrams, deliveries and
  resets.
\<close>

definition new_reassembler :: "u32 \<Rightarrow> memoryBudget option \<Rightarrow> reassembler" where
  "new_reassembler n b = \<lparr>next_seq = n, pending = [], buffered = 0, budget = b\<rparr>"

inductive reassembling :: "memoryBudget option \<Rightarrow> reassembler \<Rightarrow> bool" for b where
  start: "reassembling b (new_reassembler n b)"
| add: "reassembling b r \<Longrightarrow> reassembling b (snd (add r data ep))"
| pop: "reassembling b r \<Longrightarrow> reassembling b (snd (pop r))"
| reset: "reassembling b r \<Longrightarrow> reassembling b (reset r)"

lemma new_reassembler_ok: "reasm_ok (new_reassembler n b)" "settled (new_reassembler n b) = b"
  by (simp_all add: new_reassembler_def reasm_ok_def settled_def costs_def)

lemma reassembling_ok:
  "reassembling b r \<Longrightarrow> reasm_ok r \<and> settled r = b \<and> (within_limit b \<longrightarrow> within_limit (budget r))"
proof (induction rule: reassembling.induct)
  case (start n)
  then show ?case using new_reassembler_ok by (simp add: new_reassembler_def)
next
  case (add r data ep)
  then show ?case using add_ok [of r data ep] by auto
next
  case (pop r)
  then show ?case using pop_ok [of r] by auto
next
  case (reset r)
  have "within_limit b \<longrightarrow> within_limit (budget (reset r))"
    using reset by (simp add: reset_ok(2))
  then show ?case using reset reset_ok by simp
qed

definition demo_message :: handshakeMessage where
  "demo_message = \<lparr>msg_typ = 11, msg_sequence = 2, msg_epoch = 2, msg_body = [1, 2, 3]\<rparr>"

lemma demo_fragments:
  "\<exists>b. fragment demo_message 0 2 = Inr b" "\<exists>b. fragment demo_message 1 2 = Inr b"
  by (simp_all add: fragment_def demo_message_def maxHandshakeBody_def segment_def)

text \<open>C8: every message is recovered from its fragments.  Let the expected message be cut into
  fragments in any way (overlapping, repeated, empty), the fragments be packed into datagrams in any
  way and the datagrams arrive in any order: once every byte has arrived at least once, \<open>pop\<close>
  delivers exactly that message.\<close>

theorem reassembly_complete:
  assumes "reasm_ok r" "next_seq r = ucast (msg_sequence m)" "map_of (pending r) (msg_sequence m) = None"
    and "fst (reserve (budget r) (fragmentCost (length (msg_body m))))"
    and "datagrams m ds S" "{..<length (msg_body m)} \<subseteq> S" "\<exists>d \<in> set ds. d \<noteq> []"
  shows "fst (pop (feed (msg_epoch m) r ds)) = Some m"
proof -
  have "expecting m r" using assms by (simp add: expecting_def)
  from feed_expecting [OF assms(5) this] assms(7) have "collecting m S (feed (msg_epoch m) r ds)" by blast
  then show ?thesis using assms(6) by (rule pop_collected)
qed

theorem reassembly_complete_witness:
  "\<exists>b c. fragment demo_message 1 2 = Inr b \<and> fragment demo_message 0 2 = Inr c \<and>
     fst (pop (feed 2 (new_reassembler 2 None) [b, c])) = Some demo_message"
proof -
  obtain b c where b: "fragment demo_message 1 2 = Inr b" and c: "fragment demo_message 0 2 = Inr c"
    using demo_fragments by blast
  note d = datagrams.more [OF frags.more [OF b frags.none] datagrams.more [OF frags.more [OF c frags.none] datagrams.none]]
  have "fst (pop (feed (msg_epoch demo_message) (new_reassembler 2 None) [concat [b], concat [c]])) = Some demo_message"
  proof (rule reassembly_complete [OF _ _ _ _ d])
    show "reasm_ok (new_reassembler 2 None)" by (rule new_reassembler_ok)
    show "\<exists>d \<in> set [concat [b], concat [c]]. d \<noteq> []" using fragment_parse(5) [OF b] by simp
  qed (auto simp: new_reassembler_def demo_message_def reserve_def)
  then show ?thesis using b c by (auto simp: demo_message_def)
qed

text \<open>C11: resource limits.  Whatever a peer sends, a reassembler holds at most 16 incomplete messages
  and 2 MiB of their bytes, none longer than 1 MiB; it never pushes the shared memory budget over its
  limit, and a reset returns exactly what it took.\<close>

theorem reassembler_bounded:
  assumes "reassembling b r"
  shows "length (pending r) \<le> 16 \<and> 0 \<le> buffered r \<and> buffered r \<le> 2 * 2 ^ 20 \<and>
    list_all (\<lambda>(k, p). length (msg_body (part_message p)) \<le> 2 ^ 20) (pending r) \<and>
    (within_limit b \<longrightarrow> within_limit (budget r)) \<and> budget (reset r) = b"
proof -
  from reassembling_ok [OF assms] have ok: "reasm_ok r" "settled r = b" "within_limit b \<longrightarrow> within_limit (budget r)"
    by simp_all
  have "list_all (\<lambda>(k, p). length (msg_body (part_message p)) \<le> 2 ^ 20) (pending r)"
    using ok(1) by (auto simp: list_all_iff reasm_ok_def entry_ok_def maxHandshakeBody_def)
  then show ?thesis
    using reasm_ok_bounds [OF ok(1)] ok reset_ok(2) [of r] by (simp add: maxHandshakeBody_def maxPendingMessages_def)
qed

theorem reassembler_bounded_witness:
  "budget (reset (snd (add (new_reassembler 0 (Some \<lparr>used = 0, limit = 4096\<rparr>)) [1, 0, 0, 9, 0, 0, 0, 0, 0, 0, 0, 1, 7] 0))) =
     Some \<lparr>used = 0, limit = 4096\<rparr>"
  using reassembler_bounded [OF reassembling.add [OF reassembling.start]] by blast

text \<open>C24: a fragment survives the wire, in front of whatever follows it in the record.\<close>

theorem fragment_roundtrip:
  assumes "fragment m off len = Inr b"
  shows "parseFragment (b @ rest) =
    Inr (\<lparr>frag_typ = msg_typ m, frag_sequence = msg_sequence m, frag_total = length (msg_body m),
          frag_offset = nat off, frag_body = take (nat len) (drop (nat off) (msg_body m))\<rparr>, rest)"
  using fragment_parse(1) [OF assms] by (simp add: part_of_def segment_def)

theorem fragment_roundtrip_witness:
  "\<exists>b. fragment demo_message 1 2 = Inr b \<and>
     map_sum id (\<lambda>(f, rest). (frag_body f, rest)) (parseFragment (b @ [9])) = (Inr ([2, 3], [9]) :: dtls_error + _)"
proof -
  obtain b where b: "fragment demo_message 1 2 = Inr b" using demo_fragments by blast
  with fragment_roundtrip [OF b, of "[9]"] show ?thesis by (simp add: demo_message_def)
qed

text \<open>C25: a fragment that contradicts a byte already received is a fatal conflict, never a silent
  overwrite.\<close>

theorem conflicting_fragment_rejected:
  assumes "reassembling b r" "map_of (pending r) (frag_sequence f) = Some p"
    "frag_offset f + length (frag_body f) \<le> frag_total f" "frag_total f \<le> 2 ^ 20"
    "i < length (frag_body f)" "has_bit (seen p) (frag_offset f + i)"
    "msg_body (part_message p) ! (frag_offset f + i) \<noteq> frag_body f ! i"
  shows "fst (insert_frag r f ep) = Inl errFragmentConflict"
proof -
  have ok: "reasm_ok r" using reassembling_ok [OF assms(1)] by simp
  then have e: "entry_ok (next_seq r) (frag_sequence f) p"
    using map_of_SomeD [OF assms(2)] by (auto simp: reasm_ok_def)
  have le: "next_seq r \<le> ucast (frag_sequence f)" using e by (simp add: entry_ok_def word_le_nat_alt)
  have win: "\<not> ucast (frag_sequence f) < next_seq r" "\<not> of_nat maxPendingMessages \<le> ucast (frag_sequence f) - next_seq r"
    using e le unat_sub [OF le]
    by (auto simp: entry_ok_def word_le_nat_alt word_less_nat_alt maxPendingMessages_def)
  have "\<not> fst (fill p (frag_offset f) (frag_body f))" if "plen p = frag_total f"
    using fill_conflict [of "frag_offset f" "frag_body f" p i] that assms e
    by (simp add: entry_ok_def partial_ok_def)
  then show ?thesis
    using win assms(2,4)
    by (auto simp: insert_frag_def open_partial_def maxHandshakeBody_def Let_def case_prod_unfold)
qed

theorem conflicting_fragment_rejected_witness:
  "fst (insert_frag (snd (add (new_reassembler 0 None) [1, 0, 0, 1, 0, 0, 0, 0, 0, 0, 0, 1, 7] 0))
     \<lparr>frag_typ = 1, frag_sequence = 0, frag_total = 1, frag_offset = 0, frag_body = [8]\<rparr> 0) = Inl errFragmentConflict"
proof -
  define m where "m = \<lparr>msg_typ = 1, msg_sequence = 0, msg_epoch = 0, msg_body = [7 :: byte]\<rparr>"
  have b: "fragment m 0 1 = Inr [1, 0, 0, 1, 0, 0, 0, 0, 0, 0, 0, 1, 7]"
    by (simp add: fragment_def m_def maxHandshakeBody_def segment_def numeral_2_eq_2 numeral_3_eq_3)
  have "collecting m ({0..<1} \<union> {}) (snd (add (new_reassembler 0 None) (concat [[1, 0, 0, 1, 0, 0, 0, 0, 0, 0, 0, 1, 7]]) (msg_epoch m)))"
    using add_frags_first [OF frags.more [OF b frags.none], of "new_reassembler 0 None"] new_reassembler_ok
    by (auto simp: expecting_def m_def new_reassembler_def reserve_def reasm_ok_def)
  then obtain p where p: "map_of (pending (snd (add (new_reassembler 0 None) [1, 0, 0, 1, 0, 0, 0, 0, 0, 0, 0, 1, 7] 0))) 0 = Some p"
    "agrees m p" "has_bit (seen p) 0"
    by (auto simp: collecting_def m_def)
  then have "msg_body (part_message p) ! 0 = 7" by (simp add: agrees_def m_def)
  with p show ?thesis
    by (intro conflicting_fragment_rejected [OF reassembling.add [OF reassembling.start], where i = 0 and p = p]) simp_all
qed

text \<open>C26: \<open>disrupted\<close> detects reordering and loss exactly: some message beyond the expected one has
  arrived, or the expected one has a byte after a gap.\<close>

theorem disrupted_iff:
  assumes "reassembling b r"
  shows "disrupted r \<longleftrightarrow>
    list_ex (\<lambda>(k, p). ucast k \<noteq> next_seq r \<or>
      (\<exists>i j. i < j \<and> j < length (msg_body (part_message p)) \<and> \<not> has_bit (seen p) i \<and> has_bit (seen p) j)) (pending r)"
    (is "_ \<longleftrightarrow> ?spec")
proof -
  have ok: "reasm_ok r" using reassembling_ok [OF assms] by simp
  have ents: "entry_ok (next_seq r) k p" if "(k, p) \<in> set (pending r)" for k p
    using ok that by (auto simp: reasm_ok_def)
  show ?thesis
  proof (cases "pending r")
    case Nil
    then show ?thesis by (simp add: disrupted_def)
  next
    case (Cons e es)
    obtain k p where e: "e = (k, p)" by (cases e)
    have ek: "entry_ok (next_seq r) k p" using ents Cons e by simp
    then have n: "unat (next_seq r) \<le> 65535"
      using unsigned_less [of k, where ?'a = nat] by (simp add: entry_ok_def)
    show ?thesis
    proof (cases es)
      case Nil
      have "ucast (next_seq r) = k \<longleftrightarrow> ucast k = next_seq r" using ucast_eq_iff [OF n, of k] by auto
      then show ?thesis
        using prefix_gap [of p] ek Nil Cons e by (auto simp: disrupted_def gap_def entry_ok_def)
    next
      case (Cons d ds)
      obtain k' p' where d: "d = (k', p')" by (cases d)
      have "k \<noteq> k'" using ok \<open>pending r = e # es\<close> Cons d e by (auto simp: reasm_ok_def)
      then have "ucast k \<noteq> next_seq r \<or> ucast k' \<noteq> next_seq r" using ucast_eq_iff [OF n] by metis
      then show ?thesis using \<open>pending r = e # es\<close> Cons d e by (auto simp: disrupted_def)
    qed
  qed
qed

theorem disrupted_iff_witness: "\<not> disrupted (new_reassembler 5 None)"
  using disrupted_iff [OF reassembling.start, of 5 None] by (simp add: new_reassembler_def)

end
