(* ===== verification/Keys.thy ===== *)
theory Keys
  imports Fragment DtlsRecord
begin

text \<open>
  \<open>internal/dtls13/keys.go\<close>, \<open>schedule.go\<close> and \<open>newTrafficKeys\<close> of \<open>protection.go\<close>: cipher suites,
  labelled key derivation and the key schedule.  The primitives (hash, HMAC, HKDF, the block and
  stream ciphers) are the fields of a \<open>crypto\<close> argument; a running \<open>hash.Hash\<close> is the list of bytes
  written to it.  \<open>label_info_inj\<close> is the separation of derived keys: the HKDF info string determines
  length, label and context.
\<close>

datatype hash_id = SHA256 | SHA384

record aead =
  a_Seal :: "byte list \<Rightarrow> byte list \<Rightarrow> byte list \<Rightarrow> byte list"
  a_Open :: "byte list \<Rightarrow> byte list \<Rightarrow> byte list \<Rightarrow> byte list option"
  a_Overhead :: nat

record crypto =
  hash_Size :: "hash_id \<Rightarrow> nat"
  hash_Sum :: "hash_id \<Rightarrow> byte list \<Rightarrow> byte list"
  hmac_Sum :: "hash_id \<Rightarrow> byte list \<Rightarrow> byte list \<Rightarrow> byte list"
  hkdf_Extract :: "hash_id \<Rightarrow> byte list \<Rightarrow> byte list \<Rightarrow> dtls_error + byte list"
  hkdf_Expand :: "hash_id \<Rightarrow> byte list \<Rightarrow> byte list \<Rightarrow> nat \<Rightarrow> dtls_error + byte list"
  aes_NewCipher :: "byte list \<Rightarrow> dtls_error + (byte list \<Rightarrow> byte list)"
  cipher_NewGCM :: "(byte list \<Rightarrow> byte list) \<Rightarrow> dtls_error + aead"
  chacha20poly1305_New :: "byte list \<Rightarrow> dtls_error + aead"
  chacha20_NewUnauthenticatedCipher :: "byte list \<Rightarrow> byte list \<Rightarrow> (u32 \<Rightarrow> byte list \<Rightarrow> byte list) option"

definition aes128GCM :: u16 where "aes128GCM = 0x1301"
definition aes256GCM :: u16 where "aes256GCM = 0x1302"
definition chaCha20Poly1305 :: u16 where "chaCha20Poly1305 = 0x1303"

lemmas suite_ids = aes128GCM_def aes256GCM_def chaCha20Poly1305_def

record cipherSuite =
  suite_id :: u16
  suite_hash :: hash_id
  suite_keyLen :: nat
  suite_recordLimit :: u64

definition cipherSuites :: "cipherSuite list" where
  "cipherSuites =
     [\<lparr>suite_id = aes128GCM, suite_hash = SHA256, suite_keyLen = 16, suite_recordLimit = 2 ^ 24\<rparr>,
      \<lparr>suite_id = aes256GCM, suite_hash = SHA384, suite_keyLen = 32, suite_recordLimit = 2 ^ 24\<rparr>,
      \<lparr>suite_id = chaCha20Poly1305, suite_hash = SHA256, suite_keyLen = 32, suite_recordLimit = 2 ^ 48\<rparr>]"

definition suiteFor :: "u16 \<Rightarrow> dtls_error + cipherSuite" where
  "suiteFor i =
     (case List.find (\<lambda>suite. suite_id suite = i) cipherSuites of Some suite \<Rightarrow> Inr suite | None \<Rightarrow> Inl errCipherSuite)"

definition ascii :: "string \<Rightarrow> byte list" where
  "ascii s = map (\<lambda>c. of_nat (of_char c)) s"

definition label_prefix :: "byte list" where "label_prefix = ascii ''dtls13''"

definition label_info :: "nat \<Rightarrow> byte list \<Rightarrow> byte list \<Rightarrow> byte list" where
  "label_info len label context =
     be_enc 2 len @ (of_nat (length label) + of_nat (length label_prefix)) # label_prefix @ label @
     of_nat (length context) # context"

definition expandLabel ::
  "crypto \<Rightarrow> hash_id \<Rightarrow> byte list \<Rightarrow> string \<Rightarrow> byte list \<Rightarrow> nat \<Rightarrow> dtls_error + byte list" where
  "expandLabel C h secret label context len =
     (let labelLen = length label; contextLen = length context in
      if labelLen = 0 \<or> 255 - length label_prefix < labelLen \<or> 255 < contextLen \<or> 65535 < len
      then Inl errHKDFLabel
      else if 255 * hash_Size C h < len then Inl errHKDFLabel
      else hkdf_Expand C h secret (label_info len (ascii label) context) len)"

definition keys_with :: "cipherSuite \<Rightarrow> aead \<Rightarrow> sn_key \<Rightarrow> byte list \<Rightarrow> trafficKeys" where
  "keys_with suite a sn iv =
     \<lparr>aead_Seal = a_Seal a, aead_Open = a_Open a, aead_Overhead = a_Overhead a, tk_sn = sn,
      recordLimit = suite_recordLimit suite, tk_iv = iv\<rparr>"

definition newTrafficKeys :: "crypto \<Rightarrow> u16 \<Rightarrow> byte list \<Rightarrow> dtls_error + trafficKeys" where
  "newTrafficKeys C i secret =
     bind_ok (suiteFor i) (\<lambda>suite.
     if length secret \<noteq> hash_Size C (suite_hash suite) then Inl errKeyMaterial
     else
       bind_ok (expandLabel C (suite_hash suite) secret ''key'' [] (suite_keyLen suite)) (\<lambda>key.
       bind_ok (expandLabel C (suite_hash suite) secret ''iv'' [] 12) (\<lambda>iv.
       bind_ok (expandLabel C (suite_hash suite) secret ''sn'' [] (suite_keyLen suite)) (\<lambda>snKey.
       if i = aes128GCM \<or> i = aes256GCM then
         bind_ok (aes_NewCipher C key) (\<lambda>block.
         bind_ok (cipher_NewGCM C block) (\<lambda>a.
         bind_ok (aes_NewCipher C snKey) (\<lambda>sn. Inr (keys_with suite a (SnBlock sn) iv))))
       else if i = chaCha20Poly1305 then
         bind_ok (chacha20poly1305_New C key) (\<lambda>a.
         Inr (keys_with suite a (SnChaCha (chacha20_NewUnauthenticatedCipher C snKey)) iv))
       else Inl errCipherSuite))))"

record keySchedule =
  ks_suite :: cipherSuite
  ks_transcript :: "byte list"
  master :: "byte list"
  clientHandshake :: "byte list"
  serverHandshake :: "byte list"

definition derive :: "crypto \<Rightarrow> keySchedule \<Rightarrow> byte list \<Rightarrow> string \<Rightarrow> dtls_error + byte list" where
  "derive C ks secret label =
     expandLabel C (suite_hash (ks_suite ks)) secret label
       (hash_Sum C (suite_hash (ks_suite ks)) (ks_transcript ks)) (hash_Size C (suite_hash (ks_suite ks)))"

definition newKeySchedule :: "crypto \<Rightarrow> u16 \<Rightarrow> byte list \<Rightarrow> byte list \<Rightarrow> dtls_error + keySchedule" where
  "newKeySchedule C i shared helloTranscript =
     bind_ok (suiteFor i) (\<lambda>suite.
     if length shared = 0 then Inl errKeyMaterial
     else
       let h = suite_hash suite; zeros = replicate (hash_Size C h) 0 in
       bind_ok (hkdf_Extract C h zeros zeros) (\<lambda>early.
       bind_ok (expandLabel C h early ''derived'' (hash_Sum C h []) (length zeros)) (\<lambda>derived.
       bind_ok (hkdf_Extract C h shared derived) (\<lambda>handshake.
       let s0 = \<lparr>ks_suite = suite, ks_transcript = helloTranscript, master = [],
                 clientHandshake = [], serverHandshake = []\<rparr> in
       bind_ok (derive C s0 handshake ''c hs traffic'') (\<lambda>ch.
       bind_ok (derive C s0 handshake ''s hs traffic'') (\<lambda>sh.
       bind_ok (expandLabel C h handshake ''derived'' (hash_Sum C h []) (length zeros)) (\<lambda>derived'.
       bind_ok (hkdf_Extract C h zeros derived') (\<lambda>m.
       Inr (s0\<lparr>clientHandshake := ch, serverHandshake := sh, master := m\<rparr>)))))))))"

definition ks_write :: "keySchedule \<Rightarrow> handshakeMessage \<Rightarrow> dtls_error + keySchedule" where
  "ks_write ks m = bind_ok (transcript m) (\<lambda>wire. Inr (ks\<lparr>ks_transcript := ks_transcript ks @ wire\<rparr>))"

definition finished :: "crypto \<Rightarrow> keySchedule \<Rightarrow> byte list \<Rightarrow> dtls_error + byte list" where
  "finished C ks secret =
     (let h = suite_hash (ks_suite ks) in
      if length secret \<noteq> hash_Size C h then Inl errKeyMaterial
      else bind_ok (expandLabel C h secret ''finished'' [] (hash_Size C h)) (\<lambda>key.
        Inr (hmac_Sum C h key (hash_Sum C h (ks_transcript ks)))))"

definition applicationSecrets :: "crypto \<Rightarrow> keySchedule \<Rightarrow> dtls_error + byte list \<times> byte list" where
  "applicationSecrets C ks =
     bind_ok (derive C ks (master ks) ''c ap traffic'') (\<lambda>client.
     bind_ok (derive C ks (master ks) ''s ap traffic'') (\<lambda>server. Inr (client, server)))"

definition nextTrafficSecret :: "crypto \<Rightarrow> u16 \<Rightarrow> byte list \<Rightarrow> dtls_error + byte list" where
  "nextTrafficSecret C i secret =
     bind_ok (suiteFor i) (\<lambda>suite.
     if length secret \<noteq> hash_Size C (suite_hash suite) then Inl errKeyMaterial
     else expandLabel C (suite_hash suite) secret ''traffic upd'' [] (hash_Size C (suite_hash suite)))"

definition msgMessageHash :: byte where "msgMessageHash = 254"

definition retryTranscriptHash ::
  "crypto \<Rightarrow> u16 \<Rightarrow> byte list \<Rightarrow> byte list \<Rightarrow> byte list \<Rightarrow> dtls_error + byte list" where
  "retryTranscriptHash C i firstHash retry secondClientHello =
     bind_ok (suiteFor i) (\<lambda>suite.
     if length firstHash \<noteq> hash_Size C (suite_hash suite) then Inl errKeyMaterial
     else
       let w1 = write_vector24 firstHash (writeUint8 msgMessageHash new_writer);
           w2 = w1\<lparr>wr_data := wr_data w1 @ retry\<rparr>;
           w3 = w2\<lparr>wr_data := wr_data w2 @ secondClientHello\<rparr>
       in wr_result w3)"

definition retryTranscript ::
  "crypto \<Rightarrow> u16 \<Rightarrow> byte list \<Rightarrow> byte list \<Rightarrow> byte list \<Rightarrow> dtls_error + byte list" where
  "retryTranscript C i firstClientHello retry secondClientHello =
     bind_ok (suiteFor i) (\<lambda>suite.
     retryTranscriptHash C i (hash_Sum C (suite_hash suite) firstClientHello) retry secondClientHello)"

subsection \<open>Separation of derived keys\<close>

lemma of_nat_byte_inj: "(of_nat m :: byte) = of_nat n \<Longrightarrow> m < 256 \<Longrightarrow> n < 256 \<Longrightarrow> m = n"
  by (metis be_enc_inj [of _ 1] be_enc.simps One_nat_def power_one_right)

lemma ascii_inj [simp]: "ascii s = ascii t \<longleftrightarrow> s = t"
proof -
  have "inj (\<lambda>c :: char. of_nat (of_char c) :: byte)"
    by (rule injI) (metis of_nat_byte_inj nat_of_char_less_256 of_char_eq_iff)
  then show ?thesis by (auto simp: ascii_def inj_map_eq_map)
qed

lemma length_ascii [simp]: "length (ascii s) = length s"
  by (simp add: ascii_def)

lemma label_info_inj:
  assumes "label_info n a c = label_info n' a' c'" "n < 65536" "n' < 65536" "length a < 250" "length a' < 250"
  shows "n = n'" "a = a'" "c = c'"
proof -
  have pre: "length label_prefix = 6" by (simp add: label_prefix_def)
  have e: "be_enc 2 n = be_enc 2 n'"
    and r: "(of_nat (length a) + of_nat (length label_prefix) :: byte) = of_nat (length a') + of_nat (length label_prefix)"
      "a @ of_nat (length c) # c = a' @ of_nat (length c') # c'"
    using assms(1) by (simp_all add: label_info_def)
  show "n = n'" using be_enc_inj [OF _ _ e] assms by simp
  have "(of_nat (length a + 6) :: byte) = of_nat (length a' + 6)" using r(1) by (simp add: pre)
  then have "length a = length a'" using of_nat_byte_inj assms by fastforce
  then show "a = a'" "c = c'" using r(2) by auto
qed

end
