(* ===== verification/MtuSearch.thy ===== *)
theory MtuSearch
  imports DtlsRecord
begin

text \<open>
  \<open>internal/dtls13/pmtu_search.go\<close> and the size arithmetic of \<open>pmtu.go\<close>: the interval search for the
  largest datagram a path carries, and the padding that gives a probe an exact size.  The array of
  lost probe sizes is a list of length three; \<open>- 1\<close> marks an unused slot.
\<close>

definition maxMTUDiff :: int where "maxMTUDiff = 20"
definition maxLostMTUProbes :: nat where "maxLostMTUProbes = 3"
definition maxSearchProbes :: int where "maxSearchProbes = 24"
definition invalidProbeSize :: int where "invalidProbeSize = - 1"
definition rrcCookieLen :: int where "rrcCookieLen = 8"
definition rrcMessageLen :: int where "rrcMessageLen = 1 + rrcCookieLen"

lemmas mtu_consts = maxMTUDiff_def maxLostMTUProbes_def maxSearchProbes_def invalidProbeSize_def
  rrcCookieLen_def rrcMessageLen_def

record mtuFinder =
  floor :: int
  lost :: "int list"
  lastProbeWasLost :: bool
  inFlight :: int
  probes :: int

definition finder_init :: "int \<Rightarrow> int \<Rightarrow> mtuFinder" where
  "finder_init start ceil =
     (let start' = (if start < 1 then 1 else start);
          ceil' = (if ceil < start' then start' else ceil)
      in \<lparr>floor = start', lost = ceil' # replicate (maxLostMTUProbes - 1) invalidProbeSize,
          lastProbeWasLost = False, inFlight = 0, probes = 0\<rparr>)"

text \<open>The loop of \<open>ceiling\<close>: the entry before the first unused slot.\<close>

fun last_valid :: "int \<Rightarrow> int list \<Rightarrow> int" where
  "last_valid prev [] = prev"
| "last_valid prev (v # vs) = (if v = invalidProbeSize then prev else last_valid v vs)"

definition ceiling :: "mtuFinder \<Rightarrow> int" where
  "ceiling f = last_valid (floor f) (lost f)"

definition finder_done :: "mtuFinder \<Rightarrow> bool" where
  "finder_done f \<longleftrightarrow> ceiling f - floor f \<le> maxMTUDiff + 1 \<or> maxSearchProbes \<le> probes f"

definition nextSize :: "mtuFinder \<Rightarrow> int" where
  "nextSize f =
     (if finder_done f then 0
      else
        let size0 = (if lastProbeWasLost f then (floor f + lost f ! 0) div 2 else (floor f + ceiling f) div 2);
            size1 = (if size0 \<le> floor f then floor f + 1 else size0);
            hi = ceiling f;
            size2 = (if hi \<le> size1 \<and> floor f < hi then hi - 1 else size1)
        in if size2 \<le> floor f \<or> ceiling f < size2 then 0 else size2)"

text \<open>The index of the first entry above \<open>sz\<close>, or 0 when there is none.\<close>

fun first_above :: "int \<Rightarrow> nat \<Rightarrow> int list \<Rightarrow> nat" where
  "first_above sz i [] = 0"
| "first_above sz i (v # vs) = (if sz < v then i else first_above sz (Suc i) vs)"

definition onAcked :: "mtuFinder \<Rightarrow> int \<Rightarrow> mtuFinder" where
  "onAcked f sz =
     (let j = first_above sz 0 (lost f) in
      f\<lparr>inFlight := 0, floor := (if floor f < sz then sz else floor f), lastProbeWasLost := False,
        lost := (if 0 < j then drop j (lost f) @ replicate j invalidProbeSize else lost f)\<rparr>)"

text \<open>The loop of \<open>onLost\<close>: the new size goes before the first larger entry, and the array keeps its
  length.\<close>

fun insert_lost :: "int \<Rightarrow> int list \<Rightarrow> int list" where
  "insert_lost sz [] = []"
| "insert_lost sz (v # vs) = (if sz < v then sz # butlast (v # vs) else v # insert_lost sz vs)"

definition onLost :: "mtuFinder \<Rightarrow> int \<Rightarrow> mtuFinder" where
  "onLost f sz = f\<lparr>lastProbeWasLost := True, inFlight := 0, lost := insert_lost sz (lost f)\<rparr>"

definition rejectHard :: "mtuFinder \<Rightarrow> int \<Rightarrow> mtuFinder" where
  "rejectHard f sz = ((\<lambda>g. onLost g sz) ^^ maxLostMTUProbes) f"

definition datagramOverhead :: "int \<Rightarrow> int \<Rightarrow> int" where
  "datagramOverhead cidLen aeadTag =
     1 + (if cidLen < 0 then 0 else cidLen) + int unifiedSeqLen + int unifiedLengthLen + 1 +
     (if aeadTag < 0 then 0 else aeadTag)"

definition rrcProbeOverhead :: "int \<Rightarrow> int \<Rightarrow> int" where
  "rrcProbeOverhead cidLen aeadTag = datagramOverhead cidLen aeadTag + rrcMessageLen"

definition rrcProbePadding :: "int \<Rightarrow> int \<Rightarrow> int \<Rightarrow> dtls_error + int" where
  "rrcProbePadding datagramSize cidLen aeadTag =
     (let overhead = rrcProbeOverhead cidLen aeadTag in
      if datagramSize < overhead then Inl errProbeSize
      else
        let pad = datagramSize - overhead in
        if int maxContent < rrcMessageLen + pad then Inl errRecordOverflow
        else
          let innerLen = rrcMessageLen + 1 + pad in
          if int maxCiphertext < innerLen + aeadTag then Inl errRecordOverflow
          else Inr pad)"

subsection \<open>The searched interval\<close>

lemma nextSize_range: "nextSize f \<noteq> 0 \<Longrightarrow> floor f < nextSize f \<and> nextSize f < ceiling f"
  by (auto simp: nextSize_def finder_done_def Let_def maxMTUDiff_def split: if_splits)

text \<open>\<open>slots vs f\<close>: the used slots hold the sorted sizes \<open>vs\<close>.\<close>

definition slots :: "int list \<Rightarrow> mtuFinder \<Rightarrow> bool" where
  "slots vs f \<longleftrightarrow> lost f = vs @ replicate (maxLostMTUProbes - length vs) invalidProbeSize \<and>
     length vs \<le> maxLostMTUProbes \<and> sorted vs \<and> (\<forall>v \<in> set vs. 1 \<le> v)"

lemma last_valid_slots:
  "\<forall>v \<in> set vs. 1 \<le> v \<Longrightarrow> last_valid p (vs @ replicate k invalidProbeSize) = last (p # vs)"
  by (induction vs arbitrary: p) (auto simp: invalidProbeSize_def, cases k, auto simp: invalidProbeSize_def)

lemma ceiling_slots: "slots vs f \<Longrightarrow> ceiling f = last (floor f # vs)"
  using last_valid_slots by (simp add: ceiling_def slots_def)

lemma finder_init_slots: "slots [max (max 1 start) ceil] (finder_init start ceil)"
  by (auto simp: slots_def finder_init_def Let_def maxLostMTUProbes_def)

lemma insert_lost_slots:
  assumes "\<forall>v \<in> set vs. 1 \<le> v" "0 \<le> sz" "length vs \<le> n"
  shows "insert_lost sz (vs @ replicate (n - length vs) invalidProbeSize) =
    (if \<exists>v \<in> set vs. sz < v
     then take n (takeWhile (\<lambda>v. v \<le> sz) vs @ sz # dropWhile (\<lambda>v. v \<le> sz) vs)
          @ replicate (n - Suc (length vs)) invalidProbeSize
     else vs @ replicate (n - length vs) invalidProbeSize)"
  using assms
proof (induction vs arbitrary: n)
  case Nil
  have "insert_lost sz (replicate n invalidProbeSize) = replicate n invalidProbeSize"
    using Nil(2) by (induction n) (auto simp: invalidProbeSize_def)
  then show ?case by simp
next
  case (Cons v vs)
  then obtain k where n: "n = Suc k" "length vs \<le> k" by (cases n) auto
  show ?case
  proof (cases "sz < v")
    case True
    have "butlast (v # vs @ replicate (k - length vs) invalidProbeSize) =
      take k (v # vs) @ replicate (k - Suc (length vs)) invalidProbeSize"
      using n(2) by (cases "k = length vs") (auto simp: butlast_append butlast_conv_take take_Cons' Suc_diff_Suc)
    then show ?thesis using True n by simp
  next
    case False
    then show ?thesis using Cons n by (auto simp: not_less)
  qed
qed

subsection \<open>A search on a path that carries \<open>P\<close> bytes\<close>

lemma first_above_slots:
  "first_above sz i vs = (if \<exists>v \<in> set vs. sz < v then i + length (takeWhile (\<lambda>v. v \<le> sz) vs) else 0)"
  by (induction vs arbitrary: i) auto

lemma drop_takeWhile: "drop (length (takeWhile Q xs)) xs = dropWhile Q xs"
  by (metis append_eq_conv_conj takeWhile_dropWhile_id)

text \<open>\<open>finder_ok P c f\<close>: the used slots are sorted, not empty, and each is the initial ceiling \<open>c\<close> or a size
  above what the path carries.\<close>

definition finder_ok :: "int \<Rightarrow> int \<Rightarrow> mtuFinder \<Rightarrow> bool" where
  "finder_ok P c f \<longleftrightarrow>
     1 \<le> floor f \<and> floor f \<le> P \<and> (\<exists>vs. vs \<noteq> [] \<and> slots vs f \<and> (\<forall>v \<in> set vs. P < v \<or> v = c))"

lemma slots_onLost:
  assumes "slots vs f" "1 \<le> sz"
  shows "slots (if \<exists>v \<in> set vs. sz < v
      then take maxLostMTUProbes (takeWhile (\<lambda>v. v \<le> sz) vs @ sz # dropWhile (\<lambda>v. v \<le> sz) vs) else vs) (onLost f sz)"
proof (cases "\<exists>v \<in> set vs. sz < v")
  case False
  then show ?thesis
    using assms insert_lost_slots [of vs sz maxLostMTUProbes] by (simp add: slots_def onLost_def)
next
  case True
  define us where "us = takeWhile (\<lambda>v. v \<le> sz) vs @ sz # dropWhile (\<lambda>v. v \<le> sz) vs"
  have len: "length us = Suc (length vs)"
    unfolding us_def by (metis length_append length_Cons add_Suc_right takeWhile_dropWhile_id)
  have vs: "vs = takeWhile (\<lambda>v. v \<le> sz) vs @ dropWhile (\<lambda>v. v \<le> sz) vs" by simp
  have srt: "sorted us"
  proof -
    have "sorted (takeWhile (\<lambda>v. v \<le> sz) vs @ dropWhile (\<lambda>v. v \<le> sz) vs)" using assms by (simp add: slots_def)
    moreover have "\<forall>v \<in> set (dropWhile (\<lambda>v. v \<le> sz) vs). sz \<le> v"
    proof
      fix v assume v: "v \<in> set (dropWhile (\<lambda>v. v \<le> sz) vs)"
      then obtain w ws where w: "dropWhile (\<lambda>v. v \<le> sz) vs = w # ws" "\<not> w \<le> sz"
        by (metis hd_dropWhile list.exhaust list.sel(1) list.set_cases neq_Nil_conv)
      have "sorted (w # ws)" using \<open>sorted (_ @ _)\<close> unfolding w(1) sorted_append by blast
      then show "sz \<le> v" using w v by auto
    qed
    ultimately show ?thesis unfolding us_def sorted_append by (auto dest: set_takeWhileD intro: order_trans)
  qed
  have el: "\<forall>v \<in> set us. 1 \<le> v" using assms unfolding us_def slots_def
    by (auto dest: set_takeWhileD set_dropWhileD)
  have "lost (onLost f sz) = take maxLostMTUProbes us @ replicate (maxLostMTUProbes - Suc (length vs)) invalidProbeSize"
    using assms True insert_lost_slots [of vs sz maxLostMTUProbes] by (simp add: slots_def onLost_def us_def)
  moreover have "maxLostMTUProbes - length (take maxLostMTUProbes us) = maxLostMTUProbes - Suc (length vs)"
    using len by (simp add: min_def)
  ultimately show ?thesis
    using True srt el unfolding us_def [symmetric] slots_def by (auto simp: sorted_wrt_take dest: in_set_takeD)
qed

lemma slots_onAcked:
  assumes "slots vs f" "1 \<le> sz"
  shows "slots (if \<exists>v \<in> set vs. sz < v then dropWhile (\<lambda>v. v \<le> sz) vs else vs) (onAcked f sz)"
proof (cases "\<exists>v \<in> set vs. sz < v")
  case False
  have "first_above sz 0 (lost f) = 0"
    using assms False by (auto simp: first_above_slots slots_def invalidProbeSize_def)
  then show ?thesis using assms False by (simp add: onAcked_def slots_def)
next
  case True
  define k where "k = length (takeWhile (\<lambda>v. v \<le> sz) vs)"
  have lost: "lost f = vs @ replicate (maxLostMTUProbes - length vs) invalidProbeSize" using assms by (simp add: slots_def)
  have "takeWhile (\<lambda>v. v \<le> sz) (lost f) = takeWhile (\<lambda>v. v \<le> sz) vs"
    using True unfolding lost by (metis (mono_tags, lifting) not_less takeWhile_append1)
  then have j: "first_above sz 0 (lost f) = k"
    using True by (auto simp: first_above_slots k_def lost)
  have k: "k \<le> length vs" by (simp add: k_def length_takeWhile_le)
  have "lost (onAcked f sz) = drop k vs @ replicate (maxLostMTUProbes - length vs) invalidProbeSize @ replicate k invalidProbeSize"
    using k j by (simp add: onAcked_def Let_def) (simp add: lost)
  also have "\<dots> = dropWhile (\<lambda>v. v \<le> sz) vs @ replicate (maxLostMTUProbes - length (dropWhile (\<lambda>v. v \<le> sz) vs)) invalidProbeSize"
  proof -
    have "length (dropWhile (\<lambda>v. v \<le> sz) vs) = length vs - k" by (metis k_def drop_takeWhile length_drop)
    moreover have "maxLostMTUProbes - length vs + k = maxLostMTUProbes - (length vs - k)" using k assms by (auto simp: slots_def)
    ultimately show ?thesis by (simp add: k_def drop_takeWhile flip: replicate_add)
  qed
  finally show ?thesis using True assms
    by (auto simp: slots_def sorted_wrt_dropWhile intro: le_trans [OF length_dropWhile_le] dest: set_dropWhileD)
qed


lemma finder_init_ok:
  assumes "start \<le> P" "1 \<le> P"
  shows "finder_ok P (max (max 1 start) ceil) (finder_init start ceil)"
  unfolding finder_ok_def
  using finder_init_slots [of start ceil] assms by (auto simp: finder_init_def Let_def intro!: exI [of _ "[max (max 1 start) ceil]"])

lemma finder_ok_lost:
  assumes "finder_ok P c f" "P < sz"
  shows "finder_ok P c (onLost f sz)"
proof -
  from assms(1) obtain vs where vs: "vs \<noteq> []" "slots vs f" "\<forall>v \<in> set vs. P < v \<or> v = c" "1 \<le> floor f" "floor f \<le> P"
    by (auto simp: finder_ok_def)
  have sz: "1 \<le> sz" using vs assms(2) by linarith
  show ?thesis
  proof (cases "\<exists>v \<in> set vs. sz < v")
    case True
    define us where "us = take maxLostMTUProbes (takeWhile (\<lambda>v. v \<le> sz) vs @ sz # dropWhile (\<lambda>v. v \<le> sz) vs)"
    have "slots us (onLost f sz)" using slots_onLost [OF vs(2) sz] True by (simp add: us_def)
    moreover have "us \<noteq> []" by (simp add: us_def maxLostMTUProbes_def)
    moreover have "\<forall>v \<in> set us. P < v \<or> v = c"
      using vs(3) assms(2) unfolding us_def by (auto dest!: in_set_takeD set_takeWhileD set_dropWhileD)
    ultimately show ?thesis using vs by (auto simp: finder_ok_def onLost_def)
  next
    case False
    then show ?thesis using vs slots_onLost [OF vs(2) sz] by (auto simp: finder_ok_def onLost_def)
  qed
qed

lemma finder_ok_acked:
  assumes "finder_ok P c f" "sz \<le> P" "1 \<le> sz"
  shows "finder_ok P c (onAcked f sz)"
proof -
  from assms(1) obtain vs where vs: "vs \<noteq> []" "slots vs f" "\<forall>v \<in> set vs. P < v \<or> v = c" "1 \<le> floor f" "floor f \<le> P"
    by (auto simp: finder_ok_def)
  have fl: "1 \<le> floor (onAcked f sz)" "floor (onAcked f sz) \<le> P" using vs assms by (auto simp: onAcked_def Let_def)
  show ?thesis
  proof (cases "\<exists>v \<in> set vs. sz < v")
    case True
    moreover from True have "dropWhile (\<lambda>v. v \<le> sz) vs \<noteq> []" by (auto simp: dropWhile_eq_Nil_conv not_le)
    ultimately show ?thesis using vs fl slots_onAcked [OF vs(2) assms(3)]
      by (auto simp: finder_ok_def intro!: exI [of _ "dropWhile (\<lambda>v. v \<le> sz) vs"] dest: set_dropWhileD)
  next
    case False
    then show ?thesis using vs fl slots_onAcked [OF vs(2) assms(3)] by (auto simp: finder_ok_def)
  qed
qed

lemma finder_ok_ceiling: "finder_ok P c f \<Longrightarrow> P < ceiling f \<or> ceiling f = c"
  by (auto simp: finder_ok_def ceiling_slots)

text \<open>The search over a path that carries exactly the datagrams of at most \<open>P\<close> bytes.\<close>

function search :: "int \<Rightarrow> mtuFinder \<Rightarrow> mtuFinder" where
  "search P f =
     (let sz = nextSize f; f1 = f\<lparr>inFlight := sz, probes := probes f + 1\<rparr> in
      if sz = 0 then f else search P (if sz \<le> P then onAcked f1 sz else onLost f1 sz))"
  by pat_completeness auto
termination
  by (relation "measure (\<lambda>(P, f). nat (maxSearchProbes - probes f))")
     (auto simp: nextSize_def finder_done_def onAcked_def onLost_def Let_def split: if_splits)

declare search.simps [simp del]

lemma finder_ok_sending [simp]: "finder_ok P c (f\<lparr>inFlight := a, probes := b\<rparr>) = finder_ok P c f"
  by (simp add: finder_ok_def slots_def)

lemma nextSize_pos: "nextSize f \<noteq> 0 \<Longrightarrow> probes f < maxSearchProbes"
  by (auto simp: nextSize_def finder_done_def split: if_splits)

lemma nextSize_zero:
  assumes "1 \<le> floor f" shows "nextSize f = 0 \<longleftrightarrow> finder_done f"
proof
  assume z: "nextSize f = 0"
  show "finder_done f"
  proof (rule ccontr)
    assume "\<not> finder_done f"
    then show False using z assms
      by (auto simp: nextSize_def finder_done_def Let_def maxMTUDiff_def split: if_splits)
  qed
qed (simp add: nextSize_def)

lemma search_spec:
  assumes "finder_ok P c f" "probes f \<le> maxSearchProbes"
  shows "finder_ok P c (search P f) \<and> floor f \<le> floor (search P f) \<and> finder_done (search P f) \<and>
    probes (search P f) \<le> maxSearchProbes"
  using assms
proof (induction P f rule: search.induct)
  case (1 P f)
  show ?case
  proof (cases "nextSize f = 0")
    case True
    then show ?thesis using 1 nextSize_zero [of f] by (subst (1 2 3 4) search.simps) (simp add: finder_ok_def)
  next
    case False
    define f1 where "f1 = f\<lparr>inFlight := nextSize f, probes := probes f + 1\<rparr>"
    define f2 where "f2 = (if nextSize f \<le> P then onAcked f1 (nextSize f) else onLost f1 (nextSize f))"
    have sz: "1 \<le> nextSize f" using nextSize_range [OF False] 1(2) by (auto simp: finder_ok_def)
    have "finder_ok P c f1" using 1(2) by (simp add: f1_def)
    then have "finder_ok P c f2" using sz by (simp add: f2_def finder_ok_acked finder_ok_lost)
    moreover have "probes f2 \<le> maxSearchProbes" "floor f \<le> floor f2"
      using nextSize_pos [OF False] by (auto simp: f2_def f1_def onAcked_def onLost_def Let_def)
    ultimately show ?thesis
      using 1(1) [OF refl refl False] search.simps [of P f] False by (auto simp: Let_def f2_def f1_def)
  qed
qed

end
