(* ===== verification/Flight.thy ===== *)
theory Flight
  imports Fragment DtlsRecord
begin

text \<open>
  \<open>internal/dtls13/flight.go\<close> and \<open>rtt.go\<close>: the retransmission of handshake flights.  Times are
  nanoseconds on some clock, and the zero \<open>time.Time\<close> is \<open>None\<close>; durations are integers.  The map of
  unacknowledged records is an association list.  The \<open>send\<close> callback is a parameter that carries
  its own state; the loops of \<open>sendRanges\<close> return why they stopped, the number of records sent, the
  flight and that state.
\<close>

type_synonym time = "int option"

definition initialRetransmit :: int where "initialRetransmit = 1000000000"
definition maximumRetransmit :: int where "maximumRetransmit = 60000000000"
definition minRetransmit :: int where "minRetransmit = 100000000"
definition maxFlightRecords :: nat where "maxFlightRecords = 65536"
definition maxFlightRetries :: int where "maxFlightRetries = 8"
definition flightBurst :: nat where "flightBurst = 10"

record outboundMessage =
  out_message :: handshakeMessage
  acknowledged :: "byte list"
  out_sent :: "byte list"
  out_remaining :: int
  sentCount :: int
  emptyAcknowledged :: bool
  emptySent :: bool
  out_resent :: bool

record sentFragment =
  sf_message :: nat
  sf_start :: nat
  sf_end :: nat
  sentAt :: time

record flight =
  messages :: "outboundMessage list"
  fl_sent :: "(recordNumber \<times> sentFragment) list"
  interval :: int
  deadline :: time
  firstSent :: time
  retries :: int
  complete :: bool
  sentOnce :: bool
  ackedSinceSend :: bool
  fl_resent :: bool
  burstWait :: bool

abbreviation blen :: "outboundMessage \<Rightarrow> nat" where
  "blen m \<equiv> length (msg_body (out_message m))"

definition new_outbound :: "handshakeMessage \<Rightarrow> outboundMessage" where
  "new_outbound m =
     \<lparr>out_message = m, acknowledged = replicate (bit_bytes (length (msg_body m))) 0,
      out_sent = replicate (bit_bytes (length (msg_body m))) 0, out_remaining = int (length (msg_body m)),
      sentCount = 0, emptyAcknowledged = False, emptySent = False, out_resent = False\<rparr>"

fun add_messages :: "nat \<Rightarrow> handshakeMessage list \<Rightarrow> dtls_error + outboundMessage list" where
  "add_messages acc [] = Inr []"
| "add_messages acc (m # ms) =
     (let acc' = acc + length (msg_body m) in
      if maxHandshakeBody < length (msg_body m) \<or> 2 * maxHandshakeBody < acc' then Inl errHandshakeLimit
      else bind_ok (add_messages acc' ms) (\<lambda>os. Inr (new_outbound m # os)))"

definition newFlight :: "handshakeMessage list \<Rightarrow> int \<Rightarrow> dtls_error + flight" where
  "newFlight ms ival =
     (if length ms = 0 \<or> maxPendingMessages < length ms then Inl errHandshakeLimit
      else
        let i1 = (if ival \<le> 0 then initialRetransmit else ival);
            i2 = (if maximumRetransmit < i1 then maximumRetransmit else i1)
        in bind_ok (add_messages 0 ms) (\<lambda>os.
             Inr \<lparr>messages = os, fl_sent = [], interval = i2, deadline = None, firstSent = None,
                  retries = 0, complete = False, sentOnce = False, ackedSinceSend = False,
                  fl_resent = False, burstWait = False\<rparr>))"

definition hasByte :: "outboundMessage \<Rightarrow> nat \<Rightarrow> bool" where
  "hasByte m i = has_bit (acknowledged m) i"

definition hasSent :: "outboundMessage \<Rightarrow> nat \<Rightarrow> bool" where
  "hasSent m i = has_bit (out_sent m) i"

subsection \<open>Transmission\<close>

function skip_range :: "outboundMessage \<Rightarrow> bool \<Rightarrow> nat \<Rightarrow> nat" where
  "skip_range m onlyNew start =
     (if start < blen m \<and> (hasByte m start \<or> onlyNew \<and> hasSent m start) then skip_range m onlyNew (Suc start)
      else start)"
  by auto
termination by (relation "measure (\<lambda>(m, onlyNew, start). blen m - start)") auto

function end_range :: "outboundMessage \<Rightarrow> bool \<Rightarrow> nat \<Rightarrow> nat \<Rightarrow> nat \<Rightarrow> nat" where
  "end_range m onlyNew capacity start e =
     (if e < blen m \<and> e - start < capacity \<and> \<not> hasByte m e \<and> (\<not> onlyNew \<or> \<not> hasSent m e)
      then end_range m onlyNew capacity start (Suc e) else e)"
  by auto
termination by (relation "measure (\<lambda>(m, onlyNew, capacity, start, e). blen m - e)") auto

declare skip_range.simps [simp del] end_range.simps [simp del]

text \<open>\<open>mark_sent m i n\<close> marks the \<open>n\<close> bytes from \<open>i\<close> on as sent.\<close>

fun mark_sent :: "outboundMessage \<Rightarrow> nat \<Rightarrow> nat \<Rightarrow> outboundMessage" where
  "mark_sent m i 0 = m"
| "mark_sent m i (Suc n) =
     mark_sent (if hasSent m i then m
                else m\<lparr>out_sent := mark_bit (out_sent m) i, sentCount := sentCount m + 1\<rparr>) (Suc i) n"

definition record_send ::
  "flight \<Rightarrow> int \<Rightarrow> bool \<Rightarrow> nat \<Rightarrow> nat \<Rightarrow> nat \<Rightarrow> recordNumber \<Rightarrow> flight" where
  "record_send f now onlyNew index start e number =
     (let m = messages f ! index;
          m1 = (if \<not> onlyNew then m\<lparr>out_resent := True\<rparr> else m);
          m2 = (if blen m = 0 then m1\<lparr>emptySent := True\<rparr> else mark_sent m1 start (e - start))
      in f\<lparr>firstSent := (if firstSent f = None then Some now else firstSent f),
           fl_resent := (if \<not> onlyNew then True else fl_resent f),
           fl_sent := (number, \<lparr>sf_message = index, sf_start = start, sf_end = e, sentAt = Some now\<rparr>) # fl_sent f,
           messages := (messages f)[index := m2]\<rparr>)"

datatype loop_end = Next | Stop "dtls_error option"

type_synonym 's sender = "'s \<Rightarrow> u64 \<Rightarrow> byte list \<Rightarrow> (dtls_error + recordNumber) \<times> 's"

text \<open>The inner loop of \<open>sendRanges\<close>, for one message from byte \<open>start\<close> on.  The source tests
  \<open>count == flightBurst\<close>; \<open>count\<close> starts below it and grows by one, so the test is \<open>\<le>\<close> here.\<close>

function send_message ::
  "'s sender \<Rightarrow> int \<Rightarrow> nat \<Rightarrow> bool \<Rightarrow> nat \<Rightarrow> nat \<Rightarrow> nat \<Rightarrow> flight \<Rightarrow> 's \<Rightarrow> loop_end \<times> nat \<times> flight \<times> 's" where
  "send_message send now capacity onlyNew index start count f s =
     (let m = messages f ! index; n = blen m in
      if \<not> (start < n \<or> n = 0 \<and> \<not> emptyAcknowledged m) then (Next, count, f, s)
      else
        let start' = skip_range m onlyNew start in
        if start' = n \<and> n \<noteq> 0 then (Next, count, f, s)
        else if n = 0 \<and> onlyNew \<and> emptySent m then (Next, count, f, s)
        else
          let e = end_range m onlyNew capacity start' start' in
          if maxFlightRecords \<le> length (fl_sent f) then (Stop (Some errHandshakeLimit), count, f, s)
          else case fragment (out_message m) (int start') (int (e - start')) of
            Inl err \<Rightarrow> (Stop (Some err), count, f, s)
          | Inr body \<Rightarrow>
              (case send s (msg_epoch (out_message m)) body of
                 (Inl err, s') \<Rightarrow> (Stop (Some err), count, f, s')
               | (Inr number, s') \<Rightarrow>
                   if epoch number \<noteq> msg_epoch (out_message m) then (Stop (Some errRecord), count, f, s')
                   else if map_of (fl_sent f) number \<noteq> None then (Stop (Some errSequence), count, f, s')
                   else
                     let f' = record_send f now onlyNew index start' e number in
                     if flightBurst \<le> Suc count then (Stop None, Suc count, f', s')
                     else if n = 0 then (Next, Suc count, f', s')
                     else send_message send now capacity onlyNew index e (Suc count) f' s'))"
  by pat_completeness auto
termination
  by (relation "measure (\<lambda>(send, now, capacity, onlyNew, index, start, count, f, s). flightBurst - count)") auto

declare send_message.simps [simp del]

fun send_messages ::
  "'s sender \<Rightarrow> int \<Rightarrow> nat \<Rightarrow> bool \<Rightarrow> nat list \<Rightarrow> nat \<Rightarrow> flight \<Rightarrow> 's \<Rightarrow> dtls_error option \<times> nat \<times> flight \<times> 's" where
  "send_messages send now capacity onlyNew [] count f s = (None, count, f, s)"
| "send_messages send now capacity onlyNew (i # is) count f s =
     (case send_message send now capacity onlyNew i 0 count f s of
        (Stop err, count', f', s') \<Rightarrow> (err, count', f', s')
      | (Next, count', f', s') \<Rightarrow> send_messages send now capacity onlyNew is count' f' s')"

definition sendRanges ::
  "'s sender \<Rightarrow> int \<Rightarrow> nat \<Rightarrow> bool \<Rightarrow> flight \<Rightarrow> 's \<Rightarrow> dtls_error option \<times> nat \<times> flight \<times> 's" where
  "sendRanges send now capacity onlyNew f s =
     send_messages send now capacity onlyNew [0..<length (messages f)] 0 f s"

definition pendingSend :: "flight \<Rightarrow> bool" where
  "pendingSend f =
     list_ex (\<lambda>m. if blen m = 0 then \<not> emptyAcknowledged m \<and> \<not> emptySent m else sentCount m < int (blen m)) (messages f)"

definition transmit ::
  "'s sender \<Rightarrow> int \<Rightarrow> int \<Rightarrow> flight \<Rightarrow> 's \<Rightarrow> dtls_error option \<times> flight \<times> 's" where
  "transmit send now capacity f s =
     (if complete f then (None, f, s)
      else if capacity < 1 \<or> int (maxContent - handshakeHeader) < capacity then (Some errRecordOverflow, f, s)
      else case sendRanges send now (nat capacity) True f s of
        (Some err, _, f1, s1) \<Rightarrow> (Some err, f1, s1)
      | (None, count, f1, s1) \<Rightarrow>
          (case (if count = 0 then sendRanges send now (nat capacity) False f1 s1 else (None, count, f1, s1)) of
             (Some err, _, f2, s2) \<Rightarrow> (Some err, f2, s2)
           | (None, _, f2, s2) \<Rightarrow>
               let f3 = (if \<not> pendingSend f2 then f2\<lparr>sentOnce := True\<rparr> else f2)
               in (None, f3\<lparr>deadline := Some (now + interval f3)\<rparr>, s2)))"

subsection \<open>Acknowledgement\<close>

text \<open>\<open>now.Sub(at)\<close>: the difference of two times, held at the ends of the 64-bit range.\<close>

definition time_Sub :: "int \<Rightarrow> int \<Rightarrow> int" where
  "time_Sub now at = max (- (2 ^ 63)) (min (2 ^ 63 - 1) (now - at))"

text \<open>\<open>mark_acked m i n progress\<close> marks the \<open>n\<close> bytes from \<open>i\<close> on as acknowledged.\<close>

fun mark_acked :: "outboundMessage \<Rightarrow> nat \<Rightarrow> nat \<Rightarrow> bool \<Rightarrow> outboundMessage \<times> bool" where
  "mark_acked m i 0 progress = (m, progress)"
| "mark_acked m i (Suc n) progress =
     (if hasByte m i then mark_acked m (Suc i) n progress
      else mark_acked (m\<lparr>acknowledged := mark_bit (acknowledged m) i, out_remaining := out_remaining m - 1\<rparr>)
             (Suc i) n True)"

fun ack_records :: "recordNumber list \<Rightarrow> bool \<Rightarrow> int \<Rightarrow> flight \<Rightarrow> bool \<Rightarrow> int \<Rightarrow> bool \<times> int \<times> flight" where
  "ack_records [] authenticated now f progress rtt = (progress, rtt, f)"
| "ack_records (number # ns) authenticated now f progress rtt =
     (case map_of (fl_sent f) number of
        None \<Rightarrow> ack_records ns authenticated now f progress rtt
      | Some part \<Rightarrow>
          if \<not> authenticated \<and> epoch number \<noteq> 0 then ack_records ns authenticated now f progress rtt
          else
            let m = messages f ! sf_message part;
                rtt' = (case sentAt part of
                          Some at \<Rightarrow>
                            if authenticated \<and> \<not> out_resent m \<and> at < now \<and> (rtt = 0 \<or> time_Sub now at < rtt)
                            then time_Sub now at else rtt
                        | None \<Rightarrow> rtt);
                empty = (blen m = 0 \<and> \<not> emptyAcknowledged m);
                m1 = (if empty then m\<lparr>emptyAcknowledged := True\<rparr> else m);
                (m2, progress') = mark_acked m1 (sf_start part) (sf_end part - sf_start part) (progress \<or> empty)
            in ack_records ns authenticated now
                 (f\<lparr>messages := (messages f)[sf_message part := m2], fl_sent := AList.delete number (fl_sent f)\<rparr>)
                 progress' rtt')"

definition finish :: "flight \<Rightarrow> flight" where
  "finish f = f\<lparr>complete := True, deadline := None, messages := [], fl_sent := []\<rparr>"

definition acknowledge :: "flight \<Rightarrow> recordNumber list \<Rightarrow> bool \<Rightarrow> int \<Rightarrow> bool \<times> int \<times> flight" where
  "acknowledge f records authenticated now =
     (if complete f then (False, 0, f)
      else
        let (progress, rtt, f1) = ack_records records authenticated now f False 0;
            f2 = (if progress then f1\<lparr>retries := 0, ackedSinceSend := True\<rparr> else f1)
        in if list_ex (\<lambda>m. out_remaining m \<noteq> 0 \<or> blen m = 0 \<and> \<not> emptyAcknowledged m) (messages f2)
           then (progress, rtt, f2)
           else (progress, rtt, finish f2))"

subsection \<open>Timers\<close>

definition expire :: "flight option \<Rightarrow> int \<Rightarrow> (dtls_error + bool) \<times> flight option" where
  "expire fo now =
     (case fo of
        None \<Rightarrow> (Inr False, None)
      | Some f \<Rightarrow>
          (case deadline f of
             None \<Rightarrow> (Inr False, Some f)
           | Some d \<Rightarrow>
               if complete f \<or> now < d then (Inr False, Some f)
               else if \<not> pendingSend f then
                 (if retries f = maxFlightRetries then (Inl errHandshakeTimeout, Some f)
                  else
                    let i = min (2 * interval f) maximumRetransmit in
                    (Inr True, Some (f\<lparr>retries := retries f + 1, fl_resent := True, interval := i,
                                       deadline := Some (now + i)\<rparr>)))
               else (Inr True, Some (f\<lparr>burstWait := True, deadline := Some (now + interval f)\<rparr>))))"

definition flightDeadline :: "flight option \<Rightarrow> time" where
  "flightDeadline fo = (case fo of None \<Rightarrow> None | Some f \<Rightarrow> if complete f then None else deadline f)"

definition clampDuration :: "int \<Rightarrow> int \<Rightarrow> int \<Rightarrow> int" where
  "clampDuration d lo hi = (if d < lo then lo else if hi < d then hi else d)"

text \<open>The round-trip estimate is the one field of the session that \<open>rtt.go\<close> reads and writes.  Go's
  division truncates toward zero, which is \<open>div\<close> on the positive values divided here.  A duration is a 64-bit
  integer, and no check of the sources bounds a sample from above: the sum wraps around.\<close>

definition retransmitTimer :: "int \<Rightarrow> int" where
  "retransmitTimer rtt =
     (if rtt \<le> 0 then initialRetransmit else clampDuration (wrap64 (rtt + rtt div 2)) minRetransmit maximumRetransmit)"

definition ackDelay :: "int \<Rightarrow> int" where
  "ackDelay rtt = retransmitTimer rtt div 4"

definition noteRTT :: "int \<Rightarrow> int \<Rightarrow> flight option \<Rightarrow> int \<times> flight option" where
  "noteRTT rtt sample fo =
     (if sample \<le> 0 then (rtt, fo)
      else (sample, map_option (\<lambda>f. if \<not> fl_resent f then f\<lparr>interval := retransmitTimer sample\<rparr> else f) fo))"

definition noteFlightRTT :: "int \<Rightarrow> flight option \<Rightarrow> int \<Rightarrow> int" where
  "noteFlightRTT rtt fo now =
     (case fo of
        None \<Rightarrow> rtt
      | Some f \<Rightarrow>
          (case firstSent f of
             None \<Rightarrow> rtt
           | Some at \<Rightarrow>
               if complete f \<or> fl_resent f \<or> burstWait f \<or> now \<le> at then rtt
               else fst (noteRTT rtt (time_Sub now at) None)))"

end
