(* ===== verification/SessionState.thy ===== *)
theory SessionState
  imports Keys MtuSearch Flight Ack
begin

text \<open>
  The state of \<open>internal/dtls13/session.go\<close> and its write path.  A \<open>session\<close> holds what the Go struct
  holds, grouped as there; the maps of epochs and of flights are association lists.  Three further
  fields stand for what the session calls: \<open>handler\<close> is the private state of the handshake behind
  \<open>handleHandshake\<close>, \<open>prims\<close> the cryptographic primitives, and \<open>world\<close> the transport, the random source
  and the connection's hooks.  The world lists the outcomes of the following sends and hook calls
  (an empty list means success) and logs every datagram handed to the transport, newest first, with
  the path it was addressed to (\<open>None\<close> for the session's own \<open>send\<close>).  Its ledger \<open>sealed\<close> keeps, for every
  record that was given a number, that number, the keys it was encoded with and the packet; nothing
  reads the ledger.

  An operation that can fail is an \<open>act\<close>: it returns an error or a value, and the state, which an
  error path may have changed as well.
\<close>

type_synonym ('s, 'a) act = "'s \<Rightarrow> (dtls_error + 'a) \<times> 's"

definition andthen :: "('s, 'a) act \<Rightarrow> ('a \<Rightarrow> ('s, 'b) act) \<Rightarrow> ('s, 'b) act" where
  "andthen m f s = (case m s of (Inl e, s') \<Rightarrow> (Inl e, s') | (Inr x, s') \<Rightarrow> f x s')"

definition ok :: "'a \<Rightarrow> ('s, 'a) act" where "ok x s = (Inr x, s)"
definition fail :: "dtls_error \<Rightarrow> ('s, 'a) act" where "fail e s = (Inl e, s)"

subsection \<open>State\<close>

record addrPort =
  ap_addr :: "byte list"
  ap_zone :: string
  ap_port :: u16

definition IsValid :: "addrPort \<Rightarrow> bool" where "IsValid a \<longleftrightarrow> ap_addr a \<noteq> []"

record packetPath =
  remote :: addrPort
  local_id :: u64

datatype pathPhase = pathValidateOld | pathValidateCandidate

record pathProbe =
  candidate :: packetPath
  pp_phase :: pathPhase
  pp_cookie :: "byte list"
  pp_deadline :: time
  credit :: nat
  pp_cid :: "byte list"

record pathState =
  peer :: packetPath
  probe :: "pathProbe option"
  path_highest :: recordNumber
  path_seen :: bool
  allowPeer :: "(addrPort \<Rightarrow> bool) option"
  has_changed :: bool

record readEpoch =
  rk_keys :: trafficKeys
  rk_secret :: "byte list"
  rk_window :: replayWindow
  failures :: u64

record writeEpoch =
  wk_keys :: "trafficKeys option"
  wk_secret :: "byte list"
  wk_sequence :: u64

record ackState =
  ack_pending :: "recordNumber list"
  ack_deadline :: time

record trafficEpochs =
  ep_read :: "(u64 \<times> readEpoch) list"
  ep_write :: "(u64 \<times> writeEpoch) list"
  installed :: byte
  readApplicationEpoch :: u64

record keyUpdateState =
  localPending :: bool
  requestPeer :: bool
  awaitingPeer :: bool
  updating :: bool

text \<open>\<open>local_cids\<close> is \<open>None\<close> for the nil slice.\<close>

record cidState =
  local_cids :: "byte list list option"
  immediate :: "byte list list"
  peerSpare :: "byte list list"
  requested :: bool
  want :: bool
  response :: "byte option"
  has_setLocal :: bool

record workingMTU =
  pathMTU :: int
  reductions :: int
  lastSendSize :: int
  canProbe :: bool

datatype mtuPhase = mtuDisabled | mtuConfirm | mtuSearch | mtuWatch
datatype mtuProbeKind = probeConfirm | probeSearch

record mtuProbe =
  mp_cookie :: "byte list"
  mp_size :: int
  mp_generation :: u64
  mp_deadline :: int
  mp_path :: packetPath
  mp_kind :: mtuProbeKind

record mtuDiscovery =
  generation :: u64
  outstanding :: "mtuProbe option"
  phase :: mtuPhase
  finder :: mtuFinder
  nextProbe :: time
  raiseAt :: time
  confirmAt :: time
  confirmFails :: int
  appSinceProbe :: bool
  searchAfterConfirm :: bool

record Config =
  cfg_MTU :: int
  UnfragmentedProbes :: bool
  ConnectionIDLength :: nat
  HandshakeTimeout :: int
  HandshakeReadTimeout :: int
  DisableHandshakeTimeout :: bool
  MaxConnections :: nat
  AcceptPeer :: "(addrPort \<Rightarrow> bool) option"

record handshakeState =
  hs_config :: "Config option"
  hs_client :: bool
  hs_sequence :: u32
  hs_schedule :: "keySchedule option"
  hs_CipherSuite :: u16
  localCID :: "byte list"
  peerCID :: "byte list"
  cidNegotiated :: bool
  rrc :: bool
  peerCIDUpdates :: bool
  clientApplication :: "byte list"
  serverApplication :: "byte list"
  hs_complete :: bool

record world =
  tx_log :: "(packetPath option \<times> byte list) list"
  tx_results :: "dtls_error option list"
  random :: "byte list"
  hook_results :: "dtls_error option list"
  demux_cids :: "byte list list"
  path_changes :: "packetPath list"
  sealed :: "(recordNumber \<times> trafficKeys option \<times> byte list) list"

record 'h session =
  handshake :: handshakeState
  handler :: 'h
  handleHandshake ::
    "(handshakeMessage \<Rightarrow> ('h \<times> handshakeState, handshakeMessage list) act) option"
  handshakeReceived :: time
  epochs :: trafficEpochs
  reassembly :: reassembler
  outbound :: "flight option"
  ack :: ackState
  epoch2ReadKeyExpiry :: time
  post :: "(byte \<times> flight) list"
  keyUpdate :: keyUpdateState
  peerClosed :: "recordNumber option"
  cid :: cidState
  path :: "pathState option"
  working :: workingMTU
  mtu :: mtuDiscovery
  rtt :: int
  prims :: crypto
  world :: world

subsection \<open>The world\<close>

fun next_result :: "dtls_error option list \<Rightarrow> dtls_error option \<times> dtls_error option list" where
  "next_result [] = (None, [])"
| "next_result (r # rs) = (r, rs)"

definition transport_send :: "packetPath option \<Rightarrow> byte list \<Rightarrow> ('h session, unit) act" where
  "transport_send dest packet s =
     (let w = world s; (r, rs) = next_result (tx_results w)
      in (case r of None \<Rightarrow> Inr () | Some e \<Rightarrow> Inl e,
          s\<lparr>world := w\<lparr>tx_log := (dest, packet) # tx_log w, tx_results := rs\<rparr>\<rparr>))"

definition rand_Read :: "nat \<Rightarrow> ('h session, byte list) act" where
  "rand_Read n s =
     (let w = world s in
      if length (random w) < n then (Inl ErrRandom, s)
      else (Inr (take n (random w)), s\<lparr>world := w\<lparr>random := drop n (random w)\<rparr>\<rparr>))"

text \<open>The hook \<open>cid.setLocal\<close>, which installs the identifiers that route datagrams to this session.\<close>

definition call_setLocal :: "byte list list \<Rightarrow> ('h session, unit) act" where
  "call_setLocal ids s =
     (if \<not> has_setLocal (cid s) then (Inr (), s)
      else
        let w = world s; (r, rs) = next_result (hook_results w)
        in case r of
             None \<Rightarrow> (Inr (), s\<lparr>world := w\<lparr>hook_results := rs, demux_cids := ids\<rparr>\<rparr>)
           | Some e \<Rightarrow> (Inl e, s\<lparr>world := w\<lparr>hook_results := rs\<rparr>\<rparr>))"

definition isMessageTooLong :: "dtls_error \<Rightarrow> bool" where
  "isMessageTooLong e \<longleftrightarrow> e = ErrMessageTooLong"

definition newSession ::
  "handshakeState \<Rightarrow> 'h \<Rightarrow> (handshakeMessage \<Rightarrow> ('h \<times> handshakeState, handshakeMessage list) act) \<Rightarrow>
   crypto \<Rightarrow> world \<Rightarrow> 'h session" where
  "newSession h private handle C w =
     \<lparr>handshake = h, handler = private, handleHandshake = Some handle, handshakeReceived = None,
      epochs = \<lparr>ep_read = [], ep_write = [(0, \<lparr>wk_keys = None, wk_secret = [], wk_sequence = 0\<rparr>)],
                installed = 0, readApplicationEpoch = 0\<rparr>,
      reassembly = \<lparr>next_seq = 0, pending = [], buffered = 0, budget = None\<rparr>,
      outbound = None, ack = \<lparr>ack_pending = [], ack_deadline = None\<rparr>, epoch2ReadKeyExpiry = None, post = [],
      keyUpdate = \<lparr>localPending = False, requestPeer = False, awaitingPeer = False, updating = False\<rparr>,
      peerClosed = None,
      cid = \<lparr>local_cids = None, immediate = [], peerSpare = [], requested = False, want = False,
             response = None, has_setLocal = False\<rparr>,
      path = None, working = \<lparr>pathMTU = 0, reductions = 0, lastSendSize = 0, canProbe = False\<rparr>,
      mtu = \<lparr>generation = 0, outstanding = None, phase = mtuDisabled,
             finder = \<lparr>floor = 0, lost = [0, 0, 0], lastProbeWasLost = False, inFlight = 0, probes = 0\<rparr>,
             nextProbe = None, raiseAt = None, confirmAt = None, confirmFails = 0, appSinceProbe = False,
             searchAfterConfirm = False\<rparr>,
      rtt = 0, prims = C, world = w\<rparr>"

subsection \<open>Writing records\<close>

definition currentWriteEpoch :: "'h session \<Rightarrow> u64" where
  "currentWriteEpoch s = foldl max 0 (map fst (ep_write (epochs s)))"

text \<open>The bookkeeping of a write, before the packet is handed to the transport.  The ledger gets the number and the
  keys the packet was encoded with.\<close>

definition note_write :: "u64 \<Rightarrow> writeEpoch \<Rightarrow> byte list \<Rightarrow> 'h session \<Rightarrow> 'h session" where
  "note_write ep w packet s =
     s\<lparr>working := (working s)\<lparr>lastSendSize := int (length packet)\<rparr>,
       epochs := (epochs s)\<lparr>ep_write :=
         AList.update ep (w\<lparr>wk_sequence := wk_sequence w + 1\<rparr>) (ep_write (epochs s))\<rparr>,
       world := (world s)\<lparr>sealed :=
         (\<lparr>epoch = ep, sequence = wk_sequence w\<rparr>, wk_keys w, packet) # sealed (world s)\<rparr>\<rparr>"

text \<open>Only the write state of epoch 0 has no keys.\<close>

definition sendRecordLimited ::
  "u64 \<Rightarrow> byte \<Rightarrow> byte list \<Rightarrow> byte list \<Rightarrow> int \<Rightarrow> int \<Rightarrow> (byte list \<Rightarrow> ('h session, unit) act) \<Rightarrow>
   ('h session, recordNumber) act" where
  "sendRecordLimited ep ty body c padding lim send s =
     (case map_of (ep_write (epochs s)) ep of
        None \<Rightarrow> (Inl errKeyMaterial, s)
      | Some w \<Rightarrow>
          let number = \<lparr>epoch = ep, sequence = wk_sequence w\<rparr> in
          if ep = 0 \<and> 2 ^ 48 \<le> wk_sequence w \<or> ep \<noteq> 0 \<and> recordLimit (the (wk_keys w)) \<le> wk_sequence w
          then (Inl errSequence, s)
          else
            case (if ep = 0
                  then (if padding \<noteq> 0 then Inl errRecord else encodePlainRecord ty (sequence number) body)
                  else encodeRecord (the (wk_keys w)) number c ty body padding) of
              Inl e \<Rightarrow> (Inl e, s)
            | Inr packet \<Rightarrow>
                if lim < int (length packet) then (Inl errRecordOverflow, s)
                else andthen (send packet) (\<lambda>_. ok number) (note_write ep w packet s))"

definition defaultPLPMTU :: int where "defaultPLPMTU = 1200"
definition minPathMTU :: int where "minPathMTU = 256"
definition maxMTUReductions :: int where "maxMTUReductions = 8"
definition defaultAEADTag :: nat where "defaultAEADTag = 16"

definition mtuCeiling :: "'h session \<Rightarrow> int" where
  "mtuCeiling s = (case hs_config (handshake s) of None \<Rightarrow> defaultPLPMTU | Some c \<Rightarrow> cfg_MTU c)"

definition effectiveMTU :: "'h session \<Rightarrow> int" where
  "effectiveMTU s = (if 0 < pathMTU (working s) then min (pathMTU (working s)) (mtuCeiling s) else mtuCeiling s)"

definition sendRecordWith ::
  "u64 \<Rightarrow> byte \<Rightarrow> byte list \<Rightarrow> byte list \<Rightarrow> (byte list \<Rightarrow> ('h session, unit) act) \<Rightarrow>
   ('h session, recordNumber) act" where
  "sendRecordWith ep ty body c send s = sendRecordLimited ep ty body c 0 (effectiveMTU s) send s"

definition sendRecord :: "u64 \<Rightarrow> byte \<Rightarrow> byte list \<Rightarrow> ('h session, recordNumber) act" where
  "sendRecord ep ty body s =
     sendRecordWith ep ty body (if cidNegotiated (handshake s) then peerCID (handshake s) else [])
       (transport_send None) s"

definition fragmentBudget :: "int \<Rightarrow> int \<Rightarrow> int" where
  "fragmentBudget m c =
     (let n = m - int handshakeHeader - 5 - c - 17 in
      min (if n < 1 then 1 else n) (int (maxContent - handshakeHeader)))"

definition fragmentCapacity :: "'h session \<Rightarrow> int" where
  "fragmentCapacity s =
     fragmentBudget (effectiveMTU s) (if cidNegotiated (handshake s) then int (length (peerCID (handshake s))) else 0)"

definition reduceHandshakeMTU :: "int \<Rightarrow> 'h session \<Rightarrow> bool \<times> 'h session" where
  "reduceHandshakeMTU tooBig s =
     (let current = effectiveMTU s in
      if current \<le> minPathMTU \<or> maxMTUReductions \<le> reductions (working s) then (False, s)
      else
        let next0 = current div 2;
            next1 = (if minPathMTU < tooBig \<and> tooBig - 1 < next0 then tooBig - 1 else next0);
            next2 = (if next1 < minPathMTU then minPathMTU else next1)
        in if current \<le> next2 then (False, s)
           else (True, s\<lparr>working := (working s)\<lparr>pathMTU := next2, reductions := reductions (working s) + 1\<rparr>\<rparr>))"

definition setWorkingMTU :: "int \<Rightarrow> 'h session \<Rightarrow> 'h session" where
  "setWorkingMTU n s =
     (if n \<le> 0 then s
      else
        let n1 = min n (mtuCeiling s); n2 = (if n1 < minPathMTU then minPathMTU else n1)
        in if n2 \<le> effectiveMTU s then s
           else s\<lparr>working := (working s)\<lparr>pathMTU := n2, reductions := 0\<rparr>\<rparr>)"

definition recordTagLen :: "'h session \<Rightarrow> nat" where
  "recordTagLen s =
     (case map_of (ep_write (epochs s)) (currentWriteEpoch s) of
        Some w \<Rightarrow> (case wk_keys w of Some k \<Rightarrow> aead_Overhead k | None \<Rightarrow> defaultAEADTag)
      | None \<Rightarrow> defaultAEADTag)"

end
