(* ===== verification/Pmtu.thy ===== *)
theory Pmtu
  imports SessionState
begin

text \<open>
  \<open>internal/dtls13/pmtu_discover.go\<close> and \<open>pmtu_probe.go\<close>: discovery of the path MTU with padded
  return-routability challenges.  Durations are nanoseconds.
\<close>

definition probeTimeout :: int where "probeTimeout = 16000000000"
definition probePace :: int where "probePace = 1000000000"
definition raiseTimer :: int where "raiseTimer = 600000000000"
definition confirmTimer :: int where "confirmTimer = 10000000000"
definition maxConfirmFails :: int where "maxConfirmFails = 3"

definition pathChallenge :: byte where "pathChallenge = 0"
definition pathResponse :: byte where "pathResponse = 1"
definition pathDrop :: byte where "pathDrop = 2"

text \<open>\<open>now.Before(t)\<close> and \<open>!now.Before(t)\<close> for a time that may be zero, which is before every \<open>now\<close>.\<close>

definition is_before :: "int \<Rightarrow> time \<Rightarrow> bool" where
  "is_before now t = (case t of None \<Rightarrow> False | Some d \<Rightarrow> now < d)"

definition handshakeAcknowledged :: "'h session \<Rightarrow> bool" where
  "handshakeAcknowledged s \<longleftrightarrow>
     hs_complete (handshake s) \<and> (case outbound s of None \<Rightarrow> True | Some f \<Rightarrow> complete f)"

definition mtuDiscoveryEnabled :: "'h session \<Rightarrow> bool" where
  "mtuDiscoveryEnabled s \<longleftrightarrow>
     canProbe (working s) \<and> handshakeAcknowledged s \<and>
     (case hs_config (handshake s) of None \<Rightarrow> False | Some c \<Rightarrow> UnfragmentedProbes c) \<and>
     rrc (handshake s) \<and> cidNegotiated (handshake s) \<and> path s \<noteq> None"

definition probeCID :: "'h session \<Rightarrow> byte list" where
  "probeCID s = (if cidNegotiated (handshake s) then peerCID (handshake s) else [])"

definition mtuProbeMin :: "'h session \<Rightarrow> int" where
  "mtuProbeMin s = rrcProbeOverhead (int (length (probeCID s))) (int (recordTagLen s))"

definition mtuProbeCeiling :: "'h session \<Rightarrow> int" where
  "mtuProbeCeiling s =
     (let maxPad = int maxContent - rrcMessageLen;
          encoded = rrcProbeOverhead (int (length (probeCID s))) (int (recordTagLen s)) + maxPad
      in min (mtuCeiling s) encoded)"

definition zero_finder :: mtuFinder where
  "zero_finder = \<lparr>floor = 0, lost = [0, 0, 0], lastProbeWasLost = False, inFlight = 0, probes = 0\<rparr>"

definition restartMTUConfirm :: "'h session \<Rightarrow> 'h session" where
  "restartMTUConfirm s =
     (let m = (mtu s)\<lparr>generation := generation (mtu s) + 1, outstanding := None, confirmFails := 0,
                      finder := zero_finder, nextProbe := None, raiseAt := None, confirmAt := None\<rparr>
      in if \<not> mtuDiscoveryEnabled s
         then s\<lparr>mtu := m\<lparr>phase := mtuDisabled, searchAfterConfirm := False\<rparr>\<rparr>
         else s\<lparr>mtu := m\<lparr>phase := mtuConfirm, searchAfterConfirm := True\<rparr>\<rparr>)"

definition noteMTUActivity :: "'h session \<Rightarrow> 'h session" where
  "noteMTUActivity s = s\<lparr>mtu := (mtu s)\<lparr>appSinceProbe := True\<rparr>\<rparr>"

definition onApplicationTooBig :: "'h session \<Rightarrow> 'h session" where
  "onApplicationTooBig s =
     (let (_, s1) = reduceHandshakeMTU (lastSendSize (working s)) s
      in if mtuDiscoveryEnabled s1 then restartMTUConfirm s1 else s1)"

definition scheduleMTUWatch :: "int \<Rightarrow> 'h session \<Rightarrow> 'h session" where
  "scheduleMTUWatch now s =
     s\<lparr>mtu := (mtu s)\<lparr>phase := mtuWatch,
                      raiseAt := (if \<not> is_before now (raiseAt (mtu s)) then Some (now + raiseTimer) else raiseAt (mtu s)),
                      confirmAt := Some (now + confirmTimer), nextProbe := None\<rparr>\<rparr>"

definition beginMTUSearch :: "int \<Rightarrow> 'h session \<Rightarrow> 'h session" where
  "beginMTUSearch now s =
     (let s1 = s\<lparr>mtu := (mtu s)\<lparr>raiseAt := None, finder := finder_init (effectiveMTU s) (mtuProbeCeiling s)\<rparr>\<rparr>
      in if finder_done (finder (mtu s1)) then scheduleMTUWatch now s1
         else s1\<lparr>mtu := (mtu s1)\<lparr>phase := mtuSearch\<rparr>\<rparr>)"

definition onMTUProbeAcked :: "mtuProbe \<Rightarrow> int \<Rightarrow> 'h session \<Rightarrow> 'h session" where
  "onMTUProbeAcked p now s =
     (let s1 = s\<lparr>mtu := (mtu s)\<lparr>nextProbe := Some (now + probePace)\<rparr>\<rparr> in
      case mp_kind p of
        probeConfirm \<Rightarrow>
          let s2 = s1\<lparr>mtu := (mtu s1)\<lparr>confirmFails := 0\<rparr>\<rparr>;
              s3 = (if effectiveMTU s2 < mp_size p then setWorkingMTU (mp_size p) s2 else s2)
          in if searchAfterConfirm (mtu s3) then beginMTUSearch now s3 else scheduleMTUWatch now s3
      | probeSearch \<Rightarrow>
          let s2 = s1\<lparr>mtu := (mtu s1)\<lparr>finder := onAcked (finder (mtu s1)) (mp_size p)\<rparr>\<rparr>;
              s3 = (if effectiveMTU s2 < mp_size p then setWorkingMTU (mp_size p) s2 else s2)
          in if finder_done (finder (mtu s3)) then scheduleMTUWatch now s3 else s3)"

definition onMTUProbeLost :: "int \<Rightarrow> mtuProbeKind \<Rightarrow> int \<Rightarrow> bool \<Rightarrow> 'h session \<Rightarrow> 'h session" where
  "onMTUProbeLost sz kind now hard s =
     (let s1 = s\<lparr>mtu := (mtu s)\<lparr>nextProbe := Some (now + probePace)\<rparr>\<rparr> in
      case kind of
        probeConfirm \<Rightarrow>
          let fails = (if hard then maxConfirmFails else confirmFails (mtu s1) + 1) in
          if fails < maxConfirmFails then s1\<lparr>mtu := (mtu s1)\<lparr>confirmFails := fails\<rparr>\<rparr>
          else
            let (reduced, s2) = reduceHandshakeMTU sz (s1\<lparr>mtu := (mtu s1)\<lparr>confirmFails := 0\<rparr>\<rparr>) in
            if \<not> reduced then scheduleMTUWatch now s2
            else s2\<lparr>mtu := (mtu s2)\<lparr>searchAfterConfirm := True, phase := mtuConfirm\<rparr>\<rparr>
      | probeSearch \<Rightarrow>
          let s2 = s1\<lparr>mtu := (mtu s1)\<lparr>finder := onLost (finder (mtu s1)) sz\<rparr>\<rparr>
          in if finder_done (finder (mtu s2)) then scheduleMTUWatch now s2 else s2)"

definition canSendMTUProbe :: "'h session \<Rightarrow> dtls_error option" where
  "canSendMTUProbe s =
     (if \<not> mtuDiscoveryEnabled s then Some errProbeDisabled
      else if (case path s of Some p \<Rightarrow> probe p \<noteq> None | None \<Rightarrow> False) \<or> localPending (keyUpdate s) \<or> updating (keyUpdate s)
      then Some errProbeBusy
      else if outstanding (mtu s) \<noteq> None then Some errProbePending
      else None)"

text \<open>The callback of \<open>sendMTUProbe\<close>, and its part after the cookie is drawn.\<close>

definition exact_send :: "int \<Rightarrow> byte list \<Rightarrow> ('h session, unit) act" where
  "exact_send datagramSize packet =
     (if int (length packet) \<noteq> datagramSize then fail errProbeSize else transport_send None packet)"

definition launch_probe ::
  "int \<Rightarrow> int \<Rightarrow> mtuProbeKind \<Rightarrow> byte list \<Rightarrow> int \<Rightarrow> byte list \<Rightarrow> ('h session, unit) act" where
  "launch_probe datagramSize now kind c pad cookie s =
     (let probe = \<lparr>mp_cookie = cookie, mp_size = datagramSize, mp_generation = generation (mtu s),
                   mp_deadline = now + probeTimeout, mp_path = peer (the (path s)), mp_kind = kind\<rparr>;
          s1 = s\<lparr>mtu := (mtu s)\<lparr>outstanding := Some probe\<rparr>\<rparr>
      in case sendRecordLimited (currentWriteEpoch s1) contentRRC (pathChallenge # cookie) c pad (mtuCeiling s1)
                (exact_send datagramSize) s1 of
           (Inr _, s2) \<Rightarrow> (Inr (), s2)
         | (Inl e, s2) \<Rightarrow>
             (Inl (if isMessageTooLong e then errProbeTooBig else e), s2\<lparr>mtu := (mtu s2)\<lparr>outstanding := None\<rparr>\<rparr>))"

definition sendMTUProbe :: "int \<Rightarrow> int \<Rightarrow> mtuProbeKind \<Rightarrow> ('h session, unit) act" where
  "sendMTUProbe datagramSize now kind s =
     (case canSendMTUProbe s of
        Some e \<Rightarrow> (Inl e, s)
      | None \<Rightarrow>
          let c = probeCID s; tag = recordTagLen s in
          if mtuCeiling s < datagramSize then (Inl errProbeSize, s)
          else case rrcProbePadding datagramSize (int (length c)) (int tag) of
            Inl e \<Rightarrow> (Inl e, s)
          | Inr pad \<Rightarrow> andthen (rand_Read (nat rrcCookieLen)) (launch_probe datagramSize now kind c pad) s)"

definition sendDiscoveryProbe :: "int \<Rightarrow> int \<Rightarrow> mtuProbeKind \<Rightarrow> 'h session \<Rightarrow> 'h session" where
  "sendDiscoveryProbe size0 now kind s =
     (let minSize = mtuProbeMin s; ceil = mtuProbeCeiling s;
          sz = (if size0 < minSize then minSize else size0)
      in if ceil < sz then scheduleMTUWatch now s
         else if kind = probeSearch \<and> sz \<le> floor (finder (mtu s)) then scheduleMTUWatch now s
         else case sendMTUProbe sz now kind s of
           (Inr _, s1) \<Rightarrow>
             let s2 = (if kind = probeSearch
                       then s1\<lparr>mtu := (mtu s1)\<lparr>finder := (finder (mtu s1))\<lparr>inFlight := sz,
                                               probes := probes (finder (mtu s1)) + 1\<rparr>\<rparr>\<rparr>
                       else s1)
             in s2\<lparr>mtu := (mtu s2)\<lparr>appSinceProbe := False\<rparr>\<rparr>
         | (Inl e, s1) \<Rightarrow>
             if kind = probeSearch \<and> (isMessageTooLong e \<or> e = errProbeTooBig) then
               let s2 = s1\<lparr>mtu := (mtu s1)\<lparr>finder := rejectHard (finder (mtu s1)) sz, nextProbe := Some (now + probePace)\<rparr>\<rparr>
               in if finder_done (finder (mtu s2)) then scheduleMTUWatch now s2 else s2
             else if kind = probeConfirm \<and> (e = errProbeTooBig \<or> isMessageTooLong e) then
               onMTUProbeLost sz probeConfirm now True s1
             else if e = errProbeSize \<or> e = errRecordOverflow then scheduleMTUWatch now s1
             else s1\<lparr>mtu := (mtu s1)\<lparr>nextProbe := Some (now + probePace)\<rparr>\<rparr>)"

text \<open>The search step, which two cases of \<open>tickMTUDiscovery\<close> share.\<close>

definition search_probe :: "int \<Rightarrow> 'h session \<Rightarrow> 'h session" where
  "search_probe now s =
     (let sz = nextSize (finder (mtu s)) in
      if sz = 0 then scheduleMTUWatch now s else sendDiscoveryProbe sz now probeSearch s)"

definition tickMTUDiscovery :: "int \<Rightarrow> 'h session \<Rightarrow> 'h session" where
  "tickMTUDiscovery now s =
     (if outstanding (mtu s) \<noteq> None then s
      else if \<not> mtuDiscoveryEnabled s then s\<lparr>mtu := (mtu s)\<lparr>phase := mtuDisabled\<rparr>\<rparr>
      else
        let s1 = (if phase (mtu s) = mtuDisabled then restartMTUConfirm s else s) in
        if is_before now (nextProbe (mtu s1)) then s1
        else case phase (mtu s1) of
          mtuDisabled \<Rightarrow> s1
        | mtuConfirm \<Rightarrow> sendDiscoveryProbe (effectiveMTU s1) now probeConfirm s1
        | mtuSearch \<Rightarrow> search_probe now s1
        | mtuWatch \<Rightarrow>
            if \<not> appSinceProbe (mtu s1) then s1
            else if raiseAt (mtu s1) \<noteq> None \<and> \<not> is_before now (raiseAt (mtu s1)) then
              let s2 = beginMTUSearch now (s1\<lparr>mtu := (mtu s1)\<lparr>appSinceProbe := False\<rparr>\<rparr>)
              in if phase (mtu s2) = mtuSearch then search_probe now s2 else s2
            else if confirmAt (mtu s1) \<noteq> None \<and> \<not> is_before now (confirmAt (mtu s1)) then
              let s2 = s1\<lparr>mtu := (mtu s1)\<lparr>appSinceProbe := False, phase := mtuConfirm,
                                          searchAfterConfirm := False, confirmFails := 0\<rparr>\<rparr>
              in sendDiscoveryProbe (effectiveMTU s2) now probeConfirm s2
            else s1)"

definition receiveMTUProbe :: "packetPath \<Rightarrow> byte list \<Rightarrow> int \<Rightarrow> 'h session \<Rightarrow> 'h session" where
  "receiveMTUProbe from body now s =
     (case outstanding (mtu s) of
        None \<Rightarrow> s
      | Some p \<Rightarrow>
          if int (length body) \<noteq> rrcMessageLen then s
          else if (case path s of Some q \<Rightarrow> probe q \<noteq> None | None \<Rightarrow> False) \<or> localPending (keyUpdate s) \<or> updating (keyUpdate s)
          then s
          else if hd body \<noteq> pathResponse \<and> hd body \<noteq> pathDrop then s
          else if mp_generation p \<noteq> generation (mtu s) then s
          else if tl body \<noteq> mp_cookie p then s
          else if from \<noteq> mp_path p then s
          else if \<not> now < mp_deadline p then s
          else
            let s1 = s\<lparr>mtu := (mtu s)\<lparr>outstanding := None\<rparr>\<rparr>
            in if hd body = pathDrop then onMTUProbeLost (mp_size p) (mp_kind p) now False s1
               else onMTUProbeAcked p now s1)"

definition tickMTUProbe :: "int \<Rightarrow> 'h session \<Rightarrow> 'h session" where
  "tickMTUProbe now s =
     tickMTUDiscovery now
       (case outstanding (mtu s) of
          None \<Rightarrow> s
        | Some p \<Rightarrow>
            if \<not> now < mp_deadline p
            then onMTUProbeLost (mp_size p) (mp_kind p) now False (s\<lparr>mtu := (mtu s)\<lparr>outstanding := None\<rparr>\<rparr>)
            else s)"

definition earlierDeadline :: "time \<Rightarrow> time \<Rightarrow> time" where
  "earlierDeadline a b =
     (case (a, b) of
        (None, _) \<Rightarrow> b
      | (Some x, Some y) \<Rightarrow> if y < x then Some y else Some x
      | (Some x, None) \<Rightarrow> Some x)"

definition mtuDeadline :: "'h session \<Rightarrow> time" where
  "mtuDeadline s =
     (case outstanding (mtu s) of
        Some p \<Rightarrow> Some (mp_deadline p)
      | None \<Rightarrow>
          if phase (mtu s) = mtuDisabled \<or> \<not> mtuDiscoveryEnabled s then None
          else if phase (mtu s) = mtuWatch then
            (if \<not> appSinceProbe (mtu s) then None else earlierDeadline (confirmAt (mtu s)) (raiseAt (mtu s)))
          else nextProbe (mtu s))"

end
