(* ===== verification/PathValidation.thy ===== *)
theory PathValidation
  imports Pmtu
begin

text \<open>
  \<open>internal/dtls13/path.go\<close>: validation of a new peer address by return-routability challenges, first
  on the old path and then on the candidate.  The operations are methods of the path state and are
  called only when the session has one.  The amplification credit of a candidate is a number: it is at
  most \<open>2 ^ 30\<close> plus three datagrams, so the source's 64-bit additions do not wrap.
\<close>

definition initialPathChallenge :: int where "initialPathChallenge = 1000000000"
definition minPathChallenge :: int where "minPathChallenge = 100000000"
definition maxCredit :: nat where "maxCredit = 2 ^ 30"

abbreviation path_of :: "'h session \<Rightarrow> pathState" where "path_of s \<equiv> the (path s)"

definition set_probe :: "pathProbe option \<Rightarrow> 'h session \<Rightarrow> 'h session" where
  "set_probe pr s = s\<lparr>path := Some ((path_of s)\<lparr>probe := pr\<rparr>)\<rparr>"

definition pathChallengeTimer :: "int \<Rightarrow> int" where
  "pathChallengeTimer t = (if t \<le> 0 then initialPathChallenge else max (wrap64 (3 * t)) minPathChallenge)"

definition recordAfter :: "recordNumber \<Rightarrow> recordNumber \<Rightarrow> bool" where
  "recordAfter a b \<longleftrightarrow> epoch b < epoch a \<or> epoch a = epoch b \<and> sequence b < sequence a"

definition allowed :: "pathState \<Rightarrow> addrPort \<Rightarrow> bool" where
  "allowed p address \<longleftrightarrow> IsValid address \<and> (case allowPeer p of None \<Rightarrow> True | Some f \<Rightarrow> f address)"

text \<open>The callback of \<open>sendMessage\<close>: a datagram to an unvalidated address must be covered by what was
  received from there, and is dropped silently otherwise.\<close>

definition send_limited :: "packetPath \<Rightarrow> nat \<Rightarrow> byte list \<Rightarrow> ('h session, unit) act" where
  "send_limited dest limit' packet s =
     (let p = path_of s in
      if remote dest \<noteq> remote (peer p) then
        (case probe p of
           Some pr \<Rightarrow>
             if dest = candidate pr then
               (if credit pr < length packet then (Inr (), s)
                else transport_send (Some dest) packet (set_probe (Some (pr\<lparr>credit := credit pr - length packet\<rparr>)) s))
             else if limit' < length packet then (Inr (), s)
             else transport_send (Some dest) packet s
         | None \<Rightarrow>
             if limit' < length packet then (Inr (), s)
             else transport_send (Some dest) packet s)
      else transport_send (Some dest) packet s)"

definition sendMessage :: "packetPath \<Rightarrow> byte \<Rightarrow> byte list \<Rightarrow> nat \<Rightarrow> ('h session, unit) act" where
  "sendMessage dest ty cookie limit' s =
     (let c = (case probe (path_of s) of
                 Some pr \<Rightarrow> if dest = candidate pr \<and> pp_phase pr = pathValidateCandidate then pp_cid pr
                            else peerCID (handshake s)
               | None \<Rightarrow> peerCID (handshake s))
      in andthen (sendRecordWith (currentWriteEpoch s) contentRRC (ty # cookie) c (send_limited dest limit'))
           (\<lambda>_. ok ()) s)"

definition challenge :: "int \<Rightarrow> ('h session, unit) act" where
  "challenge now =
     andthen (rand_Read 8) (\<lambda>cookie s.
       let p = path_of s; pr = (the (probe p))\<lparr>pp_cookie := cookie\<rparr>;
           timeout0 = pathChallengeTimer (rtt s);
           (timeout, destination) =
             (if pp_phase pr = pathValidateCandidate then (max timeout0 initialPathChallenge, candidate pr)
              else (timeout0, peer p))
       in sendMessage destination pathChallenge cookie 0
            (set_probe (Some (pr\<lparr>pp_deadline := Some (now + timeout)\<rparr>)) s))"

definition startBasic :: "int \<Rightarrow> ('h session, unit) act" where
  "startBasic now s =
     (let pr = (the (probe (path_of s)))\<lparr>pp_phase := pathValidateCandidate\<rparr>
      in challenge now
           (case peerSpare (cid s) of
              c # rest \<Rightarrow>
                (set_probe (Some (pr\<lparr>pp_cid := c\<rparr>)) s)
                  \<lparr>cid := (cid s)\<lparr>peerSpare := rest, want := length rest < 2\<rparr>\<rparr>
            | [] \<Rightarrow> set_probe (Some (pr\<lparr>pp_cid := peerCID (handshake s)\<rparr>)) s))"

definition new_probe :: "packetPath \<Rightarrow> nat \<Rightarrow> pathProbe" where
  "new_probe from n =
     \<lparr>candidate = from, pp_phase = pathValidateOld, pp_cookie = replicate 8 0, pp_deadline = None,
      credit = n, pp_cid = []\<rparr>"

definition observe :: "packetPath \<Rightarrow> recordNumber \<Rightarrow> byte \<Rightarrow> nat \<Rightarrow> int \<Rightarrow> ('h session, unit) act" where
  "observe from number ty sz now s =
     (let p = path_of s;
          newest = (\<not> path_seen p \<or> recordAfter number (path_highest p));
          s1 = (if newest then s\<lparr>path := Some (p\<lparr>path_highest := number, path_seen := True\<rparr>)\<rparr> else s)
      in if remote from = remote (peer p) \<or> epoch number < 3 \<or> ty = contentRRC then (Inr (), s1)
         else case probe p of
           Some pr \<Rightarrow>
             (Inr (), if from = candidate pr
                      then set_probe (Some (pr\<lparr>credit := min maxCredit (credit pr + 3 * sz)\<rparr>)) s1 else s1)
         | None \<Rightarrow>
             if \<not> newest \<or> \<not> allowed p (remote from) then (Inr (), s1)
             else challenge now (set_probe (Some (new_probe from (3 * sz))) s1))"

text \<open>A validated candidate becomes the peer; the \<open>changed\<close> callback of the connection records it.\<close>

definition move_peer :: "pathProbe \<Rightarrow> 'h session \<Rightarrow> 'h session" where
  "move_peer pr s =
     (let s' = restartMTUConfirm
                 (s\<lparr>path := Some ((path_of s)\<lparr>peer := candidate pr\<rparr>),
                    handshake := (handshake s)\<lparr>peerCID := pp_cid pr\<rparr>\<rparr>)
      in if has_changed (path_of s')
         then s'\<lparr>world := (world s')\<lparr>path_changes := candidate pr # path_changes (world s')\<rparr>\<rparr>
         else s')"

definition path_receive :: "packetPath \<Rightarrow> byte list \<Rightarrow> nat \<Rightarrow> int \<Rightarrow> ('h session, unit) act" where
  "path_receive from body sz now s =
     (if length body = 0 then (Inl errDecode, s)
      else if pathDrop < hd body then (Inr (), s)
      else if length body \<noteq> 9 then (Inl errDecode, s)
      else if hd body = pathChallenge then
        let p = path_of s;
            s1 = (case probe p of
                    Some pr \<Rightarrow> if from = candidate pr
                               then set_probe (Some (pr\<lparr>credit := min maxCredit (credit pr + 3 * sz)\<rparr>)) s else s
                  | None \<Rightarrow> s);
            response = (if local_id from \<noteq> local_id (peer p) then pathDrop else pathResponse)
        in sendMessage from response (tl body) (3 * sz) s1
      else case probe (path_of s) of
        None \<Rightarrow> (Inr (), s)
      | Some pr \<Rightarrow>
          if tl body \<noteq> pp_cookie pr \<or> \<not> is_before now (pp_deadline pr) then (Inr (), s)
          else
            let expected = (if pp_phase pr = pathValidateOld then peer (path_of s) else candidate pr) in
            if from \<noteq> expected then (Inr (), s)
            else if hd body = pathDrop then
              (if pp_phase pr = pathValidateOld then startBasic now s else (Inr (), s))
            else
              (Inr (), set_probe None (if pp_phase pr = pathValidateCandidate then move_peer pr s else s)))"

definition path_tick :: "int \<Rightarrow> ('h session, unit) act" where
  "path_tick now s =
     (case probe (path_of s) of
        None \<Rightarrow> (Inr (), s)
      | Some pr \<Rightarrow>
          if is_before now (pp_deadline pr) then (Inr (), s)
          else if pp_phase pr = pathValidateOld then startBasic now s
          else (Inr (), set_probe None s))"

end
