(* ===== verification/FlightLemmas.thy ===== *)
theory FlightLemmas
  imports Flight FragmentLemmas
begin

text \<open>
  Lemmas on flights: the bitmaps and counters of one message stay in step, the range loops find
  the bytes that are wanted, \<open>send_steps\<close> is the step relation of the sending loops (one step per
  record handed to the callback), and \<open>flight_ok\<close> is the invariant of a flight.
\<close>

subsection \<open>One outbound message\<close>

definition out_ok :: "outboundMessage \<Rightarrow> bool" where
  "out_ok m \<longleftrightarrow> length (acknowledged m) = bit_bytes (blen m) \<and> length (out_sent m) = bit_bytes (blen m) \<and>
     out_remaining m = int (card (bytes.missing (acknowledged m) (blen m))) \<and>
     sentCount m = int (blen m) - int (card (bytes.missing (out_sent m) (blen m)))"

lemma out_ok_done:
  assumes "out_ok m"
  shows "out_remaining m = 0 \<longleftrightarrow> (\<forall>i < blen m. hasByte m i)" "sentCount m < int (blen m) \<longleftrightarrow> (\<exists>i < blen m. \<not> hasSent m i)"
    "out_remaining m \<ge> 0"
proof -
  show "out_remaining m = 0 \<longleftrightarrow> (\<forall>i < blen m. hasByte m i)" "out_remaining m \<ge> 0"
    using assms bytes.card_missing_0 [of "acknowledged m" "blen m"] by (simp_all add: out_ok_def hasByte_def)
  have "sentCount m < int (blen m) \<longleftrightarrow> int (card (bytes.missing (out_sent m) (blen m))) \<noteq> 0"
    using assms unfolding out_ok_def by linarith
  then show "sentCount m < int (blen m) \<longleftrightarrow> (\<exists>i < blen m. \<not> hasSent m i)"
    unfolding bytes.card_missing_0 hasSent_def by blast
qed

lemma new_outbound_ok [simp]: "out_ok (new_outbound m)" "out_message (new_outbound m) = m"
  by (simp_all add: out_ok_def new_outbound_def)

lemma new_outbound_clear: "i < length (msg_body m) \<Longrightarrow> \<not> hasSent (new_outbound m) i \<and> \<not> hasByte (new_outbound m) i"
  using bit_bytes_cap [of "length (msg_body m)"] by (simp add: hasSent_def hasByte_def new_outbound_def)

lemma mark_sent_frame [simp]:
  "out_message (mark_sent m i n) = out_message m" "acknowledged (mark_sent m i n) = acknowledged m"
  "out_remaining (mark_sent m i n) = out_remaining m" "emptyAcknowledged (mark_sent m i n) = emptyAcknowledged m"
  "emptySent (mark_sent m i n) = emptySent m" "out_resent (mark_sent m i n) = out_resent m"
  by (induction m i n rule: mark_sent.induct) auto

lemma range_Suc: "{i..<i + Suc n} = insert i {Suc i..<Suc i + n}"
  by auto

lemma mark_sent_ok:
  "out_ok m \<Longrightarrow> i + n \<le> blen m \<Longrightarrow>
   out_ok (mark_sent m i n) \<and> (\<forall>j < blen m. hasSent (mark_sent m i n) j \<longleftrightarrow> hasSent m j \<or> j \<in> {i..<i + n})"
proof (induction m i n rule: mark_sent.induct)
  case (2 m i n)
  define m' where "m' = (if hasSent m i then m
                else m\<lparr>out_sent := mark_bit (out_sent m) i, sentCount := sentCount m + 1\<rparr>)"
  have i: "i < blen m" "blen m \<le> 8 * length (out_sent m)"
    using 2(2,3) bit_bytes_cap [of "blen m"] by (simp_all add: out_ok_def)
  have ok: "out_ok m'" "blen m' = blen m"
    using 2(2) bytes.card_missing_mark [OF i] by (simp_all add: m'_def out_ok_def hasSent_def)
  have h: "hasSent m' j \<longleftrightarrow> hasSent m j \<or> i = j" if "j < blen m" for j
    using that i bytes.has_mark [of i "out_sent m" j] by (auto simp: m'_def hasSent_def)
  have "out_ok (mark_sent m' (Suc i) n) \<and>
      (\<forall>j < blen m'. hasSent (mark_sent m' (Suc i) n) j \<longleftrightarrow> hasSent m' j \<or> j \<in> {Suc i..<Suc i + n})"
    using 2(1) ok 2(3) unfolding m'_def by simp
  moreover have "mark_sent m i (Suc n) = mark_sent m' (Suc i) n" by (simp add: m'_def)
  ultimately show ?case unfolding range_Suc using h ok(2) by auto
qed auto

lemma mark_acked_frame [simp]:
  "out_message (fst (mark_acked m i n b)) = out_message m" "out_sent (fst (mark_acked m i n b)) = out_sent m"
  "sentCount (fst (mark_acked m i n b)) = sentCount m"
  "emptyAcknowledged (fst (mark_acked m i n b)) = emptyAcknowledged m"
  "emptySent (fst (mark_acked m i n b)) = emptySent m"
  by (induction m i n b rule: mark_acked.induct) auto

lemma mark_acked_ok:
  "out_ok m \<Longrightarrow> i + n \<le> blen m \<Longrightarrow>
   out_ok (fst (mark_acked m i n b)) \<and>
   (\<forall>j < blen m. hasByte (fst (mark_acked m i n b)) j \<longleftrightarrow> hasByte m j \<or> j \<in> {i..<i + n}) \<and>
   (snd (mark_acked m i n b) \<longleftrightarrow> b \<or> (\<exists>j \<in> {i..<i + n}. \<not> hasByte m j))"
proof (induction m i n b rule: mark_acked.induct)
  case (2 m i n b)
  have i: "i < blen m" "blen m \<le> 8 * length (acknowledged m)"
    using 2(3,4) bit_bytes_cap [of "blen m"] by (simp_all add: out_ok_def)
  have si: "Suc i + n \<le> blen m" using 2(4) by simp
  show ?case
  proof (cases "hasByte m i")
    case True
    then have "mark_acked m i (Suc n) b = mark_acked m (Suc i) n b" by simp
    then show ?thesis unfolding range_Suc using 2(1) [OF True 2(3) si] True by auto
  next
    case False
    define m' where "m' = m\<lparr>acknowledged := mark_bit (acknowledged m) i, out_remaining := out_remaining m - 1\<rparr>"
    have ok: "out_ok m'" "blen m' = blen m"
      using 2(3) False bytes.card_missing_mark [OF i] by (simp_all add: m'_def out_ok_def hasByte_def)
    have h: "hasByte m' j \<longleftrightarrow> hasByte m j \<or> i = j" if "j < blen m" for j
      using that i bytes.has_mark [of i "acknowledged m" j] by (auto simp: m'_def hasByte_def)
    have ih: "out_ok (fst (mark_acked m' (Suc i) n True))"
      "\<forall>j < blen m'. hasByte (fst (mark_acked m' (Suc i) n True)) j \<longleftrightarrow> hasByte m' j \<or> j \<in> {Suc i..<Suc i + n}"
      "snd (mark_acked m' (Suc i) n True)"
      using 2(2) [OF False, folded m'_def] ok si by simp_all
    have eq: "mark_acked m i (Suc n) b = mark_acked m' (Suc i) n True" using False by (simp add: m'_def)
    show ?thesis unfolding eq range_Suc using ih h ok(2) False by auto
  qed
qed auto

subsection \<open>Ranges\<close>

definition wanted :: "outboundMessage \<Rightarrow> bool \<Rightarrow> nat \<Rightarrow> bool" where
  "wanted m onlyNew i \<longleftrightarrow> i < blen m \<and> \<not> hasByte m i \<and> (onlyNew \<longrightarrow> \<not> hasSent m i)"

lemma skip_range_spec:
  "start \<le> blen m \<Longrightarrow> start \<le> skip_range m onlyNew start \<and> skip_range m onlyNew start \<le> blen m \<and>
   (\<forall>i. start \<le> i \<and> i < skip_range m onlyNew start \<longrightarrow> \<not> wanted m onlyNew i) \<and>
   (skip_range m onlyNew start < blen m \<longrightarrow> wanted m onlyNew (skip_range m onlyNew start))"
proof (induction m onlyNew start rule: skip_range.induct)
  case (1 m onlyNew start)
  show ?case
  proof (cases "start < blen m \<and> (hasByte m start \<or> onlyNew \<and> hasSent m start)")
    case True
    then have nw: "\<not> wanted m onlyNew start" by (auto simp: wanted_def)
    have "skip_range m onlyNew start = skip_range m onlyNew (Suc start)"
      by (subst skip_range.simps) (simp only: if_P [OF True])
    moreover have "Suc start \<le> blen m" using True by simp
    note ih = 1(1) [OF True this]
    have "\<not> wanted m onlyNew i" if "start \<le> i" "i < skip_range m onlyNew (Suc start)" for i
      using ih nw that by (cases "i = start") auto
    ultimately show ?thesis using ih by auto
  next
    case False
    have "skip_range m onlyNew start = start" by (subst skip_range.simps) (simp only: if_not_P [OF False])
    then show ?thesis using 1(2) False by (auto simp: wanted_def)
  qed
qed

lemma end_range_spec:
  "start \<le> e \<Longrightarrow> e \<le> blen m \<Longrightarrow> e - start \<le> capacity \<Longrightarrow>
   e \<le> end_range m onlyNew capacity start e \<and> end_range m onlyNew capacity start e \<le> blen m \<and>
   end_range m onlyNew capacity start e - start \<le> capacity \<and>
   (\<forall>i. e \<le> i \<and> i < end_range m onlyNew capacity start e \<longrightarrow> wanted m onlyNew i) \<and>
   (wanted m onlyNew e \<and> e - start < capacity \<longrightarrow> e < end_range m onlyNew capacity start e)"
proof (induction m onlyNew capacity start e rule: end_range.induct)
  case (1 m onlyNew capacity start e)
  let ?c = "e < blen m \<and> e - start < capacity \<and> \<not> hasByte m e \<and> (\<not> onlyNew \<or> \<not> hasSent m e)"
  show ?case
  proof (cases ?c)
    case True
    then have w: "wanted m onlyNew e" by (auto simp: wanted_def)
    have eq: "end_range m onlyNew capacity start e = end_range m onlyNew capacity start (Suc e)"
      by (subst end_range.simps) (simp only: if_P [OF True])
    have "start \<le> Suc e" "Suc e \<le> blen m" "Suc e - start \<le> capacity" using True 1(2) by auto
    note ih = 1(1) [OF True this]
    have "wanted m onlyNew i" if "e \<le> i" "i < end_range m onlyNew capacity start (Suc e)" for i
      using ih w that by (cases "i = e") auto
    then show ?thesis unfolding eq using ih by auto
  next
    case False
    have "end_range m onlyNew capacity start e = e" by (subst end_range.simps) (simp only: if_not_P [OF False])
    then show ?thesis using 1(2-4) False by (auto simp: wanted_def)
  qed
qed

subsection \<open>The invariant\<close>

definition msg_ok :: "outboundMessage \<Rightarrow> bool" where
  "msg_ok m \<longleftrightarrow> out_ok m \<and> (\<forall>i < blen m. hasByte m i \<longrightarrow> hasSent m i)"

definition part_ok :: "outboundMessage list \<Rightarrow> sentFragment \<Rightarrow> bool" where
  "part_ok ms p \<longleftrightarrow> sf_message p < length ms \<and> sf_start p \<le> sf_end p \<and> sf_end p \<le> blen (ms ! sf_message p) \<and>
     (\<forall>i \<in> {sf_start p..<sf_end p}. hasSent (ms ! sf_message p) i)"

definition flight_ok :: "flight \<Rightarrow> bool" where
  "flight_ok f \<longleftrightarrow> (\<forall>m \<in> set (messages f). msg_ok m) \<and> (\<forall>(n, p) \<in> set (fl_sent f). part_ok (messages f) p) \<and>
     distinct (map fst (fl_sent f)) \<and> 0 < interval f \<and> interval f \<le> maximumRetransmit \<and>
     0 \<le> retries f \<and> retries f \<le> maxFlightRetries \<and>
     (complete f \<longrightarrow> messages f = [] \<and> fl_sent f = [] \<and> deadline f = None)"

text \<open>\<open>grows ms ms'\<close>: the same messages, of which at least as much has been sent.\<close>

definition grows :: "outboundMessage list \<Rightarrow> outboundMessage list \<Rightarrow> bool" where
  "grows ms ms' \<longleftrightarrow> length ms' = length ms \<and>
     (\<forall>i < length ms. out_message (ms' ! i) = out_message (ms ! i) \<and>
        (\<forall>j < blen (ms ! i). hasSent (ms ! i) j \<longrightarrow> hasSent (ms' ! i) j))"

lemma grows_refl [simp]: "grows ms ms" by (simp add: grows_def)

lemma grows_trans: "grows a b \<Longrightarrow> grows b c \<Longrightarrow> grows a c" by (auto simp: grows_def)

lemma part_ok_grows: "part_ok ms p \<Longrightarrow> grows ms ms' \<Longrightarrow> part_ok ms' p"
  by (auto simp: part_ok_def grows_def)

lemma grows_update:
  assumes "i < length ms" "out_message m' = out_message (ms ! i)"
    "\<forall>j < blen (ms ! i). hasSent (ms ! i) j \<longrightarrow> hasSent m' j"
  shows "grows ms (ms[i := m'])"
  using assms by (auto simp: grows_def nth_list_update)

definition range_ok :: "outboundMessage \<Rightarrow> bool \<Rightarrow> nat \<Rightarrow> nat \<Rightarrow> nat \<Rightarrow> bool" where
  "range_ok m onlyNew capacity start e \<longleftrightarrow> start \<le> e \<and> e \<le> blen m \<and> e - start \<le> capacity \<and>
     (\<forall>i \<in> {start..<e}. wanted m onlyNew i) \<and> (start < e \<or> blen m = 0) \<and>
     (blen m = 0 \<longrightarrow> \<not> emptyAcknowledged m \<and> (onlyNew \<longrightarrow> \<not> emptySent m))"

definition sent_message :: "bool \<Rightarrow> nat \<Rightarrow> nat \<Rightarrow> outboundMessage \<Rightarrow> outboundMessage" where
  "sent_message onlyNew start e m =
     (let m1 = (if \<not> onlyNew then m\<lparr>out_resent := True\<rparr> else m)
      in if blen m = 0 then m1\<lparr>emptySent := True\<rparr> else mark_sent m1 start (e - start))"

lemma sent_message_ok:
  assumes "msg_ok m" "range_ok m onlyNew capacity start e"
  defines "m' \<equiv> sent_message onlyNew start e m"
  shows "msg_ok m'" "out_message m' = out_message m" "emptyAcknowledged m' = emptyAcknowledged m"
    "acknowledged m' = acknowledged m"
    "\<forall>j < blen m. hasSent m' j \<longleftrightarrow> hasSent m j \<or> j \<in> {start..<e}" "blen m = 0 \<Longrightarrow> emptySent m'"
    "emptySent m \<Longrightarrow> emptySent m'"
proof -
  define m1 where "m1 = (if \<not> onlyNew then m\<lparr>out_resent := True\<rparr> else m)"
  have m1: "out_ok m1" "blen m1 = blen m" "hasSent m1 = hasSent m" "hasByte m1 = hasByte m"
    using assms(1) by (auto simp: m1_def msg_ok_def out_ok_def hasSent_def [abs_def] hasByte_def [abs_def])
  have r: "start + (e - start) \<le> blen m1" "start + (e - start) = e"
    using assms(2) by (auto simp: range_ok_def m1)
  note ms = mark_sent_ok [OF m1(1) r(1), unfolded r(2) m1]
  show "out_message m' = out_message m" "emptyAcknowledged m' = emptyAcknowledged m" "acknowledged m' = acknowledged m"
    "emptySent m \<Longrightarrow> emptySent m'" "blen m = 0 \<Longrightarrow> emptySent m'"
    by (auto simp: m'_def sent_message_def Let_def)
  then have hb: "hasByte m' = hasByte m" by (simp add: hasByte_def [abs_def])
  show hs: "\<forall>j < blen m. hasSent m' j \<longleftrightarrow> hasSent m j \<or> j \<in> {start..<e}"
    using ms m1 by (simp add: m'_def sent_message_def m1_def [symmetric] Let_def)
  have "out_ok m'"
  proof (cases "blen m = 0")
    case True
    then show ?thesis using m1(1) by (simp add: m'_def sent_message_def m1_def [symmetric] Let_def out_ok_def)
  next
    case False
    then show ?thesis using ms by (simp add: m'_def sent_message_def m1_def [symmetric] Let_def)
  qed
  then show "msg_ok m'"
    using assms(1) hs hb \<open>out_message m' = out_message m\<close> by (simp add: msg_ok_def)
qed

lemma record_send_simps [simp]:
  "messages (record_send f now b i st e n) = (messages f)[i := sent_message b st e (messages f ! i)]"
  "fl_sent (record_send f now b i st e n) =
     (n, \<lparr>sf_message = i, sf_start = st, sf_end = e, sentAt = Some now\<rparr>) # fl_sent f"
  "interval (record_send f now b i st e n) = interval f" "retries (record_send f now b i st e n) = retries f"
  "complete (record_send f now b i st e n) = complete f" "deadline (record_send f now b i st e n) = deadline f"
  by (simp_all add: record_send_def Let_def sent_message_def)

lemma record_send_ok:
  assumes ok: "flight_ok f" and i: "i < length (messages f)" and r: "range_ok (messages f ! i) b capacity st e"
    and n: "map_of (fl_sent f) n = None" and c: "\<not> complete f"
  shows "flight_ok (record_send f now b i st e n)" "grows (messages f) (messages (record_send f now b i st e n))"
proof -
  have m: "msg_ok (messages f ! i)" using ok i by (simp add: flight_ok_def)
  note s = sent_message_ok [OF m r]
  show g: "grows (messages f) (messages (record_send f now b i st e n))"
    using grows_update [OF i s(2)] s(5) by simp
  have msgs: "\<forall>m \<in> set (messages (record_send f now b i st e n)). msg_ok m"
    using ok s(1) set_update_subset_insert [of "messages f" i] by (fastforce simp: flight_ok_def)
  have new: "part_ok (messages (record_send f now b i st e n)) \<lparr>sf_message = i, sf_start = st, sf_end = e, sentAt = Some now\<rparr>"
    using i r s(2,5) by (auto simp: part_ok_def range_ok_def)
  have old: "part_ok (messages (record_send f now b i st e n)) p" if "(k, p) \<in> set (fl_sent f)" for k p
    using ok that part_ok_grows [OF _ g] by (fastforce simp: flight_ok_def)
  have "n \<notin> fst ` set (fl_sent f)" using n by (simp add: map_of_eq_None_iff)
  then have d: "distinct (map fst (fl_sent (record_send f now b i st e n)))" using ok by (simp add: flight_ok_def)
  have parts: "\<forall>(k, p) \<in> set (fl_sent (record_send f now b i st e n)). part_ok (messages (record_send f now b i st e n)) p"
    using new old by auto
  show "flight_ok (record_send f now b i st e n)"
    unfolding flight_ok_def using msgs parts d ok c by (simp add: flight_ok_def)
qed

subsection \<open>The sending loops as a step relation\<close>

text \<open>The log pairs the index of the message with the fragment handed to the callback.\<close>

inductive send_steps ::
  "'s sender \<Rightarrow> int \<Rightarrow> nat \<Rightarrow> bool \<Rightarrow> flight \<Rightarrow> 's \<Rightarrow> (nat \<times> byte list) list \<Rightarrow> flight \<Rightarrow> 's \<Rightarrow> bool"
  for send now capacity onlyNew f s where
  none: "send_steps send now capacity onlyNew f s [] f s"
| more: "\<lbrakk>send_steps send now capacity onlyNew f s L f1 s1; i < length (messages f1);
    range_ok (messages f1 ! i) onlyNew capacity st e;
    fragment (out_message (messages f1 ! i)) (int st) (int (e - st)) = Inr body;
    send s1 (msg_epoch (out_message (messages f1 ! i))) body = (Inr number, s2);
    epoch number = msg_epoch (out_message (messages f1 ! i)); map_of (fl_sent f1) number = None\<rbrakk> \<Longrightarrow>
    send_steps send now capacity onlyNew f s (L @ [(i, body)]) (record_send f1 now onlyNew i st e number) s2"

lemma send_steps_ok:
  assumes "send_steps send now capacity onlyNew f s L f' s'" "flight_ok f" "\<not> complete f"
  shows "flight_ok f' \<and> \<not> complete f' \<and> grows (messages f) (messages f') \<and> interval f' = interval f \<and> retries f' = retries f"
  using assms
proof (induction rule: send_steps.induct)
  case (more L f1 s1 i st e body number s2)
  then have "flight_ok f1" "\<not> complete f1" "grows (messages f) (messages f1)" "interval f1 = interval f" "retries f1 = retries f" by auto
  with record_send_ok [OF this(1) more(2,3,7) this(2), of now] show ?case by (auto intro: grows_trans)
qed auto

lemma send_steps_trans:
  assumes "send_steps send now capacity onlyNew f1 s1 M f2 s2" "send_steps send now capacity onlyNew f s L f1 s1"
  shows "send_steps send now capacity onlyNew f s (L @ M) f2 s2"
  using assms
proof (induction rule: send_steps.induct)
  case (more M f1' s1' i st e body number s2)
  from send_steps.more [OF more(8) [OF more(9)] more(2-7)] show ?case by simp
qed simp

lemma send_steps_frame:
  assumes "send_steps send now capacity onlyNew f s L f' s'" "i < length (messages f)"
  shows "length (messages f') = length (messages f) \<and>
    out_message (messages f' ! i) = out_message (messages f ! i) \<and>
    acknowledged (messages f' ! i) = acknowledged (messages f ! i) \<and>
    emptyAcknowledged (messages f' ! i) = emptyAcknowledged (messages f ! i) \<and>
    (emptySent (messages f ! i) \<longrightarrow> emptySent (messages f' ! i))"
  using assms
proof (induction rule: send_steps.induct)
  case (more L f1 s1 j st e body number s2)
  have "out_message (sent_message onlyNew st e m) = out_message m \<and> acknowledged (sent_message onlyNew st e m) = acknowledged m \<and>
     emptyAcknowledged (sent_message onlyNew st e m) = emptyAcknowledged m \<and>
     (emptySent m \<longrightarrow> emptySent (sent_message onlyNew st e m))" for m
    by (simp add: sent_message_def Let_def)
  then show ?case using more by (auto simp: nth_list_update)
qed simp

text \<open>What is sent or acknowledged never becomes new again.\<close>

lemma send_steps_wanted:
  assumes st: "send_steps send now capacity onlyNew f s L f' s'" and ok: "flight_ok f" "\<not> complete f"
    and i: "i < length (messages f)" and j: "\<not> wanted (messages f ! i) True j"
  shows "\<not> wanted (messages f' ! i) True j"
proof -
  have "grows (messages f) (messages f')" using send_steps_ok [OF st ok] by simp
  then show ?thesis
    using j send_steps_frame [OF st i] i by (auto simp: wanted_def grows_def hasByte_def)
qed

text \<open>The body of the inner loop once a range has been chosen.\<close>

definition send_body ::
  "'s sender \<Rightarrow> int \<Rightarrow> nat \<Rightarrow> bool \<Rightarrow> nat \<Rightarrow> nat \<Rightarrow> nat \<Rightarrow> nat \<Rightarrow> flight \<Rightarrow> 's \<Rightarrow> loop_end \<times> nat \<times> flight \<times> 's" where
  "send_body send now capacity onlyNew i start e count f s =
     (let m = messages f ! i in
      if maxFlightRecords \<le> length (fl_sent f) then (Stop (Some errHandshakeLimit), count, f, s)
      else case fragment (out_message m) (int start) (int (e - start)) of
        Inl err \<Rightarrow> (Stop (Some err), count, f, s)
      | Inr body \<Rightarrow>
          (case send s (msg_epoch (out_message m)) body of
             (Inl err, s') \<Rightarrow> (Stop (Some err), count, f, s')
           | (Inr number, s') \<Rightarrow>
               if epoch number \<noteq> msg_epoch (out_message m) then (Stop (Some errRecord), count, f, s')
               else if map_of (fl_sent f) number \<noteq> None then (Stop (Some errSequence), count, f, s')
               else
                 let f' = record_send f now onlyNew i start e number in
                 if flightBurst \<le> Suc count then (Stop None, Suc count, f', s')
                 else if blen m = 0 then (Next, Suc count, f', s')
                 else send_message send now capacity onlyNew i e (Suc count) f' s'))"

lemma send_message_body:
  "send_message send now capacity onlyNew i start count f s =
     (let m = messages f ! i; start' = skip_range m onlyNew start in
      if \<not> (start < blen m \<or> blen m = 0 \<and> \<not> emptyAcknowledged m) \<or> start' = blen m \<and> blen m \<noteq> 0 \<or>
         blen m = 0 \<and> onlyNew \<and> emptySent m
      then (Next, count, f, s)
      else send_body send now capacity onlyNew i start' (end_range m onlyNew capacity start' start') count f s)"
  unfolding send_message.simps [of send now capacity onlyNew i start count f s] send_body_def Let_def
  by (simp only: if_distrib if_cancel de_Morgan_disj de_Morgan_conj) simp

lemma send_body_cases:
  assumes "send_body send now capacity onlyNew i start e count f s = (st, count', f', s')"
  obtains (failed) err where "st = Stop (Some err)" "count' = count" "f' = f"
    | (sent) body number s1 where
       "fragment (out_message (messages f ! i)) (int start) (int (e - start)) = Inr body"
       "send s (msg_epoch (out_message (messages f ! i))) body = (Inr number, s1)"
       "epoch number = msg_epoch (out_message (messages f ! i))" "map_of (fl_sent f) number = None"
       "(st, count', f', s') =
          (let f' = record_send f now onlyNew i start e number in
           if flightBurst \<le> Suc count then (Stop None, Suc count, f', s1)
           else if blen (messages f ! i) = 0 then (Next, Suc count, f', s1)
           else send_message send now capacity onlyNew i e (Suc count) f' s1)"
  using assms unfolding send_body_def Let_def
  by (auto split: sum.splits prod.splits if_splits)


text \<open>\<open>covered m k\<close>: every byte of \<open>m\<close> from \<open>k\<close> on is sent or acknowledged.\<close>

definition covered :: "outboundMessage \<Rightarrow> nat \<Rightarrow> bool" where
  "covered m k \<longleftrightarrow> (\<forall>j \<ge> k. \<not> wanted m True j) \<and> (blen m = 0 \<longrightarrow> emptyAcknowledged m \<or> emptySent m)"

definition loop_result :: "bool \<Rightarrow> nat \<Rightarrow> nat \<Rightarrow> flight \<Rightarrow> 's \<Rightarrow> 's \<Rightarrow> nat \<Rightarrow> loop_end \<Rightarrow> bool" where
  "loop_result onlyNew i start f' s' s1 count' st \<longleftrightarrow> count' \<le> flightBurst \<and>
     (case st of
        Next \<Rightarrow> s' = s1 \<and> count' < flightBurst \<and> (onlyNew \<longrightarrow> covered (messages f' ! i) start)
      | Stop None \<Rightarrow> s' = s1 \<and> count' = flightBurst
      | Stop (Some err) \<Rightarrow> True)"

lemma send_message_steps:
  assumes "send_message send now capacity onlyNew i start count f s = (st, count', f', s')"
    and "i < length (messages f)" "start \<le> blen (messages f ! i)" "0 < capacity" "flight_ok f" "\<not> complete f"
    and "count < flightBurst"
  shows "\<exists>L s1. send_steps send now capacity onlyNew f s L f' s1 \<and> count' = count + length L \<and>
    loop_result onlyNew i start f' s' s1 count' st"
  using assms
proof (induction "flightBurst - count" arbitrary: start count f s rule: less_induct)
  case less
  define m where "m = messages f ! i"
  define start' where "start' = skip_range m onlyNew start"
  define e where "e = end_range m onlyNew capacity start' start'"
  have sk: "start \<le> start'" "start' \<le> blen m" "\<And>j. start \<le> j \<Longrightarrow> j < start' \<Longrightarrow> \<not> wanted m onlyNew j"
    "start' < blen m \<Longrightarrow> wanted m onlyNew start'"
    using skip_range_spec [of start m onlyNew] less.prems(3) by (auto simp: start'_def m_def)
  have en: "start' \<le> e" "e \<le> blen m" "e - start' \<le> capacity" "\<And>j. start' \<le> j \<Longrightarrow> j < e \<Longrightarrow> wanted m onlyNew j"
    "wanted m onlyNew start' \<Longrightarrow> start' < e"
    using end_range_spec [of start' start' m capacity onlyNew] sk(2) less.prems(4) by (auto simp: e_def)
  note eq = less.prems(1) [unfolded send_message_body Let_def, folded m_def, folded start'_def, folded e_def]
  note self = send_steps.none [of send now capacity onlyNew f s]
  show ?case
  proof (cases "\<not> (start < blen m \<or> blen m = 0 \<and> \<not> emptyAcknowledged m) \<or> start' = blen m \<and> blen m \<noteq> 0 \<or>
         blen m = 0 \<and> onlyNew \<and> emptySent m")
    case True
    from eq [unfolded if_P [OF True]] have eq': "st = Next" "count' = count" "f' = f" "s' = s"
      by simp_all
    have "covered m start" if onlyNew
      using True sk(3) that less.prems(3) by (auto simp: covered_def wanted_def m_def)
    then show ?thesis using eq' self less.prems(7) by (intro exI [of _ "[]"] exI [of _ s]) (simp add: loop_result_def m_def)
  next
    case False
    from eq [unfolded if_not_P [OF False]] show ?thesis
    proof (cases rule: send_body_cases)
      case (failed err)
      then show ?thesis using self less.prems(7) by (intro exI [of _ "[]"] exI [of _ s]) (simp add: loop_result_def)
    next
      case (sent body number s1)
      have ro: "range_ok (messages f ! i) onlyNew capacity start' e"
      proof -
        have "start' < e \<or> blen m = 0" using sk(2,4) en(5) False by (cases "start' = blen m") auto
        moreover have "blen m = 0 \<longrightarrow> \<not> emptyAcknowledged m \<and> (onlyNew \<longrightarrow> \<not> emptySent m)" using False by auto
        ultimately show ?thesis using en unfolding range_ok_def m_def [symmetric] by simp
      qed
      define f1 where "f1 = record_send f now onlyNew i start' e number"
      have step: "send_steps send now capacity onlyNew f s [(i, body)] f1 s1"
        using send_steps.more [OF self less.prems(2) ro sent(1-4)] by (simp add: f1_def)
      note ok1 = send_steps_ok [OF step less.prems(5,6)]
      note fr = send_steps_frame [OF step less.prems(2)]
      have msg: "msg_ok m" using less.prems(2,5) by (simp add: flight_ok_def m_def)
      have m1: "messages f1 ! i = sent_message onlyNew start' e m" using less.prems(2) by (simp add: f1_def m_def)
      note sm = sent_message_ok [OF msg ro [folded m_def]]
      have old: "\<not> wanted (messages f1 ! i) True j" if "onlyNew" "start \<le> j" "j < e" for j
        using that sk(3) [of j] sm(2,4,5) by (cases "j < start'") (auto simp: m1 wanted_def hasByte_def)
      consider (burst) "flightBurst \<le> Suc count" "st = Stop None" "count' = Suc count" "f' = f1" "s' = s1"
        | (empty) "Suc count < flightBurst" "blen m = 0" "st = Next" "count' = Suc count" "f' = f1" "s' = s1"
        | (again) "Suc count < flightBurst" "blen m \<noteq> 0"
            "send_message send now capacity onlyNew i e (Suc count) f1 s1 = (st, count', f', s')"
        using sent(5) by (fastforce simp: f1_def m_def Let_def split: if_splits)
      then show ?thesis
      proof cases
        case burst
        then show ?thesis using step less.prems(7) by (intro exI [of _ "[(i, body)]"] exI [of _ s1]) (simp add: loop_result_def)
      next
        case empty
        have "covered f1m start" if "f1m = messages f1 ! i" for f1m
          using sm(2,6) empty(2) that by (simp add: covered_def wanted_def m1)
        then show ?thesis using step empty by (intro exI [of _ "[(i, body)]"] exI [of _ s1]) (simp add: loop_result_def)
      next
        case again
        have "e \<le> blen (messages f1 ! i)" using en(2) sm(2) by (simp add: m1)
        with less.hyps [OF _ again(3)] again(1) fr less.prems(2,4) ok1
        obtain L s2 where L: "send_steps send now capacity onlyNew f1 s1 L f' s2" "count' = Suc count + length L"
          "loop_result onlyNew i e f' s' s2 count' st" by fastforce
        have i1: "i < length (messages f1)" using fr less.prems(2) by simp
        have "covered (messages f' ! i) start" if "onlyNew" "covered (messages f' ! i) e"
        proof -
          have "\<not> wanted (messages f' ! i) True j" if "start \<le> j" "j < e" for j
            using send_steps_wanted [OF L(1) _ _ i1 old] ok1 that \<open>onlyNew\<close> by simp
          then show ?thesis using that(2) unfolding covered_def by (meson not_less)
        qed
        then have "loop_result onlyNew i start f' s' s2 count' st"
          using L(3) by (auto simp: loop_result_def split: loop_end.splits option.splits)
        then show ?thesis using send_steps_trans [OF L(1) step] L(2) by (intro exI [of _ "(i, body) # L"] exI [of _ s2]) simp
      qed
    qed
  qed
qed

lemma covered_steps:
  assumes "send_steps send now capacity onlyNew f s L f' s'" "flight_ok f" "\<not> complete f" "i < length (messages f)"
    and "covered (messages f ! i) k"
  shows "covered (messages f' ! i) k"
  using assms(5) send_steps_frame [OF assms(1,4)] send_steps_wanted [OF assms(1-4)]
  by (auto simp: covered_def)

lemma send_messages_steps:
  assumes "send_messages send now capacity onlyNew is count f s = (err, count', f', s')"
    and "\<forall>i \<in> set is. i < length (messages f)" "0 < capacity" "flight_ok f" "\<not> complete f" "count < flightBurst"
  shows "\<exists>L s1. send_steps send now capacity onlyNew f s L f' s1 \<and> count' = count + length L \<and> count' \<le> flightBurst \<and>
    (err = None \<longrightarrow> s' = s1 \<and> (count' = flightBurst \<or> (onlyNew \<longrightarrow> (\<forall>i \<in> set is. covered (messages f' ! i) 0))))"
  using assms
proof (induction "is" arbitrary: count f s)
  case Nil
  then show ?case using send_steps.none by fastforce
next
  case (Cons i "is")
  obtain st c1 f1 s2 where sm: "send_message send now capacity onlyNew i 0 count f s = (st, c1, f1, s2)"
    by (metis prod_cases4)
  have i: "i < length (messages f)" using Cons.prems(2) by simp
  from send_message_steps [OF sm i _ Cons.prems(3-6)] obtain L s1 where
    L: "send_steps send now capacity onlyNew f s L f1 s1" "c1 = count + length L" "loop_result onlyNew i 0 f1 s2 s1 c1 st"
    by auto
  note ok1 = send_steps_ok [OF L(1) Cons.prems(4,5)]
  show ?case
  proof (cases st)
    case Next
    have e: "send_messages send now capacity onlyNew is c1 f1 s1 = (err, count', f', s')"
      and c: "c1 < flightBurst" "onlyNew \<longrightarrow> covered (messages f1 ! i) 0"
      using Cons.prems(1) sm Next L(3) by (auto simp: loop_result_def)
    have len: "length (messages f1) = length (messages f)" using send_steps_frame [OF L(1) i] by simp
    then have "\<forall>j \<in> set is. j < length (messages f1)" using Cons.prems(2) by simp
    from Cons.IH [OF e this Cons.prems(3) _ _ c(1)] ok1 obtain M s3 where
      M: "send_steps send now capacity onlyNew f1 s1 M f' s3" "count' = c1 + length M" "count' \<le> flightBurst"
      "err = None \<longrightarrow> s' = s3 \<and> (count' = flightBurst \<or> (onlyNew \<longrightarrow> (\<forall>i \<in> set is. covered (messages f' ! i) 0)))"
      by auto
    have "onlyNew \<longrightarrow> covered (messages f' ! i) 0"
      using covered_steps [OF M(1)] ok1 c(2) i len by simp
    then show ?thesis
      using send_steps_trans [OF M(1) L(1)] M L(2) by (intro exI [of _ "L @ M"] exI [of _ s3]) auto
  next
    case (Stop x)
    then have "err = x" "count' = c1" "f' = f1" "s' = s2" using Cons.prems(1) sm by auto
    then show ?thesis
      using L Stop by (intro exI [of _ L] exI [of _ s1]) (auto simp: loop_result_def)
  qed
qed

lemma pendingSend_covered:
  assumes "flight_ok f"
  shows "pendingSend f \<longleftrightarrow> (\<exists>i < length (messages f). \<not> covered (messages f ! i) 0)"
proof -
  have "(if blen m = 0 then \<not> emptyAcknowledged m \<and> \<not> emptySent m else sentCount m < int (blen m)) \<longleftrightarrow> \<not> covered m 0"
    if "m \<in> set (messages f)" for m
  proof -
    have "out_ok m" "\<forall>i < blen m. hasByte m i \<longrightarrow> hasSent m i"
      using assms that by (simp_all add: flight_ok_def msg_ok_def)
    then show ?thesis using out_ok_done(2) [of m] by (auto simp: covered_def wanted_def)
  qed
  then have "pendingSend f \<longleftrightarrow> (\<exists>m \<in> set (messages f). \<not> covered m 0)"
    unfolding pendingSend_def list_ex_iff by blast
  then show ?thesis unfolding in_set_conv_nth Bex_def by blast
qed

lemma send_steps_Nil: "send_steps send now capacity onlyNew f s [] f' s' \<Longrightarrow> f' = f \<and> s' = s"
  by (auto elim: send_steps.cases)

lemma sendRanges_steps:
  assumes "sendRanges send now capacity onlyNew f s = (err, count, f', s')" "0 < capacity" "flight_ok f" "\<not> complete f"
  obtains L s1 where "send_steps send now capacity onlyNew f s L f' s1" "count = length L" "count \<le> flightBurst"
    "err = None \<Longrightarrow> s' = s1" "err = None \<Longrightarrow> onlyNew \<Longrightarrow> count < flightBurst \<Longrightarrow> \<not> pendingSend f'"
proof -
  from assms(1) have "send_messages send now capacity onlyNew [0..<length (messages f)] 0 f s = (err, count, f', s')"
    by (simp add: sendRanges_def)
  from send_messages_steps [OF this _ assms(2-4)] obtain L s1 where
    L: "send_steps send now capacity onlyNew f s L f' s1" "count = length L" "count \<le> flightBurst"
    "err = None \<longrightarrow> s' = s1 \<and> (count = flightBurst \<or> (onlyNew \<longrightarrow> (\<forall>i < length (messages f). covered (messages f' ! i) 0)))"
    by (auto simp: flightBurst_def)
  have ok: "flight_ok f'" "length (messages f') = length (messages f)"
    using send_steps_ok [OF L(1) assms(3,4)] by (simp_all add: grows_def)
  show thesis using that [OF L(1-3)] L(4) pendingSend_covered [OF ok(1)] ok(2) by auto
qed

text \<open>What one call of \<open>transmit\<close> does.\<close>

lemma transmit_steps:
  assumes t: "transmit send now capacity f s = (err, f', s')" and ok: "flight_ok f" "\<not> complete f"
    and cap: "1 \<le> capacity" "capacity \<le> int (maxContent - handshakeHeader)"
  obtains onlyNew L f1 s1 where "send_steps send now (nat capacity) onlyNew f s L f1 s1" "length L \<le> flightBurst"
    "messages f' = messages f1" "fl_sent f' = fl_sent f1" "interval f' = interval f1" "retries f' = retries f1"
    "complete f' = complete f1"
    "\<not> onlyNew \<Longrightarrow> \<not> pendingSend f" "err = None \<Longrightarrow> s' = s1 \<and> deadline f' = Some (now + interval f')"
    "err = None \<Longrightarrow> onlyNew \<Longrightarrow> length L = flightBurst \<or> \<not> pendingSend f'"
    "err = None \<Longrightarrow> pendingSend f \<Longrightarrow> L \<noteq> []"
proof -
  have c0: "0 < nat capacity" using cap by simp
  obtain e1 n1 f1 s1 where r1: "sendRanges send now (nat capacity) True f s = (e1, n1, f1, s1)" by (metis prod_cases4)
  obtain L1 t1 where L1: "send_steps send now (nat capacity) True f s L1 f1 t1" "n1 = length L1" "n1 \<le> flightBurst"
    "e1 = None \<Longrightarrow> s1 = t1" "e1 = None \<Longrightarrow> n1 < flightBurst \<Longrightarrow> \<not> pendingSend f1"
    using sendRanges_steps [OF r1 c0 ok] by metis
  have pend: "pendingSend (f1\<lparr>sentOnce := b, deadline := d\<rparr>) = pendingSend f1" "pendingSend (f1\<lparr>deadline := d\<rparr>) = pendingSend f1"
    for b d f1 by (simp_all add: pendingSend_def)
  have cap': "\<not> (capacity < 1 \<or> int (maxContent - handshakeHeader) < capacity)" using cap by simp
  note t' = t [unfolded transmit_def if_not_P [OF ok(2)] if_not_P [OF cap'] r1]
  show thesis
  proof (cases e1)
    case (Some e)
    then have "err = Some e" "f' = f1" "s' = s1" using t' by simp_all
    then show thesis using that [OF L1(1)] L1(2,3) by simp
  next
    case None
    show thesis
    proof (cases "n1 = 0")
      case False
      then have "err = None" "s' = s1" "f' = (if \<not> pendingSend f1 then f1\<lparr>sentOnce := True\<rparr> else f1)\<lparr>deadline := Some (now + interval f1)\<rparr>"
        using t' None by (auto simp: Let_def)
      moreover have "length L1 = flightBurst \<or> \<not> pendingSend f1" using L1(2,3,5) None by fastforce
      ultimately show thesis using that [OF L1(1)] L1(2-4) None False pend by (auto split: if_splits)
    next
      case True
      then have f1: "f1 = f" "t1 = s" using send_steps_Nil [of send now "nat capacity" True f s f1 t1] L1(1,2) by simp_all
      then have np: "\<not> pendingSend f" "s1 = s" using L1(4,5) None True by (simp_all add: flightBurst_def)
      obtain e2 n2 f2 s2 where r2: "sendRanges send now (nat capacity) False f s = (e2, n2, f2, s2)" by (metis prod_cases4)
      obtain L2 t2 where L2: "send_steps send now (nat capacity) False f s L2 f2 t2" "n2 = length L2" "n2 \<le> flightBurst"
        "e2 = None \<Longrightarrow> s2 = t2" using sendRanges_steps [OF r2 c0 ok] by metis
      show thesis
      proof (cases e2)
        case (Some e)
        then have "err = Some e" "f' = f2" "s' = s2" using t' r2 None True f1 np by simp_all
        then show thesis using that [OF L2(1)] L2(2,3) np by simp
      next
        case None
        then have "err = None" "s' = s2" "f' = (if \<not> pendingSend f2 then f2\<lparr>sentOnce := True\<rparr> else f2)\<lparr>deadline := Some (now + interval f2)\<rparr>"
          using t' r2 \<open>e1 = None\<close> True f1 np by (auto simp: Let_def)
        then show thesis using that [OF L2(1)] L2(2-4) None np by (auto split: if_splits)
      qed
    qed
  qed
qed

subsection \<open>Acknowledgements\<close>

text \<open>\<open>credits f ns auth i\<close>: the fragments of message \<open>i\<close> that the record numbers \<open>ns\<close> acknowledge.\<close>

definition credits :: "flight \<Rightarrow> recordNumber list \<Rightarrow> bool \<Rightarrow> nat \<Rightarrow> sentFragment set" where
  "credits f ns auth i =
     {p. sf_message p = i \<and> (\<exists>n \<in> set ns. map_of (fl_sent f) n = Some p \<and> (auth \<or> epoch n = 0))}"

definition credited :: "flight \<Rightarrow> recordNumber list \<Rightarrow> bool \<Rightarrow> nat \<Rightarrow> nat set" where
  "credited f ns auth i = (\<Union>p \<in> credits f ns auth i. {sf_start p..<sf_end p})"

definition ack_one :: "flight \<Rightarrow> recordNumber \<Rightarrow> sentFragment \<Rightarrow> bool \<Rightarrow> flight \<times> bool" where
  "ack_one f n p progress =
     (let m = messages f ! sf_message p;
          empty = (blen m = 0 \<and> \<not> emptyAcknowledged m);
          m1 = (if empty then m\<lparr>emptyAcknowledged := True\<rparr> else m);
          (m2, progress') = mark_acked m1 (sf_start p) (sf_end p - sf_start p) (progress \<or> empty)
      in (f\<lparr>messages := (messages f)[sf_message p := m2], fl_sent := AList.delete n (fl_sent f)\<rparr>, progress'))"

lemma ack_records_Cons:
  "ack_records (n # ns) auth now f progress rtt =
     (case map_of (fl_sent f) n of
        None \<Rightarrow> ack_records ns auth now f progress rtt
      | Some p \<Rightarrow>
          if \<not> auth \<and> epoch n \<noteq> 0 then ack_records ns auth now f progress rtt
          else ack_records ns auth now (fst (ack_one f n p progress)) (snd (ack_one f n p progress))
            (case sentAt p of
               Some at \<Rightarrow>
                 if auth \<and> \<not> out_resent (messages f ! sf_message p) \<and> at < now \<and> (rtt = 0 \<or> time_Sub now at < rtt)
                 then time_Sub now at else rtt
             | None \<Rightarrow> rtt))"
  by (simp add: ack_one_def Let_def case_prod_unfold split: option.split)

definition acked_message :: "sentFragment \<Rightarrow> outboundMessage \<Rightarrow> outboundMessage" where
  "acked_message p m =
     (let m1 = (if blen m = 0 \<and> \<not> emptyAcknowledged m then m\<lparr>emptyAcknowledged := True\<rparr> else m)
      in fst (mark_acked m1 (sf_start p) (sf_end p - sf_start p) False))"

lemma mark_acked_fst: "fst (mark_acked m i n b) = fst (mark_acked m i n c)"
proof (induction n arbitrary: m i b c)
  case (Suc n)
  then show ?case by (cases "hasByte m i") (use Suc.IH [of m "Suc i" b c] in simp_all)
qed simp

lemma ack_one_messages [simp]:
  "messages (fst (ack_one f n p b)) = (messages f)[sf_message p := acked_message p (messages f ! sf_message p)]"
  unfolding ack_one_def acked_message_def Let_def case_prod_unfold
  by (auto intro!: arg_cong [where f = "\<lambda>x. (messages f)[sf_message p := x]"] mark_acked_fst)

lemma ack_one_simps [simp]:
  "fl_sent (fst (ack_one f n p b)) = AList.delete n (fl_sent f)"
  "interval (fst (ack_one f n p b)) = interval f" "retries (fst (ack_one f n p b)) = retries f"
  "complete (fst (ack_one f n p b)) = complete f" "deadline (fst (ack_one f n p b)) = deadline f"
  by (simp_all add: ack_one_def Let_def case_prod_unfold)

lemma acked_message_ok:
  assumes m: "msg_ok m" and p: "sf_start p \<le> sf_end p" "sf_end p \<le> blen m" "\<forall>i \<in> {sf_start p..<sf_end p}. hasSent m i"
  shows "msg_ok (acked_message p m)" "out_message (acked_message p m) = out_message m"
    "hasSent (acked_message p m) = hasSent m" "emptySent (acked_message p m) = emptySent m"
    "\<forall>j < blen m. hasByte (acked_message p m) j \<longleftrightarrow> hasByte m j \<or> j \<in> {sf_start p..<sf_end p}"
    "emptyAcknowledged (acked_message p m) \<longleftrightarrow> emptyAcknowledged m \<or> blen m = 0"
proof -
  define m1 where "m1 = (if blen m = 0 \<and> \<not> emptyAcknowledged m then m\<lparr>emptyAcknowledged := True\<rparr> else m)"
  have m1: "out_ok m1" "blen m1 = blen m" "out_message m1 = out_message m" "out_sent m1 = out_sent m"
    "hasByte m1 = hasByte m" "emptySent m1 = emptySent m" "emptyAcknowledged m1 \<longleftrightarrow> emptyAcknowledged m \<or> blen m = 0"
    using m by (auto simp: m1_def msg_ok_def out_ok_def hasByte_def [abs_def])
  have eq: "acked_message p m = fst (mark_acked m1 (sf_start p) (sf_end p - sf_start p) False)"
    by (simp add: acked_message_def m1_def Let_def)
  have r: "sf_start p + (sf_end p - sf_start p) \<le> blen m1" "sf_start p + (sf_end p - sf_start p) = sf_end p"
    using p by (simp_all add: m1)
  note ma = mark_acked_ok [OF m1(1) r(1), of False, folded eq, unfolded r(2) m1]
  show om: "out_message (acked_message p m) = out_message m" "emptySent (acked_message p m) = emptySent m"
    "emptyAcknowledged (acked_message p m) \<longleftrightarrow> emptyAcknowledged m \<or> blen m = 0"
    by (simp_all add: eq m1)
  show hs: "hasSent (acked_message p m) = hasSent m" by (simp add: eq m1 hasSent_def [abs_def])
  show hb: "\<forall>j < blen m. hasByte (acked_message p m) j \<longleftrightarrow> hasByte m j \<or> j \<in> {sf_start p..<sf_end p}"
    using ma by blast
  show "msg_ok (acked_message p m)"
    using ma hb hs om(1) m p(3) by (auto simp: msg_ok_def)
qed

lemma ack_one_ok:
  assumes ok: "flight_ok f" and n: "map_of (fl_sent f) n = Some p"
  shows "flight_ok (fst (ack_one f n p b))"
proof -
  let ?f = "fst (ack_one f n p b)"
  have po: "part_ok (messages f) p" using ok map_of_SomeD [OF n] by (auto simp: flight_ok_def)
  then have i: "sf_message p < length (messages f)" by (simp add: part_ok_def)
  then have m: "msg_ok (messages f ! sf_message p)" using ok by (simp add: flight_ok_def)
  note am = acked_message_ok [OF m, of p]
  have g: "grows (messages f) (messages ?f)"
    using grows_update [OF i, of "acked_message p (messages f ! sf_message p)"] am po by (simp add: part_ok_def)
  have msgs: "\<forall>m \<in> set (messages ?f). msg_ok m"
    using ok am(1) po set_update_subset_insert [of "messages f" "sf_message p"]
    by (fastforce simp: flight_ok_def part_ok_def)
  have parts: "\<forall>(k, q) \<in> set (fl_sent ?f). part_ok (messages ?f) q"
    using ok part_ok_grows [OF _ g] alist_delete_entries [of _ _ n "fl_sent f"] by (fastforce simp: flight_ok_def)
  have "distinct (map fst (fl_sent ?f))" using ok by (simp add: flight_ok_def distinct_delete)
  moreover have "\<not> complete f" using ok n by (auto simp: flight_ok_def)
  ultimately show ?thesis unfolding flight_ok_def using msgs parts ok by (simp add: flight_ok_def)
qed

lemma credits_skip:
  "map_of (fl_sent f) n = None \<or> \<not> auth \<and> epoch n \<noteq> 0 \<Longrightarrow> credits f (n # ns) auth i = credits f ns auth i"
  by (auto simp: credits_def)

lemma credits_take:
  assumes "map_of (fl_sent f) n = Some p" "auth \<or> epoch n = 0"
  shows "credits f (n # ns) auth i =
    (if sf_message p = i then {p} else {}) \<union> credits (fst (ack_one f n p b)) ns auth i"
proof (rule set_eqI)
  fix q
  have "(\<exists>k \<in> set ns. map_of (fl_sent f) k = Some q \<and> (auth \<or> epoch k = 0)) \<longleftrightarrow>
        n \<in> set ns \<and> q = p \<or> (\<exists>k \<in> set ns. k \<noteq> n \<and> map_of (fl_sent f) k = Some q \<and> (auth \<or> epoch k = 0))"
    using assms by fastforce
  then show "q \<in> credits f (n # ns) auth i \<longleftrightarrow>
    q \<in> (if sf_message p = i then {p} else {}) \<union> credits (fst (ack_one f n p b)) ns auth i"
    using assms by (auto simp: credits_def delete_conv')
qed

lemma ack_records_spec:
  assumes "ack_records ns auth now f b rtt = (pr, rtt', f')" "flight_ok f"
  shows "flight_ok f' \<and> interval f' = interval f \<and> retries f' = retries f \<and> complete f' = complete f \<and>
    deadline f' = deadline f \<and> length (messages f') = length (messages f) \<and>
    (\<forall>i < length (messages f). out_message (messages f' ! i) = out_message (messages f ! i) \<and>
       (\<forall>j < blen (messages f ! i). hasByte (messages f' ! i) j \<longleftrightarrow> hasByte (messages f ! i) j \<or> j \<in> credited f ns auth i) \<and>
       (emptyAcknowledged (messages f' ! i) \<longleftrightarrow>
          emptyAcknowledged (messages f ! i) \<or> blen (messages f ! i) = 0 \<and> credits f ns auth i \<noteq> {}))"
  using assms
proof (induction ns arbitrary: f b rtt)
  case Nil
  then show ?case by (auto simp: credits_def credited_def)
next
  case (Cons n ns)
  show ?case
  proof (cases "map_of (fl_sent f) n = None \<or> \<not> auth \<and> epoch n \<noteq> 0")
    case True
    then have "ack_records ns auth now f b rtt = (pr, rtt', f')"
      using Cons.prems(1) by (auto simp: ack_records_Cons split: option.splits)
    from Cons.IH [OF this Cons.prems(2)] show ?thesis by (simp add: credited_def credits_skip [OF True])
  next
    case False
    then obtain p where p: "map_of (fl_sent f) n = Some p" and au: "auth \<or> epoch n = 0" by auto
    define f1 where "f1 = fst (ack_one f n p b)"
    obtain b1 rtt1 where r: "ack_records ns auth now f1 b1 rtt1 = (pr, rtt', f')"
      using Cons.prems(1) p au by (auto simp: ack_records_Cons f1_def simp del: ack_records.simps(2) split: if_splits)
    have ok1: "flight_ok f1" unfolding f1_def by (rule ack_one_ok [OF Cons.prems(2) p])
    note ih = Cons.IH [OF r ok1]
    have po: "part_ok (messages f) p" using Cons.prems(2) map_of_SomeD [OF p] by (auto simp: flight_ok_def)
    have cr: "credits f (n # ns) auth i = (if sf_message p = i then {p} else {}) \<union> credits f1 ns auth i" for i
      unfolding f1_def by (rule credits_take [OF p au])
    have len: "length (messages f1) = length (messages f)" by (simp add: f1_def)
    have one: "out_message (messages f1 ! i) = out_message (messages f ! i) \<and>
       (\<forall>j < blen (messages f ! i). hasByte (messages f1 ! i) j \<longleftrightarrow>
          hasByte (messages f ! i) j \<or> (sf_message p = i \<and> j \<in> {sf_start p..<sf_end p})) \<and>
       (emptyAcknowledged (messages f1 ! i) \<longleftrightarrow>
          emptyAcknowledged (messages f ! i) \<or> blen (messages f ! i) = 0 \<and> sf_message p = i)"
      if i: "i < length (messages f)" for i
    proof (cases "sf_message p = i")
      case True
      have "msg_ok (messages f ! i)" using Cons.prems(2) i by (simp add: flight_ok_def)
      from acked_message_ok [OF this, of p] show ?thesis using po i True by (auto simp: f1_def part_ok_def)
    next
      case False
      then show ?thesis by (simp add: f1_def)
    qed
    have msgs: "\<forall>i < length (messages f). out_message (messages f' ! i) = out_message (messages f ! i) \<and>
       (\<forall>j < blen (messages f ! i). hasByte (messages f' ! i) j \<longleftrightarrow> hasByte (messages f ! i) j \<or> j \<in> credited f (n # ns) auth i) \<and>
       (emptyAcknowledged (messages f' ! i) \<longleftrightarrow>
          emptyAcknowledged (messages f ! i) \<or> blen (messages f ! i) = 0 \<and> credits f (n # ns) auth i \<noteq> {})"
    proof (intro allI impI)
      fix i assume i: "i < length (messages f)"
      from ih len i one [OF i] show "out_message (messages f' ! i) = out_message (messages f ! i) \<and>
       (\<forall>j < blen (messages f ! i). hasByte (messages f' ! i) j \<longleftrightarrow> hasByte (messages f ! i) j \<or> j \<in> credited f (n # ns) auth i) \<and>
       (emptyAcknowledged (messages f' ! i) \<longleftrightarrow>
          emptyAcknowledged (messages f ! i) \<or> blen (messages f ! i) = 0 \<and> credits f (n # ns) auth i \<noteq> {})"
        by (auto simp: credited_def cr)
    qed
    have "interval f1 = interval f" "retries f1 = retries f" "complete f1 = complete f" "deadline f1 = deadline f"
      by (simp_all add: f1_def)
    with ih len have "flight_ok f' \<and> interval f' = interval f \<and> retries f' = retries f \<and> complete f' = complete f \<and>
      deadline f' = deadline f \<and> length (messages f') = length (messages f)" by metis
    with msgs show ?thesis by blast
  qed
qed

lemma flight_ok_finish: "flight_ok f \<Longrightarrow> flight_ok (finish f)"
  by (simp add: flight_ok_def finish_def)

lemma acknowledge_spec:
  assumes a: "acknowledge f ns auth now = (pr, rtt, f')" and ok: "flight_ok f" "\<not> complete f"
  shows "flight_ok f'"
    and "complete f' \<longleftrightarrow> (\<forall>i < length (messages f).
       (\<forall>j < blen (messages f ! i). hasByte (messages f ! i) j \<or> j \<in> credited f ns auth i) \<and>
       (blen (messages f ! i) = 0 \<longrightarrow> emptyAcknowledged (messages f ! i) \<or> credits f ns auth i \<noteq> {}))"
proof -
  obtain pr1 rtt1 f1 where r: "ack_records ns auth now f False 0 = (pr1, rtt1, f1)" by (metis prod_cases3)
  note sp = ack_records_spec [OF r ok(1)]
  define f2 where "f2 = (if pr1 then f1\<lparr>retries := 0, ackedSinceSend := True\<rparr> else f1)"
  have m2: "messages f2 = messages f1" "complete f2 = complete f1" by (simp_all add: f2_def)
  have "flight_ok f1" using sp by blast
  then have ok2: "flight_ok f2" by (auto simp: f2_def flight_ok_def maxFlightRetries_def)
  have eq: "f' = (if list_ex (\<lambda>m. out_remaining m \<noteq> 0 \<or> blen m = 0 \<and> \<not> emptyAcknowledged m) (messages f2)
           then f2 else finish f2)"
    using a [unfolded acknowledge_def if_not_P [OF ok(2)] r prod.case Let_def, folded f2_def]
    by (metis (no_types, lifting) prod.inject)
  show "flight_ok f'" using eq ok2 flight_ok_finish by simp
  have "complete f' \<longleftrightarrow> (\<forall>m \<in> set (messages f1). out_remaining m = 0 \<and> (blen m = 0 \<longrightarrow> emptyAcknowledged m))"
    using eq m2 sp ok(2) by (auto simp: list_ex_iff finish_def)
  also have "\<dots> \<longleftrightarrow> (\<forall>i < length (messages f1). (\<forall>j < blen (messages f1 ! i). hasByte (messages f1 ! i) j) \<and>
      (blen (messages f1 ! i) = 0 \<longrightarrow> emptyAcknowledged (messages f1 ! i)))"
  proof -
    have "out_remaining m = 0 \<longleftrightarrow> (\<forall>j < blen m. hasByte m j)" if "m \<in> set (messages f1)" for m
      using sp that out_ok_done(1) [of m] by (simp add: flight_ok_def msg_ok_def)
    then show ?thesis by (simp add: all_set_conv_all_nth)
  qed
  finally show "complete f' \<longleftrightarrow> (\<forall>i < length (messages f).
       (\<forall>j < blen (messages f ! i). hasByte (messages f ! i) j \<or> j \<in> credited f ns auth i) \<and>
       (blen (messages f ! i) = 0 \<longrightarrow> emptyAcknowledged (messages f ! i) \<or> credits f ns auth i \<noteq> {}))"
    using sp by auto
qed

subsection \<open>Every operation keeps the invariant\<close>

lemma add_messages_map: "add_messages acc ms = Inr os \<Longrightarrow> os = map new_outbound ms"
  by (induction ms arbitrary: acc os) (auto simp: Let_def bind_ok_eq_Inr split: if_splits)

lemma newFlight_ok:
  assumes "newFlight ms ival = Inr f"
  shows "flight_ok f" "\<not> complete f" "messages f = map new_outbound ms" "fl_sent f = []" "ms \<noteq> []"
    "retries f = 0"
proof -
  from assms obtain os where os: "add_messages 0 ms = Inr os" "messages f = os" "fl_sent f = []" "\<not> complete f" "ms \<noteq> []"
    "retries f = 0" "0 < interval f" "interval f \<le> maximumRetransmit"
    by (auto simp: newFlight_def Let_def bind_ok_eq_Inr initialRetransmit_def maximumRetransmit_def split: if_splits)
  have "msg_ok (new_outbound m)" for m using new_outbound_clear [of _ m] by (auto simp: msg_ok_def)
  then show "flight_ok f" "\<not> complete f" "messages f = map new_outbound ms" "fl_sent f = []" "ms \<noteq> []" "retries f = 0"
    using os add_messages_map [OF os(1)] by (auto simp: flight_ok_def maxFlightRetries_def)
qed

lemma flight_ok_cong:
  "messages f' = messages f \<Longrightarrow> fl_sent f' = fl_sent f \<Longrightarrow> interval f' = interval f \<Longrightarrow> retries f' = retries f \<Longrightarrow>
   complete f' = complete f \<Longrightarrow> \<not> complete f \<Longrightarrow> flight_ok f' = flight_ok f"
  by (simp add: flight_ok_def)

lemma transmit_ok:
  assumes "flight_ok f"
  shows "flight_ok (fst (snd (transmit send now capacity f s)))"
proof (cases "complete f \<or> capacity < 1 \<or> int (maxContent - handshakeHeader) < capacity")
  case True
  then show ?thesis using assms by (auto simp: transmit_def)
next
  case False
  obtain err f' s' where t: "transmit send now capacity f s = (err, f', s')" by (metis prod_cases3)
  from False have nc: "\<not> complete f" and cap: "1 \<le> capacity" "capacity \<le> int (maxContent - handshakeHeader)" by auto
  from transmit_steps [OF t assms nc cap] obtain onlyNew L f1 s1 where
    "send_steps send now (nat capacity) onlyNew f s L f1 s1" "messages f' = messages f1" "fl_sent f' = fl_sent f1"
    "interval f' = interval f1" "retries f' = retries f1" "complete f' = complete f1" by metis
  then show ?thesis using send_steps_ok [of send now "nat capacity" onlyNew f s L f1 s1] assms nc t
    by (simp add: flight_ok_cong [of f' f1])
qed

lemma acknowledge_ok: "flight_ok f \<Longrightarrow> flight_ok (snd (snd (acknowledge f ns auth now)))"
proof (cases "complete f")
  case False
  obtain pr rtt f' where "acknowledge f ns auth now = (pr, rtt, f')" by (metis prod_cases3)
  then show "flight_ok f \<Longrightarrow> ?thesis" using acknowledge_spec(1) [of f ns auth now pr rtt f'] False by simp
qed (simp add: acknowledge_def)

lemma expire_ok: "flight_ok f \<Longrightarrow> expire (Some f) now = (r, Some f') \<Longrightarrow> flight_ok f'"
  by (auto simp: expire_def flight_ok_def maximumRetransmit_def maxFlightRetries_def Let_def
      split: option.splits if_splits)

lemma retransmitTimer_range: "0 < retransmitTimer rtt" "retransmitTimer rtt \<le> maximumRetransmit"
  by (auto simp: retransmitTimer_def clampDuration_def initialRetransmit_def maximumRetransmit_def minRetransmit_def)

lemma noteRTT_ok: "flight_ok f \<Longrightarrow> noteRTT rtt sample (Some f) = (rtt', Some f') \<Longrightarrow> flight_ok f'"
  using retransmitTimer_range by (auto simp: noteRTT_def flight_ok_def split: if_splits)

subsection \<open>Progress of transmission\<close>

definition unsent_of :: "outboundMessage \<Rightarrow> nat" where
  "unsent_of m = (if blen m = 0 then (if emptyAcknowledged m \<or> emptySent m then 0 else 1)
                  else card {j. j < blen m \<and> \<not> hasSent m j})"

definition unsent :: "flight \<Rightarrow> nat" where
  "unsent f = sum_list (map unsent_of (messages f))"

lemma unsent_step:
  assumes "msg_ok m" "range_ok m True capacity st e"
  shows "unsent_of (sent_message True st e m) < unsent_of m"
proof -
  note s = sent_message_ok [OF assms]
  show ?thesis
  proof (cases "blen m = 0")
    case True
    then show ?thesis using s(2,6) assms(2) by (auto simp: unsent_of_def range_ok_def)
  next
    case False
    then have st: "st < e" "e \<le> blen m" "\<not> hasSent m st" using assms(2) by (auto simp: range_ok_def wanted_def)
    have "{j. j < blen m \<and> \<not> hasSent (sent_message True st e m) j} \<subset> {j. j < blen m \<and> \<not> hasSent m j}"
      using s(5) st by auto
    from psubset_card_mono [OF _ this] show ?thesis using False s(2) by (simp add: unsent_of_def)
  qed
qed

lemma send_steps_unsent:
  assumes "send_steps send now capacity True f s L f' s'" "flight_ok f" "\<not> complete f"
  shows "unsent f' + length L \<le> unsent f"
  using assms
proof (induction rule: send_steps.induct)
  case (more L f1 s1 i st e body number s2)
  have ok: "flight_ok f1" using send_steps_ok [OF more(1) more(9,10)] by simp
  then have "msg_ok (messages f1 ! i)" using more(2) by (simp add: flight_ok_def)
  then have lt: "unsent_of (sent_message True st e (messages f1 ! i)) < unsent_of (messages f1 ! i)"
    using more(3) by (rule unsent_step)
  have "map unsent_of (messages (record_send f1 now True i st e number)) =
      (map unsent_of (messages f1))[i := unsent_of (sent_message True st e (messages f1 ! i))]"
    by (simp add: map_update)
  moreover have "unsent_of (messages f1 ! i) \<le> sum_list (map unsent_of (messages f1))"
    using more(2) by (metis elem_le_sum_list length_map nth_map)
  ultimately have "unsent (record_send f1 now True i st e number) < unsent f1"
    using lt more(2) by (simp add: unsent_def sum_list_update)
  then show ?case using more(8) [OF more(9,10)] by simp
qed simp

lemma unsent_zero: "flight_ok f \<Longrightarrow> unsent f = 0 \<longleftrightarrow> \<not> pendingSend f"
proof -
  assume ok: "flight_ok f"
  have "unsent_of m = 0 \<longleftrightarrow> \<not> (if blen m = 0 then \<not> emptyAcknowledged m \<and> \<not> emptySent m else sentCount m < int (blen m))"
    if "m \<in> set (messages f)" for m
    using out_ok_done(2) [of m] ok that by (auto simp: unsent_of_def flight_ok_def msg_ok_def)
  then show ?thesis by (auto simp: unsent_def pendingSend_def list_ex_iff)
qed

subsection \<open>What a flight puts on the wire\<close>

lemma frags_append: "frags m xs S \<Longrightarrow> frags m ys T \<Longrightarrow> frags m (xs @ ys) (S \<union> T)"
proof (induction rule: frags.induct)
  case (more off len b fs S)
  from frags.more [OF more(1) more(3) [OF more(4)]] show ?case by (simp add: Un_assoc)
qed simp

lemma send_steps_frags:
  assumes "send_steps send now capacity onlyNew f s L f' s'" "flight_ok f" "\<not> complete f" "i < length (messages f)"
  shows "\<exists>S. frags (out_message (messages f ! i)) (map snd (filter (\<lambda>(k, b). k = i) L)) S \<and>
    (\<forall>j < blen (messages f ! i). hasSent (messages f' ! i) j \<longleftrightarrow> hasSent (messages f ! i) j \<or> j \<in> S)"
  using assms
proof (induction rule: send_steps.induct)
  case none
  show ?case using frags.none by auto
next
  case (more L f1 s1 k st e body number s2)
  obtain S where S: "frags (out_message (messages f ! i)) (map snd (filter (\<lambda>(k, b). k = i) L)) S"
    "\<forall>j < blen (messages f ! i). hasSent (messages f1 ! i) j \<longleftrightarrow> hasSent (messages f ! i) j \<or> j \<in> S"
    using more(8) [OF more(9-11)] by blast
  have om: "out_message (messages f1 ! i) = out_message (messages f ! i)" "length (messages f1) = length (messages f)"
    using send_steps_frame [OF more(1,11)] by simp_all
  show ?case
  proof (cases "k = i")
    case True
    have "flight_ok f1" using send_steps_ok [OF more(1) more(9,10)] by simp
    then have "msg_ok (messages f1 ! i)" using more(2) True by (simp add: flight_ok_def)
    note sm = sent_message_ok [OF this more(3) [unfolded True]]
    have "frags (out_message (messages f ! i)) [body] ({st..<e} \<union> {})"
      using frags.more [OF more(4) [unfolded True om] frags.none] more(3) by (simp add: range_ok_def)
    from frags_append [OF S(1) this]
    have "frags (out_message (messages f ! i)) (map snd (filter (\<lambda>(k, b). k = i) (L @ [(k, body)]))) (S \<union> {st..<e})"
      using True by simp
    then show ?thesis
      using S(2) sm(5) om more(2) True by (intro exI [of _ "S \<union> {st..<e}"]) auto
  next
    case False
    then show ?thesis using S by auto
  qed
qed

subsection \<open>The state of the callback\<close>

text \<open>What every call of the callback keeps, the loops keep.\<close>

lemma send_message_within:
  assumes R: "reflp R" "transp R" and send: "\<And>s ep b. R s (snd (send s ep b))"
  shows "R s (snd (snd (snd (send_message send now capacity onlyNew i start count f s))))"
proof (induction "flightBurst - count" arbitrary: start count f s rule: less_induct)
  case less
  have r: "R x x" for x using R(1) by (simp add: reflp_def)
  have st: "R s s'" if "send s ep b = (x, s')" for ep b x s' using send [of s ep b] that by simp
  have tr: "R s s' \<Longrightarrow> R s' s'' \<Longrightarrow> R s s''" for s' s'' using R(2) by (meson transpE)
  have rec: "R s (snd (snd (snd (send_message send now capacity onlyNew i st' (Suc count) f' s'))))"
    if "send s ep b = (x, s')" "\<not> flightBurst \<le> Suc count" for ep b x s' st' f'
    using tr [OF st [OF that(1)] less [of "Suc count"]] that(2) by simp
  have "R s (snd (snd (snd (send_body send now capacity onlyNew i st' e count f s))))" for st' e
    unfolding send_body_def Let_def by (auto simp: r st rec split: sum.split prod.split)
  then show ?case
    unfolding send_message_body Let_def by (simp only: r snd_conv split: if_split) simp
qed

lemma send_messages_within:
  assumes R: "reflp R" "transp R" and send: "\<And>s ep b. R s (snd (send s ep b))"
  shows "R s (snd (snd (snd (send_messages send now capacity onlyNew js count f s))))"
proof (induction js arbitrary: count f s)
  case Nil
  then show ?case using R(1) by (simp add: reflp_def)
next
  case (Cons i js)
  obtain st c f' s' where e: "send_message send now capacity onlyNew i 0 count f s = (st, c, f', s')"
    by (metis prod_cases4)
  then have "R s s'" using send_message_within [OF assms(1,2), where send = send, OF assms(3), where s = s and now = now and capacity = capacity and onlyNew = onlyNew and i = i and start = 0 and count = count and f = f] by simp
  then show ?case using e Cons R(2) by (cases st) (auto dest: transpD)
qed

lemma transmit_within:
  assumes R: "reflp R" "transp R" and send: "\<And>s ep b. R s (snd (send s ep b))"
  shows "R s (snd (snd (transmit send now capacity f s)))"
proof -
  have r: "R x x" for x using R(1) by (simp add: reflp_def)
  have m: "R s s'" if "sendRanges send now cp onlyNew f s = (err, count, f', s')" for cp onlyNew err count f f' s s'
    using send_messages_within [OF assms(1,2), where send = send, OF assms(3), where s = s and now = now and capacity = cp and onlyNew = onlyNew and js = "[0..<length (messages f)]" and count = 0 and f = f] that
    by (simp add: sendRanges_def)
  show ?thesis
    unfolding transmit_def Let_def
    by (auto simp: r split: option.split prod.split if_splits intro: m transpD [OF R(2)])
qed

end
