(* ===== verification/SessionFlight.thy ===== *)
theory SessionFlight
  imports PathValidation FlightLemmas
begin

text \<open>
  The flights and acknowledgements of \<open>internal/dtls13/session.go\<close>.  A flight is addressed by where the
  session keeps it, so that a write through the pointer is an update there.
\<close>

definition maxQueuedAcknowledgements :: nat where "maxQueuedAcknowledgements = 32"

datatype flight_ref = Outbound | Post byte

fun get_flight :: "flight_ref \<Rightarrow> 'h session \<Rightarrow> flight option" where
  "get_flight Outbound s = outbound s"
| "get_flight (Post ty) s = map_of (post s) ty"

fun set_flight :: "flight_ref \<Rightarrow> flight \<Rightarrow> 'h session \<Rightarrow> 'h session" where
  "set_flight Outbound f s = s\<lparr>outbound := Some f\<rparr>"
| "set_flight (Post ty) f s = s\<lparr>post := AList.update ty f (post s)\<rparr>"

subsection \<open>Acknowledgements\<close>

definition handshakeFlightSent :: "'h session \<Rightarrow> bool" where
  "handshakeFlightSent s = (case outbound s of None \<Rightarrow> True | Some f \<Rightarrow> complete f \<or> sentOnce f)"

definition outbound_open :: "'h session \<Rightarrow> bool" where
  "outbound_open s = (case outbound s of None \<Rightarrow> False | Some f \<Rightarrow> \<not> complete f)"

definition handshakeACKReady :: "'h session \<Rightarrow> bool" where
  "handshakeACKReady s =
     (if hs_complete (handshake s) then handshakeFlightSent s else disrupted (reassembly s))"

definition handshakeFlightStalled :: "int \<Rightarrow> 'h session \<Rightarrow> bool" where
  "handshakeFlightStalled now s =
     (if hs_complete (handshake s) \<or> length (ack_pending (ack s)) = 0 \<or> ack_deadline (ack s) = None \<or>
         is_before now (ack_deadline (ack s))
      then False
      else \<not> outbound_open s)"

definition handshakeACKScheduled :: "'h session \<Rightarrow> bool" where
  "handshakeACKScheduled s =
     (if handshakeACKReady s then True
      else if hs_complete (handshake s) \<or> length (ack_pending (ack s)) = 0 then False
      else \<not> outbound_open s)"

text \<open>The loop of \<open>writeAcknowledgements\<close> over the pending numbers, at most \<open>n\<close> in a record.\<close>

function write_acks :: "nat \<Rightarrow> recordNumber list \<Rightarrow> ('h session, unit) act" where
  "write_acks n ps s =
     (if ps = [] \<or> n = 0 then (Inr (), s)
      else case encodeACK (take n ps) of
        Inl e \<Rightarrow> (Inl e, s)
      | Inr body \<Rightarrow>
          (case sendRecord (currentWriteEpoch s) contentACK body s of
             (Inl e, s1) \<Rightarrow> (Inl e, s1)
           | (Inr _, s1) \<Rightarrow>
               write_acks n (drop n ps) (s1\<lparr>ack := (ack s1)\<lparr>ack_pending := drop n ps\<rparr>\<rparr>)))"
  by pat_completeness auto
termination by (relation "measure (\<lambda>(n, ps, s). length ps)") auto

declare write_acks.simps [simp del]

definition writeAcknowledgements :: "bool \<Rightarrow> ('h session, unit) act" where
  "writeAcknowledgements ready s =
     (if length (ack_pending (ack s)) = 0 then (Inr (), s\<lparr>ack := (ack s)\<lparr>ack_deadline := None\<rparr>\<rparr>)
      else if \<not> ready then (Inr (), s)
      else
        let n = (fragmentCapacity s + int handshakeHeader - 2) div 16 in
        if n < 1 then (Inl errRecordOverflow, s)
        else andthen (write_acks (nat n) (ack_pending (ack s)))
               (\<lambda>_ s1. (Inr (), s1\<lparr>ack := (ack s1)\<lparr>ack_deadline := None\<rparr>\<rparr>)) s)"

definition sendACK :: "('h session, unit) act" where
  "sendACK s = writeAcknowledgements (handshakeACKReady s) s"

definition sendScheduledACK :: "int \<Rightarrow> ('h session, unit) act" where
  "sendScheduledACK now s =
     (if length (ack_pending (ack s)) = 0 then (Inr (), s\<lparr>ack := (ack s)\<lparr>ack_deadline := None\<rparr>\<rparr>)
      else writeAcknowledgements (handshakeACKReady s \<or> handshakeFlightStalled now s) s)"

definition queueAcknowledgement :: "recordNumber \<Rightarrow> int \<Rightarrow> ('h session, unit) act" where
  "queueAcknowledgement number now =
     andthen (\<lambda>s. if maxQueuedAcknowledgements \<le> length (ack_pending (ack s)) then sendACK s else (Inr (), s))
       (\<lambda>_ s.
         if maxQueuedAcknowledgements \<le> length (ack_pending (ack s)) then (Inr (), s)
         else
           let delay = Some (now + ackDelay (rtt s));
               s1 = s\<lparr>ack := \<lparr>ack_pending = ack_pending (ack s) @ [number],
                              ack_deadline = (if ack_deadline (ack s) = None \<or> \<not> disrupted (reassembly s)
                                              then delay else ack_deadline (ack s))\<rparr>\<rparr>
           in if maxQueuedAcknowledgements \<le> length (ack_pending (ack s1)) then sendACK s1 else (Inr (), s1))"

subsection \<open>Keys\<close>

definition install_pair :: "u64 \<Rightarrow> byte list \<Rightarrow> byte list \<Rightarrow> ('h session, unit) act" where
  "install_pair ep client server s =
     (if length client = 0 \<or> installed (epochs s) AND push_bit (unat ep) 1 \<noteq> 0 then (Inr (), s)
      else
        let (readSecret, writeSecret) = (if hs_client (handshake s) then (server, client) else (client, server)) in
        case newTrafficKeys (prims s) (hs_CipherSuite (handshake s)) readSecret of
          Inl e \<Rightarrow> (Inl e, s)
        | Inr readKeys \<Rightarrow>
            (case newTrafficKeys (prims s) (hs_CipherSuite (handshake s)) writeSecret of
               Inl e \<Rightarrow> (Inl e, s)
             | Inr writeKeys \<Rightarrow>
                 (Inr (), s\<lparr>epochs := (epochs s)\<lparr>
                     ep_read := AList.update ep \<lparr>rk_keys = readKeys, rk_secret = readSecret,
                                  rk_window = \<lparr>highest = 0, bits = 0\<rparr>, failures = 0\<rparr> (ep_read (epochs s)),
                     ep_write := AList.update ep \<lparr>wk_keys = Some writeKeys, wk_secret = writeSecret,
                                   wk_sequence = 0\<rparr> (ep_write (epochs s)),
                     installed := installed (epochs s) OR push_bit (unat ep) 1,
                     readApplicationEpoch := (if ep = 3 then 3 else readApplicationEpoch (epochs s))\<rparr>\<rparr>)))"

definition installKeys :: "('h session, unit) act" where
  "installKeys s =
     (case hs_schedule (handshake s) of
        None \<Rightarrow> (Inr (), s)
      | Some ks \<Rightarrow>
          andthen (install_pair 2 (clientHandshake ks) (serverHandshake ks))
            (\<lambda>_. install_pair 3 (clientApplication (handshake s)) (serverApplication (handshake s))) s)"

subsection \<open>Flights\<close>

lemma andthen_cases:
  obtains (failed) e s' where "m s = (Inl e, s')" "andthen m f s = (Inl e, s')"
  | (val) x s' where "m s = (Inr x, s')" "andthen m f s = f x s'"
  by (cases "m s"; cases "fst (m s)") (auto simp: andthen_def)

lemma andthen_state: "snd (andthen m f s) = (case m s of (Inl e, s') \<Rightarrow> s' | (Inr x, s') \<Rightarrow> snd (f x s'))"
  by (simp add: andthen_def split: prod.split sum.split)

lemma andthen_ok_state: "snd (andthen m (\<lambda>_. ok v) s) = snd (m s)"
  by (simp add: andthen_state ok_def case_prod_unfold split: sum.split)

lemma sendRecordLimited_cases:
  obtains (refused) e where "sendRecordLimited ep ty body c pad lim send s = (Inl e, s)"
  | (sent) w packet where "map_of (ep_write (epochs s)) ep = Some w"
      "if ep = 0 then wk_sequence w < 2 ^ 48 else wk_sequence w < recordLimit (the (wk_keys w))"
      "(if ep = 0 then (if pad \<noteq> 0 then Inl errRecord else encodePlainRecord ty (wk_sequence w) body)
        else encodeRecord (the (wk_keys w)) \<lparr>epoch = ep, sequence = wk_sequence w\<rparr> c ty body pad) = Inr packet"
      "int (length packet) \<le> lim"
      "sendRecordLimited ep ty body c pad lim send s =
         andthen (send packet) (\<lambda>_. ok \<lparr>epoch = ep, sequence = wk_sequence w\<rparr>) (note_write ep w packet s)"
proof (cases "map_of (ep_write (epochs s)) ep")
  case None
  then show ?thesis using refused by (simp add: sendRecordLimited_def)
next
  case (Some w)
  define E where "E = (if ep = 0 then (if pad \<noteq> 0 then Inl errRecord else encodePlainRecord ty (wk_sequence w) body)
        else encodeRecord (the (wk_keys w)) \<lparr>epoch = ep, sequence = wk_sequence w\<rparr> c ty body pad)"
  define B where "B \<longleftrightarrow> ep = 0 \<and> 2 ^ 48 \<le> wk_sequence w \<or> ep \<noteq> 0 \<and> recordLimit (the (wk_keys w)) \<le> wk_sequence w"
  have eq: "sendRecordLimited ep ty body c pad lim send s =
    (if B then (Inl errSequence, s) else case E of Inl e \<Rightarrow> (Inl e, s)
       | Inr packet \<Rightarrow> if lim < int (length packet) then (Inl errRecordOverflow, s)
           else andthen (send packet) (\<lambda>_. ok \<lparr>epoch = ep, sequence = wk_sequence w\<rparr>) (note_write ep w packet s))"
    using Some unfolding E_def B_def sendRecordLimited_def Let_def by simp
  show ?thesis
  proof (cases E)
    case (Inl e)
    then show ?thesis using eq refused by (cases B) simp_all
  next
    case (Inr packet)
    show ?thesis
    proof (cases "B \<or> lim < int (length packet)")
      case True
      then show ?thesis using eq Inr refused by (cases B) simp_all
    next
      case False
      show ?thesis
        by (rule sent [OF Some _ Inr [unfolded E_def]]) (use False eq Inr in \<open>auto simp: B_def not_le\<close>)
    qed
  qed
qed

lemma transport_send_working [simp]: "working (snd (transport_send d b s)) = working s"
  by (simp add: transport_send_def Let_def split: prod.split)

lemma sendRecordLimited_within:
  assumes R: "reflp R" "transp R" and wr: "\<And>w packet. map_of (ep_write (epochs s)) ep = Some w \<Longrightarrow> R s (note_write ep w packet s)"
    and send: "\<And>p s. R s (snd (send p s))"
  shows "R s (snd (sendRecordLimited ep ty body c pad lim send s))"
proof (cases rule: sendRecordLimited_cases [of ep ty body c pad lim send s])
  case (refused e)
  then show ?thesis using R(1) by (simp add: reflp_def)
next
  case (sent w packet)
  have "R s (snd (send packet (note_write ep w packet s)))"
    using transpD [OF R(2) wr [OF sent(1)] send] .
  then show ?thesis unfolding sent(5) by (simp add: andthen_ok_state)
qed

lemma sendRecord_within:
  assumes R: "reflp R" "transp R" and wr: "\<And>w packet. map_of (ep_write (epochs s)) ep = Some w \<Longrightarrow> R s (note_write ep w packet s)"
    and send: "\<And>p s. R s (snd (transport_send None p s))"
  shows "R s (snd (sendRecord ep ty body s))"
  unfolding sendRecord_def sendRecordWith_def by (rule sendRecordLimited_within [OF assms])

lemma sendRecord_reductions: "reductions (working (snd (sendRecord ep ty body s))) = reductions (working s)"
  by (rule sendRecord_within [where R = "\<lambda>s s'. reductions (working s') = reductions (working s)"])
     (auto simp: reflp_def transp_def note_write_def)

lemma reduceHandshakeMTU_counts:
  "reduceHandshakeMTU n s = (True, s') \<Longrightarrow>
   reductions (working s) < maxMTUReductions \<and> reductions (working s') = reductions (working s) + 1"
  by (auto simp: reduceHandshakeMTU_def Let_def split: if_splits)

lemma transmit_reductions:
  "transmit (\<lambda>s ep body. sendRecord ep ty body s) now capacity f s = (err, f', s') \<Longrightarrow>
   reductions (working s') = reductions (working s)"
  using transmit_within [where R = "\<lambda>s s'. reductions (working s') = reductions (working s)"
      and send = "\<lambda>s ep body. sendRecord ep ty body s" and s = s and now = now and capacity = capacity and f = f]
  by (simp add: reflp_def transp_def sendRecord_reductions)

lemma set_flight_working [simp]: "working (set_flight r f s) = working s"
  by (cases r) simp_all

function session_transmit :: "flight_ref \<Rightarrow> int \<Rightarrow> ('h session, unit) act" where
  "session_transmit r now s =
     (case get_flight r s of
        None \<Rightarrow> (Inr (), s)
      | Some f \<Rightarrow>
          (case transmit (\<lambda>s ep body. sendRecord ep contentHandshake body s) now (fragmentCapacity s) f s of
             (err, f', s1) \<Rightarrow>
               let s2 = set_flight r f' s1 in
               (case err of
                  None \<Rightarrow> if hs_complete (handshake s2) then sendACK s2 else (Inr (), s2)
                | Some e \<Rightarrow>
                    if \<not> isMessageTooLong e then (Inl e, s2)
                    else case reduceHandshakeMTU (lastSendSize (working s2)) s2 of
                      (False, s3) \<Rightarrow> (Inl e, s3)
                    | (True, s3) \<Rightarrow> session_transmit r now s3)))"
  by pat_completeness auto
termination
  by (relation "measure (\<lambda>(r, now, s). nat (maxMTUReductions - reductions (working s)))")
     (auto dest!: transmit_reductions [OF sym] reduceHandshakeMTU_counts [OF sym])

declare session_transmit.simps [simp del]

definition startFlight :: "handshakeMessage list \<Rightarrow> int \<Rightarrow> ('h session, unit) act" where
  "startFlight ms now =
     andthen installKeys (\<lambda>_ s.
       let ival = (case outbound s of
                     Some f \<Rightarrow> if fl_resent f then interval f else retransmitTimer (rtt s)
                   | None \<Rightarrow> retransmitTimer (rtt s))
       in case newFlight ms ival of
            Inl e \<Rightarrow> (Inl e, s)
          | Inr f \<Rightarrow> session_transmit Outbound now (s\<lparr>outbound := Some f\<rparr>))"

definition acknowledgeFlight :: "flight_ref \<Rightarrow> recordNumber list \<Rightarrow> bool \<Rightarrow> int \<Rightarrow> ('h session, unit) act" where
  "acknowledgeFlight r records authenticated now s =
     (case get_flight r s of
        None \<Rightarrow> (Inr (), s)
      | Some f \<Rightarrow>
          let (progress, sample, f1) = acknowledge f records authenticated now;
              (rtt', fo) = noteRTT (rtt s) sample (Some f1);
              s1 = set_flight r (the fo) (s\<lparr>rtt := rtt'\<rparr>)
          in if progress \<and> \<not> complete (the fo) then session_transmit r now s1 else (Inr (), s1))"

definition retransmitExpired :: "flight_ref \<Rightarrow> int \<Rightarrow> ('h session, unit) act" where
  "retransmitExpired r now s =
     (let (due, fo) = expire (get_flight r s) now;
          s1 = (case fo of None \<Rightarrow> s | Some f \<Rightarrow> set_flight r f s)
      in case due of
           Inl e \<Rightarrow> (Inl e, s1)
         | Inr d \<Rightarrow> if \<not> d then (Inr (), s1) else session_transmit r now s1)"

definition expireOutbound :: "int \<Rightarrow> ('h session, unit) act" where
  "expireOutbound now s =
     (let (due, fo) = expire (outbound s) now; s1 = s\<lparr>outbound := fo\<rparr>
      in case due of
           Inl e \<Rightarrow> (Inl e, s1)
         | Inr d \<Rightarrow>
             if \<not> d then (Inr (), s1)
             else
               let f = the fo;
                   s2 = (if \<not> pendingSend f \<and> \<not> ackedSinceSend f \<and> 1 < retries f
                         then snd (reduceHandshakeMTU 0 s1) else s1)
               in session_transmit Outbound now (s2\<lparr>outbound := Some (f\<lparr>ackedSinceSend := False\<rparr>)\<rparr>))"

end
