(* ===== verification/Hello.thy ===== *)
theory Hello
  imports Keys
begin

text \<open>
  \<open>internal/dtls13/hello.go\<close>: the hello messages and their extension blocks.  An \<open>extensions\<close> map is an
  association list with distinct keys.  \<open>rd_left\<close> measures what a reader can still yield, so that every
  loop of the form \<open>for len(r.data) != 0 && r.err == nil\<close> terminates.
\<close>

definition version13 :: u16 where "version13 = 0xfefc"
definition legacyVersion :: u16 where "legacyVersion = 0xfefd"
definition msgClientHello :: byte where "msgClientHello = 1"
definition msgServerHello :: byte where "msgServerHello = 2"
definition msgNewSessionTicket :: byte where "msgNewSessionTicket = 4"
definition msgEncryptedExtensions :: byte where "msgEncryptedExtensions = 8"
definition msgRequestConnectionID :: byte where "msgRequestConnectionID = 9"
definition msgNewConnectionID :: byte where "msgNewConnectionID = 10"
definition msgCertificate :: byte where "msgCertificate = 11"
definition msgCertificateRequest :: byte where "msgCertificateRequest = 13"
definition msgCertificateVerify :: byte where "msgCertificateVerify = 15"
definition msgFinished :: byte where "msgFinished = 20"
definition msgKeyUpdate :: byte where "msgKeyUpdate = 24"

lemmas msg_types = msgClientHello_def msgServerHello_def msgNewSessionTicket_def msgEncryptedExtensions_def
  msgRequestConnectionID_def msgNewConnectionID_def msgCertificate_def msgCertificateRequest_def
  msgCertificateVerify_def msgFinished_def msgKeyUpdate_def

definition extServerName :: u16 where "extServerName = 0"
definition extSupportedGroups :: u16 where "extSupportedGroups = 10"
definition extSignatureAlgorithms :: u16 where "extSignatureAlgorithms = 13"
definition extALPN :: u16 where "extALPN = 16"
definition extPreSharedKey :: u16 where "extPreSharedKey = 41"
definition extEarlyData :: u16 where "extEarlyData = 42"
definition extSupportedVersions :: u16 where "extSupportedVersions = 43"
definition extCookie :: u16 where "extCookie = 44"
definition extPSKModes :: u16 where "extPSKModes = 45"
definition extCertificateAuthorities :: u16 where "extCertificateAuthorities = 47"
definition extKeyShare :: u16 where "extKeyShare = 51"
definition extConnectionID :: u16 where "extConnectionID = 54"
definition extRRC :: u16 where "extRRC = 61"

lemmas ext_ids = extServerName_def extSupportedGroups_def extSignatureAlgorithms_def extALPN_def
  extPreSharedKey_def extEarlyData_def extSupportedVersions_def extCookie_def extPSKModes_def
  extCertificateAuthorities_def extKeyShare_def extConnectionID_def extRRC_def

definition retryRandom :: "byte list" where
  "retryRandom =
     [0xcf, 0x21, 0xad, 0x74, 0xe5, 0x9a, 0x61, 0x11, 0xbe, 0x1d, 0x8c, 0x02, 0x1e, 0x65, 0xb8, 0x91,
      0xc2, 0xa2, 0x11, 0x16, 0x7a, 0xbb, 0x8c, 0x5e, 0x07, 0x9e, 0x09, 0xe2, 0xc8, 0xa8, 0x33, 0x9c]"

type_synonym extensions = "(u16 \<times> byte list) list"

subsection \<open>Loops over a reader\<close>

definition rd_left :: "wireReader \<Rightarrow> nat" where
  "rd_left r = (if rd_err r = None then length (rd_data r) else 0)"

abbreviation rd_more :: "wireReader \<Rightarrow> bool" where
  "rd_more r \<equiv> length (rd_data r) \<noteq> 0 \<and> rd_err r = None"

lemma rd_left_less:
  assumes "rd_more r" "reads_within r r1" "rd_err r1 = None \<Longrightarrow> length (rd_data r1) < length (rd_data r)"
    "reads_within r1 r2"
  shows "rd_left r2 < rd_left r"
  using assms reads_within_length [OF assms(4)] by (auto simp: rd_left_def reads_within_def)

lemma vector8_progress:
  "rd_err (snd (vector8 r)) = None \<Longrightarrow> length (rd_data (snd (vector8 r))) < length (rd_data r)"
  using readUint8_progress [of r] rd_take_within [of "snd (readUint8 r)"]
  by (auto simp: vector8_def case_prod_unfold Let_def reads_within_def)
     (metis reads_within_def rd_take_within length_append le_add2 le_less_trans)

lemma vector16_progress:
  "rd_err (snd (vector16 r)) = None \<Longrightarrow> length (rd_data (snd (vector16 r))) < length (rd_data r)"
  using readUint16_progress [of r] rd_take_within [of "snd (readUint16 r)"]
  by (auto simp: vector16_def case_prod_unfold Let_def reads_within_def)
     (metis reads_within_def rd_take_within length_append le_add2 le_less_trans)

lemmas rd_left_vector8 = rd_left_less [OF _ vector8_within vector8_progress]
lemmas rd_left_vector16 = rd_left_less [OF _ vector16_within vector16_progress]
lemmas rd_left_uint16 = rd_left_less [OF _ readUint16_within readUint16_progress]
lemmas rd_left_uint8 = rd_left_less [OF _ readUint8_within readUint8_progress]

lemma rd_left_pair: "(x, r1) = readUint16 r \<Longrightarrow> (v, r2) = vector16 r1 \<Longrightarrow> rd_more r \<Longrightarrow> rd_left r2 < rd_left r"
  using rd_left_uint16 vector16_within by (metis snd_conv)

lemma rd_left_v8: "(v, r1) = vector8 r \<Longrightarrow> rd_more r \<Longrightarrow> rd_left r1 < rd_left r"
  using rd_left_vector8 reads_within_refl by (metis snd_conv)

lemma rd_left_v16: "(v, r1) = vector16 r \<Longrightarrow> rd_more r \<Longrightarrow> rd_left r1 < rd_left r"
  using rd_left_vector16 reads_within_refl by (metis snd_conv)

subsection \<open>Extensions\<close>

function parse_ext_loop :: "byte \<Rightarrow> wireReader \<Rightarrow> extensions \<Rightarrow> dtls_error + extensions" where
  "parse_ext_loop messageType r out =
     (if \<not> rd_more r then (case rd_done r of Some e \<Rightarrow> Inl e | None \<Rightarrow> Inr out)
      else
        let (i, r1) = readUint16 r; (body, r2) = vector16 r1 in
        if map_of out i \<noteq> None then Inl errDecode
        else if messageType = msgClientHello \<and> i = extPreSharedKey \<and> length (rd_data r2) \<noteq> 0 then Inl errDecode
        else parse_ext_loop messageType r2 (out @ [(i, body)]))"
  by pat_completeness auto
termination
  by (relation "measure (\<lambda>(t, r, out). rd_left r)") (auto dest: rd_left_pair)

declare parse_ext_loop.simps [simp del]

definition parseExtensions :: "byte list \<Rightarrow> byte \<Rightarrow> dtls_error + extensions" where
  "parseExtensions data messageType = parse_ext_loop messageType (new_reader data) []"

definition marshal_keys :: "extensions \<Rightarrow> u16 list" where
  "marshal_keys e =
     sort (filter (\<lambda>i. i \<noteq> extPreSharedKey) (map fst e)) @
     (if map_of e extPreSharedKey \<noteq> None then [extPreSharedKey] else [])"

definition ext_marshal :: "extensions \<Rightarrow> dtls_error + byte list" where
  "ext_marshal e =
     (let w = fold (\<lambda>i w. write_vector16 (the (map_of e i)) (writeUint16 i w)) (marshal_keys e) new_writer in
      case wr_err w of
        Some err \<Rightarrow> Inl err
      | None \<Rightarrow> if 65535 < length (wr_data w) then Inl errDecode else wr_result w)"

subsection \<open>Hello messages\<close>

text \<open>The loops that decode big-endian 16-bit integers; the callers check that the length is even.\<close>

fun uint16s :: "byte list \<Rightarrow> u16 list" where
  "uint16s (a # b # rest) = of_nat (be_dec [a, b]) # uint16s rest"
| "uint16s _ = []"

record clientHello =
  ch_random :: "byte list"
  ch_sessionID :: "byte list"
  ch_suites :: "u16 list"
  ch_extensions :: extensions

definition parseClientHello :: "byte list \<Rightarrow> dtls_error + clientHello" where
  "parseClientHello data =
     (let (version, r1) = readUint16 (new_reader data);
          (rnd, r2) = rd_take 32 r1;
          (sessionID, r3) = vector8 r2;
          (cookie, r4) = vector8 r3;
          (suites, r5) = vector16 r4;
          (compression, r6) = vector8 r5;
          (ext, r7) = vector16 r6
      in if rd_done r7 \<noteq> None \<or> 32 < length sessionID \<or> length suites < 2 \<or> length suites mod 2 \<noteq> 0 \<or> length ext < 8
         then Inl errDecode
         else if version \<noteq> legacyVersion then Inl errProtocolVersion
         else if length cookie \<noteq> 0 \<or> compression \<noteq> [0] then Inl errIllegalParameter
         else bind_ok (parseExtensions ext msgClientHello) (\<lambda>es.
           Inr \<lparr>ch_random = rnd, ch_sessionID = sessionID, ch_suites = uint16s suites, ch_extensions = es\<rparr>))"

definition append_raw :: "byte list \<Rightarrow> wireWriter \<Rightarrow> wireWriter" where
  "append_raw d w = w\<lparr>wr_data := wr_data w @ d\<rparr>"

definition clientHello_marshal :: "clientHello \<Rightarrow> dtls_error + byte list" where
  "clientHello_marshal h =
     (if 32 < length (ch_sessionID h) \<or> length (ch_suites h) = 0 \<or> 32767 < length (ch_suites h) then Inl errDecode
      else bind_ok (ext_marshal (ch_extensions h)) (\<lambda>ext.
        if length ext < 8 then Inl errDecode
        else
          let suites = fold writeUint16 (ch_suites h) new_writer in
          wr_result
            (write_vector16 ext
            (write_vector8 [0]
            (write_vector16 (wr_data suites)
            (write_vector8 []
            (write_vector8 (ch_sessionID h)
            (append_raw (ch_random h)
            (writeUint16 legacyVersion new_writer)))))))))"

record serverHello =
  sh_random :: "byte list"
  sh_sessionID :: "byte list"
  sh_suite :: u16
  sh_extensions :: extensions

definition parseServerHello :: "byte list \<Rightarrow> dtls_error + serverHello" where
  "parseServerHello data =
     (let (version, r1) = readUint16 (new_reader data);
          (rnd, r2) = rd_take 32 r1;
          (sessionID, r3) = vector8 r2;
          (suite, r4) = readUint16 r3;
          (compression, r5) = readUint8 r4;
          (ext, r6) = vector16 r5
      in if rd_done r6 \<noteq> None \<or> 32 < length sessionID then Inl errDecode
         else if version \<noteq> legacyVersion then Inl errProtocolVersion
         else if compression \<noteq> 0 then Inl errIllegalParameter
         else bind_ok (parseExtensions ext msgServerHello) (\<lambda>es.
           Inr \<lparr>sh_random = rnd, sh_sessionID = sessionID, sh_suite = suite, sh_extensions = es\<rparr>))"

definition serverHello_marshal :: "serverHello \<Rightarrow> dtls_error + byte list" where
  "serverHello_marshal h =
     (if 32 < length (sh_sessionID h) then Inl errDecode
      else bind_ok (ext_marshal (sh_extensions h)) (\<lambda>ext.
        wr_result
          (write_vector16 ext
          (writeUint8 0
          (writeUint16 (sh_suite h)
          (write_vector8 (sh_sessionID h)
          (append_raw (sh_random h)
          (writeUint16 legacyVersion new_writer))))))))"

definition sh_retry :: "serverHello \<Rightarrow> bool" where
  "sh_retry h \<longleftrightarrow> sh_random h = retryRandom"

definition uint16List :: "byte list \<Rightarrow> dtls_error + u16 list" where
  "uint16List data = (if length data = 0 \<or> length data mod 2 \<noteq> 0 then Inl errDecode else Inr (uint16s data))"

end
