(* ===== verification/PostHandshake.thy ===== *)
theory PostHandshake
  imports SessionFlight Hello
begin

text \<open>
  \<open>internal/dtls13/post_handshake.go\<close> and \<open>connection_id.go\<close>: key updates and connection identifiers
  after the handshake.  Wiping a secret that is dropped at the same time has no effect on the model.
\<close>

definition maxConnectionIDs :: nat where "maxConnectionIDs = 8"
definition handshakeReadRetention :: int where "handshakeReadRetention = 240000000000"

definition postTypes :: "byte list" where "postTypes = [msgNewConnectionID, msgRequestConnectionID, msgKeyUpdate]"

definition hs_message :: "byte \<Rightarrow> u64 \<Rightarrow> byte list \<Rightarrow> handshakeState \<Rightarrow> (dtls_error + handshakeMessage) \<times> handshakeState" where
  "hs_message ty ep body h =
     (if 65535 < hs_sequence h then (Inl errSequence, h)
      else
        let m = \<lparr>msg_typ = ty, msg_sequence = ucast (hs_sequence h), msg_epoch = ep, msg_body = body\<rparr>;
            next = h\<lparr>hs_sequence := hs_sequence h + 1\<rparr>
        in case hs_schedule h of
             Some ks \<Rightarrow>
               if \<not> hs_complete h then
                 (case ks_write ks m of
                    Inl e \<Rightarrow> (Inl e, h)
                  | Inr ks' \<Rightarrow> (Inr m, next\<lparr>hs_schedule := Some ks'\<rparr>))
               else (Inr m, next)
           | None \<Rightarrow> (Inr m, next))"

definition discardHandshakeRead :: "'h session \<Rightarrow> 'h session" where
  "discardHandshakeRead s =
     s\<lparr>epochs := (epochs s)\<lparr>ep_read := AList.delete 2 (ep_read (epochs s))\<rparr>, epoch2ReadKeyExpiry := None\<rparr>"

definition expireHandshakeRead :: "int \<Rightarrow> 'h session \<Rightarrow> 'h session" where
  "expireHandshakeRead now s =
     (if epoch2ReadKeyExpiry s \<noteq> None \<and> \<not> is_before now (epoch2ReadKeyExpiry s) then discardHandshakeRead s else s)"

definition startPost :: "byte \<Rightarrow> byte list \<Rightarrow> int \<Rightarrow> ('h session, unit) act" where
  "startPost ty body now s =
     (if \<not> hs_complete (handshake s) \<or> updating (keyUpdate s) \<or> outbound_open s then (Inl errOperationPending, s)
      else if (case map_of (post s) ty of None \<Rightarrow> False | Some f \<Rightarrow> \<not> complete f) then (Inl errOperationPending, s)
      else case hs_message ty (currentWriteEpoch s) body (handshake s) of
        (Inl e, h) \<Rightarrow> (Inl e, s\<lparr>handshake := h\<rparr>)
      | (Inr m, h) \<Rightarrow>
          let s1 = s\<lparr>handshake := h\<rparr> in
          (case newFlight [m] (retransmitTimer (rtt s1)) of
             Inl e \<Rightarrow> (Inl e, s1)
           | Inr f \<Rightarrow>
               (case session_transmit (Post ty) now (s1\<lparr>post := AList.update ty f (post s1)\<rparr>) of
                  (Inr _, s2) \<Rightarrow> (Inr (), s2)
                | (Inl e, s2) \<Rightarrow>
                    let f' = the (map_of (post s2) ty) in
                    if fl_sent f' = [] then
                      (Inl e, s2\<lparr>post := AList.delete ty (post s2),
                                 handshake := (handshake s2)\<lparr>hs_sequence :=
                                   hs_sequence (handshake s2) - of_nat (length (messages f'))\<rparr>\<rparr>)
                    else if deadline f' = None then
                      (Inl e, s2\<lparr>post := AList.update ty (f'\<lparr>deadline := Some (now + interval f')\<rparr>) (post s2)\<rparr>)
                    else (Inl e, s2))))"

subsection \<open>Connection identifiers\<close>

definition acceptCID :: "'h session \<Rightarrow> byte list \<Rightarrow> bool" where
  "acceptCID s c =
     (case local_cids (cid s) of None \<Rightarrow> c = localCID (handshake s) | Some ids \<Rightarrow> c \<in> set ids)"

definition usedLocalCID :: "byte list \<Rightarrow> ('h session, unit) act" where
  "usedLocalCID c s =
     (if immediate (cid s) = [] \<or> c \<notin> set (immediate (cid s)) then (Inr (), s)
      else andthen (call_setLocal (immediate (cid s))) (\<lambda>_ s1.
        (Inr (), s1\<lparr>cid := (cid s1)\<lparr>local_cids := Some (immediate (cid s1)), immediate := []\<rparr>\<rparr>)) s)"

definition requestCIDs :: "byte \<Rightarrow> int \<Rightarrow> ('h session, unit) act" where
  "requestCIDs count now s =
     (if \<not> cidNegotiated (handshake s) \<or> peerCID (handshake s) = [] then (Inl errUnexpectedMessage, s)
      else if requested (cid s) then (Inl errOperationPending, s)
      else andthen (startPost msgRequestConnectionID [count] now)
             (\<lambda>_ s1. (Inr (), s1\<lparr>cid := (cid s1)\<lparr>requested := True\<rparr>\<rparr>)) s)"

definition probing :: "'h session \<Rightarrow> bool" where
  "probing s = (case path s of None \<Rightarrow> False | Some p \<Rightarrow> probe p \<noteq> None)"

definition cidBusy :: "'h session \<Rightarrow> bool" where
  "cidBusy s \<longleftrightarrow>
     updating (keyUpdate s) \<or> outbound_open s \<or> map_of (post s) msgNewConnectionID \<noteq> None \<or>
     immediate (cid s) \<noteq> [] \<or> probing s"

definition init_local :: "'h session \<Rightarrow> 'h session" where
  "init_local s =
     (case local_cids (cid s) of
        None \<Rightarrow> s\<lparr>cid := (cid s)\<lparr>local_cids := Some [localCID (handshake s)]\<rparr>\<rparr>
      | Some _ \<Rightarrow> s)"

definition encodeCIDs :: "byte list list \<Rightarrow> bool \<Rightarrow> dtls_error + byte list" where
  "encodeCIDs ids imm =
     (let list = fold write_vector8 ids new_writer in
      case wr_err list of
        Some e \<Rightarrow> Inl e
      | None \<Rightarrow>
          let w = write_vector16 (wr_data list) new_writer in
          if imm \<and> length ids = 0 then Inl errIllegalParameter
          else wr_result (writeUint8 (if imm then 0 else 1) w))"

function cid_list :: "wireReader \<Rightarrow> byte list list \<Rightarrow> dtls_error + byte list list" where
  "cid_list r ids =
     (if length (rd_data r) = 0 then Inr ids
      else
        let (i, r1) = vector8 r in
        if rd_err r1 \<noteq> None then Inl errDecode
        else cid_list r1 (if length ids < maxConnectionIDs \<and> i \<notin> set ids then ids @ [i] else ids))"
  by pat_completeness auto
termination
  by (relation "measure (\<lambda>(r, ids). length (rd_data r))") (auto, metis snd_conv vector8_progress)

declare cid_list.simps [simp del]

definition parseCIDs :: "byte list \<Rightarrow> dtls_error + byte list list \<times> bool" where
  "parseCIDs body =
     (let (l, r1) = vector16 (new_reader body); (usage, r2) = readUint8 r1 in
      if rd_done r2 \<noteq> None then Inl errDecode
      else if 1 < usage \<or> usage = 0 \<and> length l = 0 then Inl errIllegalParameter
      else bind_ok (cid_list (new_reader l) []) (\<lambda>ids. Inr (ids, usage = 0)))"

text \<open>The loop that draws fresh identifiers of \<open>n > 0\<close> bytes from the random source.\<close>

function fresh_cids :: "nat \<Rightarrow> nat \<Rightarrow> byte list list \<Rightarrow> ('h session, byte list list) act" where
  "fresh_cids n count ids s =
     (if count \<le> length ids \<or> n = 0 then (Inr ids, s)
      else case rand_Read n s of
        (Inl e, s1) \<Rightarrow> (Inl e, s1)
      | (Inr i, s1) \<Rightarrow>
          fresh_cids n count (if i \<notin> set (the (local_cids (cid s1))) \<and> i \<notin> set ids then ids @ [i] else ids) s1)"
  by pat_completeness auto
termination
  by (relation "measure (\<lambda>(n, count, ids, s). length (random (world s)))")
     (auto simp: rand_Read_def Let_def split: if_splits)

declare fresh_cids.simps [simp del]

text \<open>The end of \<open>provideCIDs\<close>: announce the identifiers, or take them back when the message was not sent.\<close>

definition announce_cids :: "byte list list \<Rightarrow> byte list \<Rightarrow> int \<Rightarrow> ('h session, unit) act" where
  "announce_cids prevLocal body now s =
     (case startPost msgNewConnectionID body now s of
        (Inr _, s1) \<Rightarrow> (Inr (), s1)
      | (Inl e, s1) \<Rightarrow>
          if map_of (post s1) msgNewConnectionID \<noteq> None then (Inl e, s1)
          else
            (case call_setLocal prevLocal s1 of
               (Inl e', s2) \<Rightarrow> (Inl e', s2)
             | (Inr _, s2) \<Rightarrow> (Inl e, s2\<lparr>cid := (cid s2)\<lparr>local_cids := Some prevLocal, immediate := []\<rparr>\<rparr>)))"

definition install_cids :: "byte list list \<Rightarrow> bool \<Rightarrow> int \<Rightarrow> ('h session, unit) act" where
  "install_cids ids imm now s =
     (case encodeCIDs ids imm of
        Inl e \<Rightarrow> (Inl e, s)
      | Inr body \<Rightarrow>
          let prevLocal = the (local_cids (cid s)); updated = prevLocal @ ids in
          andthen (call_setLocal updated) (\<lambda>_ s1.
            announce_cids prevLocal body now
              (s1\<lparr>cid := (cid s1)\<lparr>local_cids := Some updated,
                                   immediate := (if imm then ids else immediate (cid s1))\<rparr>\<rparr>)) s)"

definition provideCIDs :: "int \<Rightarrow> bool \<Rightarrow> int \<Rightarrow> ('h session, unit) act" where
  "provideCIDs count0 imm now s =
     (if \<not> cidNegotiated (handshake s) \<or> localCID (handshake s) = [] then (Inl errUnexpectedMessage, s)
      else if cidBusy s then (Inl errOperationPending, s)
      else
        let s1 = init_local s;
            count = (if imm then 1
                     else min (max count0 0) (int maxConnectionIDs - int (length (the (local_cids (cid s1))))))
        in andthen (fresh_cids (length (localCID (handshake s1))) (nat count) [])
             (\<lambda>ids. install_cids ids imm now) s1)"

definition respondCIDRequest :: "int \<Rightarrow> ('h session, unit) act" where
  "respondCIDRequest now s =
     (case response (cid s) of
        None \<Rightarrow> (Inr (), s)
      | Some count \<Rightarrow>
          if cidBusy s then (Inr (), s)
          else
            let s1 = init_local s in
            if maxConnectionIDs \<le> length (the (local_cids (cid s1))) \<and> 0 < count then provideCIDs 1 True now s1
            else provideCIDs (int (unat count)) False now (s1\<lparr>cid := (cid s1)\<lparr>response := None\<rparr>\<rparr>))"

definition add_spare :: "byte list \<Rightarrow> byte list \<Rightarrow> byte list list \<Rightarrow> byte list list" where
  "add_spare current i spare =
     (if length spare < maxConnectionIDs \<and> i \<noteq> current \<and> i \<notin> set spare then spare @ [i] else spare)"

definition receiveCIDs :: "byte list \<Rightarrow> ('h session, unit) act" where
  "receiveCIDs body s =
     (if \<not> peerCIDUpdates (handshake s) then (Inl errUnexpectedMessage, s)
      else case parseCIDs body of
        Inl e \<Rightarrow> (Inl e, s)
      | Inr (ids, imm) \<Rightarrow>
          if imm then
            let s1 = s\<lparr>handshake := (handshake s)\<lparr>peerCID := hd ids\<rparr>, cid := (cid s)\<lparr>peerSpare := tl ids\<rparr>\<rparr>;
                s2 = (case path s1 of
                        Some p \<Rightarrow>
                          (case probe p of
                             Some pr \<Rightarrow> if pp_phase pr = pathValidateCandidate
                                        then set_probe (Some (pr\<lparr>pp_cid := hd ids\<rparr>)) s1 else s1
                           | None \<Rightarrow> s1)
                      | None \<Rightarrow> s1)
            in sendACK s2
          else
            sendACK (s\<lparr>cid := (cid s)\<lparr>peerSpare := fold (add_spare (peerCID (handshake s))) ids (peerSpare (cid s)),
                                      requested := False\<rparr>\<rparr>))"

subsection \<open>Key updates\<close>

definition updatedKeys :: "'h session \<Rightarrow> byte list \<Rightarrow> dtls_error + byte list \<times> trafficKeys" where
  "updatedKeys s secret =
     bind_ok (nextTrafficSecret (prims s) (hs_CipherSuite (handshake s)) secret) (\<lambda>updated.
     bind_ok (newTrafficKeys (prims s) (hs_CipherSuite (handshake s)) updated) (\<lambda>keys. Inr (updated, keys)))"

definition lastEpoch :: u64 where "lastEpoch = 2 ^ 48 - 1"

text \<open>The steps of \<open>advancePost\<close>, in its order: retire the handshake's secrets and epochs, switch to the
  next write epoch, start a key update, answer and make requests for identifiers.\<close>

definition retire_handshake :: "int \<Rightarrow> 'h session \<Rightarrow> 'h session" where
  "retire_handshake now s =
     (let s1 = (if hs_schedule (handshake s) \<noteq> None
                then s\<lparr>handshake := (handshake s)\<lparr>hs_schedule := None, clientApplication := [], serverApplication := []\<rparr>,
                       handleHandshake := None\<rparr>
                else s);
          s2 = s1\<lparr>epochs := (epochs s1)\<lparr>ep_write := AList.delete 2 (AList.delete 0 (ep_write (epochs s1)))\<rparr>\<rparr>
      in if map_of (ep_read (epochs s2)) 2 = None then s2
         else if hs_client (handshake s2) then discardHandshakeRead s2
         else if epoch2ReadKeyExpiry s2 = None
         then s2\<lparr>epoch2ReadKeyExpiry := Some (now + handshakeReadRetention)\<rparr>
         else s2)"

definition switch_epoch :: "('h session, unit) act" where
  "switch_epoch s =
     (let ep = currentWriteEpoch s in
      case map_of (ep_write (epochs s)) ep of
        None \<Rightarrow> (Inl panicked, s)
      | Some w \<Rightarrow>
          (case updatedKeys s (wk_secret w) of
             Inl e \<Rightarrow> (Inl e, s)
           | Inr (secret, keys) \<Rightarrow>
               (Inr (), s\<lparr>epochs := (epochs s)\<lparr>ep_write :=
                            AList.delete ep (AList.update (ep + 1) \<lparr>wk_keys = Some keys, wk_secret = secret, wk_sequence = 0\<rparr>
                              (ep_write (epochs s)))\<rparr>,
                          keyUpdate := (keyUpdate s)\<lparr>updating := False\<rparr>\<rparr>)))"

definition begin_update :: "int \<Rightarrow> ('h session, unit) act" where
  "begin_update now s =
     (if \<not> localPending (keyUpdate s) then (Inr (), s)
      else if lastEpoch \<le> currentWriteEpoch s then (Inl errSequence, s)
      else
        let request = (if requestPeer (keyUpdate s) \<and> \<not> awaitingPeer (keyUpdate s) then 1 else 0);
            (r, s1) = startPost msgKeyUpdate [request] now s
        in if (case r of Inl _ \<Rightarrow> True | Inr _ \<Rightarrow> False) \<and>
              (case map_of (post s1) msgKeyUpdate of None \<Rightarrow> True | Some f \<Rightarrow> fl_sent f = [])
           then (r, s1)
           else (r, s1\<lparr>keyUpdate := (keyUpdate s1)\<lparr>updating := True, localPending := False, requestPeer := False,
                         awaitingPeer := (if request = 1 then True else awaitingPeer (keyUpdate s1))\<rparr>\<rparr>))"

definition ask_cids :: "int \<Rightarrow> ('h session, unit) act" where
  "ask_cids now s =
     (if \<not> updating (keyUpdate s) \<and> want (cid s) \<and> \<not> requested (cid s) \<and>
         map_of (post s) msgRequestConnectionID = None \<and> \<not> probing s
      then
        let s1 = s\<lparr>cid := (cid s)\<lparr>want := False\<rparr>\<rparr> in
        if cidNegotiated (handshake s1) \<and> peerCID (handshake s1) \<noteq> [] then requestCIDs 4 now s1 else (Inr (), s1)
      else (Inr (), s))"

definition rotate_keys :: "int \<Rightarrow> ('h session, unit) act" where
  "rotate_keys now =
     andthen (\<lambda>s. if updating (keyUpdate s) then switch_epoch s else (Inr (), s))
       (\<lambda>_ s. begin_update now (s\<lparr>post := filter (\<lambda>(ty, f). \<not> complete f) (post s)\<rparr>))"

definition advancePost :: "int \<Rightarrow> ('h session, unit) act" where
  "advancePost now s =
     (if \<not> hs_complete (handshake s) \<or> outbound_open s then (Inr (), s)
      else
        let s1 = retire_handshake now s in
        if updating (keyUpdate s1) \<and> list_ex (\<lambda>(ty, f). \<not> complete f) (post s1) then (Inr (), s1)
        else
          andthen (rotate_keys now) (\<lambda>_.
          andthen (respondCIDRequest now) (\<lambda>_. ask_cids now)) s1)"

definition requestKeyUpdate :: "bool \<Rightarrow> int \<Rightarrow> ('h session, unit) act" where
  "requestKeyUpdate ask now s =
     (if \<not> hs_complete (handshake s) then (Inl errUnexpectedMessage, s)
      else if lastEpoch \<le> currentWriteEpoch s then (Inl errSequence, s)
      else advancePost now (s\<lparr>keyUpdate := (keyUpdate s)\<lparr>localPending := True,
             requestPeer := (ask \<and> \<not> awaitingPeer (keyUpdate s) \<or> requestPeer (keyUpdate s))\<rparr>\<rparr>))"

definition acknowledgePost :: "recordNumber list \<Rightarrow> bool \<Rightarrow> int \<Rightarrow> ('h session, unit) act" where
  "acknowledgePost records authenticated now =
     andthen (acknowledgeFlight (Post msgNewConnectionID) records authenticated now) (\<lambda>_.
     andthen (acknowledgeFlight (Post msgRequestConnectionID) records authenticated now) (\<lambda>_.
     andthen (acknowledgeFlight (Post msgKeyUpdate) records authenticated now) (\<lambda>_. advancePost now)))"

definition validateSessionTicket :: "byte list \<Rightarrow> dtls_error + unit" where
  "validateSessionTicket body =
     (let (_, r1) = rd_take 8 (new_reader body); (_, r2) = vector8 r1;
          (ticket, r3) = vector16 r2; (ext, r4) = vector16 r3
      in if rd_done r4 \<noteq> None \<or> length ticket = 0 then Inl errDecode
         else bind_ok (parseExtensions ext msgNewSessionTicket) (\<lambda>_. Inr ()))"

definition next_read_epoch :: "u64 \<Rightarrow> byte list \<Rightarrow> trafficKeys \<Rightarrow> 'h session \<Rightarrow> 'h session" where
  "next_read_epoch ep secret keys s =
     discardHandshakeRead
       (s\<lparr>epochs := (epochs s)\<lparr>readApplicationEpoch := ep + 1,
            ep_read := AList.update (ep + 1) \<lparr>rk_keys = keys, rk_secret = secret,
              rk_window = \<lparr>highest = 0, bits = 0\<rparr>, failures = 0\<rparr> (ep_read (epochs s))\<rparr>\<rparr>)"

definition receiveKeyUpdate :: "handshakeMessage \<Rightarrow> ('h session, unit) act" where
  "receiveKeyUpdate m s =
     (if length (msg_body m) \<noteq> 1 then (Inl errDecode, s)
      else if 1 < msg_body m ! 0 \<or> msg_epoch m \<noteq> readApplicationEpoch (epochs s) then (Inl errIllegalParameter, s)
      else if msg_epoch m = - 1 then (Inl errSequence, s)
      else case map_of (ep_read (epochs s)) (msg_epoch m) of
        None \<Rightarrow> (Inl panicked, s)
      | Some k \<Rightarrow>
          (case updatedKeys s (rk_secret k) of
             Inl e \<Rightarrow> (Inl e, s)
           | Inr (secret, keys) \<Rightarrow>
               let s1 = next_read_epoch (msg_epoch m) secret keys s
               in sendACK (s1\<lparr>keyUpdate := (keyUpdate s1)\<lparr>awaitingPeer := False, requestPeer := False,
                    localPending := (msg_body m ! 0 = 1 \<and> currentWriteEpoch s1 < lastEpoch \<or> localPending (keyUpdate s1))\<rparr>\<rparr>)))"

definition receivePost :: "handshakeMessage \<Rightarrow> ('h session, unit) act" where
  "receivePost m s =
     (if msg_epoch m < 3 \<or> msg_epoch m \<noteq> readApplicationEpoch (epochs s) then (Inl errUnexpectedMessage, s)
      else if msg_typ m = msgKeyUpdate then receiveKeyUpdate m s
      else if msg_typ m = msgNewSessionTicket then
        (if \<not> hs_client (handshake s) then (Inl errUnexpectedMessage, s)
         else case validateSessionTicket (msg_body m) of Inl e \<Rightarrow> (Inl e, s) | Inr _ \<Rightarrow> sendACK s)
      else if msg_typ m = msgNewConnectionID then receiveCIDs (msg_body m) s
      else if msg_typ m = msgRequestConnectionID then
        (if \<not> cidNegotiated (handshake s) \<or> localCID (handshake s) = [] then (Inl errUnexpectedMessage, s)
         else if length (msg_body m) \<noteq> 1 then (Inl errDecode, s)
         else if response (cid s) \<noteq> None then (Inl (alertError 52), s)
         else sendACK (s\<lparr>cid := (cid s)\<lparr>response := Some (msg_body m ! 0)\<rparr>\<rparr>))
      else (Inl errUnexpectedMessage, s))"

end
