(* ===== verification/SessionFrame.thy ===== *)
theory SessionFrame
  imports PostHandshake
begin

text \<open>
  What the operations of a session do to a relation between its states.  \<open>flight_frame\<close> asks of a
  preorder that the elementary updates of the write path, the acknowledgements and the flights stay
  within it, and concludes the same of every operation built from them; \<open>start_frame\<close> and \<open>post_frame\<close> add
  the updates of the messages after the handshake, \<open>mtu_frame\<close> those of path MTU discovery and \<open>path_frame\<close> those of path
  validation.  An invariant of the session is such a relation: \<open>I s \<longrightarrow> I s'\<close>.
\<close>

subsection \<open>The callbacks of the write path\<close>

text \<open>A callback hands the packet to the transport once or drops it, and touches nothing but the world and
  the credit of a path probe.\<close>

definition hands_over :: "(byte list \<Rightarrow> ('h session, unit) act) \<Rightarrow> bool" where
  "hands_over send \<longleftrightarrow>
     (\<forall>p s. \<exists>w pp. snd (send p s) = s\<lparr>world := w, path := pp\<rparr> \<and> sealed w = sealed (world s) \<and>
        (tx_log w = tx_log (world s) \<or> (\<exists>d. tx_log w = (d, p) # tx_log (world s))))"

lemma session_as_update: "s = s\<lparr>world := world s, path := path s\<rparr>"
  by simp

lemma hands_over_transport: "hands_over (transport_send d :: byte list \<Rightarrow> ('h session, unit) act)"
proof -
  have "\<exists>w. snd (transport_send d p s) = s\<lparr>world := w, path := path s\<rparr> \<and> sealed w = sealed (world s) \<and> tx_log w = (d, p) # tx_log (world s)"
    for p and s :: "'h session"
    by (rule exI [of _ "world (snd (transport_send d p s))"]) (simp add: transport_send_def Let_def split: prod.split)
  then show ?thesis unfolding hands_over_def by blast
qed

lemma hands_over_exact: "hands_over (exact_send sz :: byte list \<Rightarrow> ('h session, unit) act)"
proof -
  have "\<exists>w pp. snd (exact_send sz p s) = s\<lparr>world := w, path := pp\<rparr> \<and> sealed w = sealed (world s) \<and>
      (tx_log w = tx_log (world s) \<or> (\<exists>d. tx_log w = (d, p) # tx_log (world s)))" for p and s :: "'h session"
    using hands_over_transport [unfolded hands_over_def, rule_format, of None p s]
    by (cases "int (length p) = sz") (simp_all add: exact_send_def fail_def exI [of _ "world s"] exI [of _ "path s"])
  then show ?thesis by (simp add: hands_over_def)
qed

lemma hands_over_limited: "hands_over (send_limited d n :: byte list \<Rightarrow> ('h session, unit) act)"
proof -
  have "\<exists>w pp. snd (send_limited d n p s) = s\<lparr>world := w, path := pp\<rparr> \<and> sealed w = sealed (world s) \<and>
      (tx_log w = tx_log (world s) \<or> (\<exists>d. tx_log w = (d, p) # tx_log (world s)))" for p and s :: "'h session"
  proof -
    have t: "\<exists>w pp. snd (transport_send (Some e) p (s\<lparr>path := x\<rparr>)) = s\<lparr>world := w, path := pp\<rparr> \<and> sealed w = sealed (world s) \<and>
      (tx_log w = tx_log (world s) \<or> (\<exists>d. tx_log w = (d, p) # tx_log (world s)))" for x e
      using hands_over_transport [unfolded hands_over_def, rule_format, of "Some e" p "s\<lparr>path := x\<rparr>"] by simp
    have u: "\<exists>w pp. s = s\<lparr>world := w, path := pp\<rparr> \<and> sealed w = sealed (world s) \<and>
      (tx_log w = tx_log (world s) \<or> (\<exists>d. tx_log w = (d, p) # tx_log (world s)))" using session_as_update [of s] by blast
    show ?thesis
      using t [of d "path s"] t u
      by (simp add: send_limited_def set_probe_def Let_def split: option.split)
  qed
  then show ?thesis by (simp add: hands_over_def)
qed

lemma hands_over_keeps:
  assumes "hands_over send"
  shows "epochs (snd (send p s)) = epochs s" "keyUpdate (snd (send p s)) = keyUpdate s"
    "handshake (snd (send p s)) = handshake s" "handleHandshake (snd (send p s)) = handleHandshake s"
    "working (snd (send p s)) = working s" "mtu (snd (send p s)) = mtu s"
    "sealed (world (snd (send p s))) = sealed (world s)"
  using assms [unfolded hands_over_def, rule_format, of p s] by auto

lemma hands_over_log:
  assumes "hands_over send"
  shows "tx_log (world (snd (send p s))) = tx_log (world s) \<or> (\<exists>d. tx_log (world (snd (send p s))) = (d, p) # tx_log (world s))"
  using assms [unfolded hands_over_def, rule_format, of p s] by auto

subsection \<open>Flights and acknowledgements\<close>

locale state_preorder =
  fixes R :: "'h session \<Rightarrow> 'h session \<Rightarrow> bool"
  assumes R_refl: "R s s"
    and R_trans: "R s t \<Longrightarrow> R t u \<Longrightarrow> R s u"
begin

lemma R_reflp: "reflp R" by (simp add: reflp_def R_refl)
lemma R_transp: "transp R" by (rule transpI) (rule R_trans)

lemma R_andthen_at:
  assumes "R s (snd (m s))" "\<And>x s'. m s = (Inr x, s') \<Longrightarrow> R s' (snd (f x s'))"
  shows "R s (snd (andthen m f s))"
proof (cases rule: andthen_cases [of m s f])
  case (val x s')
  then show ?thesis using R_trans [of s s'] assms by simp
qed (use assms in simp)

end

locale flight_frame = state_preorder R for R :: "'h session \<Rightarrow> 'h session \<Rightarrow> bool" +
  assumes R_sendRecord: "R s (snd (sendRecord ep ty body s))"
    and R_ack: "R s (s\<lparr>ack := a\<rparr>)"
    and R_reduce: "R s (snd (reduceHandshakeMTU n s))"
    and R_outbound: "R s (s\<lparr>outbound := fo\<rparr>)"
    and R_post: "R s (s\<lparr>post := ps\<rparr>)"
    and R_rtt: "R s (s\<lparr>rtt := d\<rparr>)"
    and R_install: "e \<in> {2, 3} \<Longrightarrow> R s (snd (install_pair e c sv s))"
begin

lemma R_flight: "R s (set_flight r f s)"
  by (cases r) (simp_all add: R_outbound R_post)

lemma R_write_acks: "R s (snd (write_acks n ps s))"
proof (induction n ps s rule: write_acks.induct)
  case (1 n ps s)
  show ?case
  proof (cases "ps = [] \<or> n = 0")
    case True
    then show ?thesis by (subst write_acks.simps) (simp add: R_refl)
  next
    case nil: False
    show ?thesis
    proof (cases "encodeACK (take n ps)")
      case (Inl e)
      then show ?thesis using nil by (subst write_acks.simps) (simp add: R_refl)
    next
      case (Inr body)
      obtain r s1 where send: "sendRecord (currentWriteEpoch s) contentACK body s = (r, s1)" by fastforce
      then have s1: "R s s1" using R_sendRecord by (metis snd_conv)
      show ?thesis
      proof (cases r)
        case (Inl e)
        then show ?thesis using nil Inr send s1 by (subst write_acks.simps) simp
      next
        case r: (Inr x)
        have "R s (snd (write_acks n (drop n ps) (s1\<lparr>ack := (ack s1)\<lparr>ack_pending := drop n ps\<rparr>\<rparr>)))"
          using 1 [OF nil Inr send [unfolded r, symmetric]] s1 R_ack R_trans by blast
        then show ?thesis using nil Inr send r by (subst write_acks.simps) simp
      qed
    qed
  qed
qed

lemma R_writeAcknowledgements: "R s (snd (writeAcknowledgements b s))"
proof -
  have "R s (snd (andthen (write_acks n ps) (\<lambda>_ s1. (Inr (), s1\<lparr>ack := (ack s1)\<lparr>ack_deadline := None\<rparr>\<rparr>)) s))" for n ps
    by (rule R_andthen_at [OF R_write_acks]) (simp add: R_ack)
  then show ?thesis unfolding writeAcknowledgements_def Let_def by (simp add: R_refl R_ack)
qed

lemma R_sendACK: "R s (snd (sendACK s))"
  by (simp add: sendACK_def R_writeAcknowledgements)

lemma R_sendScheduledACK: "R s (snd (sendScheduledACK now s))"
  by (simp add: sendScheduledACK_def R_writeAcknowledgements R_ack)

lemma R_queueAcknowledgement: "R s (snd (queueAcknowledgement number now s))"
  unfolding queueAcknowledgement_def Let_def
  by (rule R_andthen_at) (auto intro: R_refl R_ack R_sendACK R_trans [OF R_ack R_sendACK])

lemma R_session_transmit: "R s (snd (session_transmit r now s))"
proof (induction r now s rule: session_transmit.induct)
  case (1 r now s)
  show ?case
  proof (cases "get_flight r s")
    case None
    then show ?thesis by (subst session_transmit.simps) (simp add: R_refl)
  next
    case (Some f)
    obtain err f' s1 where tr: "transmit (\<lambda>s ep body. sendRecord ep contentHandshake body s) now (fragmentCapacity s) f s = (err, f', s1)"
      by (metis prod_cases3)
    have "R s s1"
      using transmit_within [OF R_reflp R_transp, where send = "\<lambda>s ep body. sendRecord ep contentHandshake body s"
          and s = s and now = now and capacity = "fragmentCapacity s" and f = f] tr R_sendRecord by simp
    then have s2: "R s (set_flight r f' s1)" using R_flight R_trans by blast
    show ?thesis
    proof (cases err)
      case None
      then show ?thesis using Some tr s2 R_trans [OF s2 R_sendACK] by (subst session_transmit.simps) (simp add: Let_def)
    next
      case e: (Some e)
      obtain b s3 where rd: "reduceHandshakeMTU (lastSendSize (working (set_flight r f' s1))) (set_flight r f' s1) = (b, s3)"
        by fastforce
      then have s3: "R s s3" using R_trans [OF s2 R_reduce] by (metis snd_conv)
      show ?thesis
      proof (cases "isMessageTooLong e \<and> b")
        case True
        then have "R s3 (snd (session_transmit r now s3))"
          using 1 [OF Some tr [symmetric]] e rd by simp
        then show ?thesis using True Some tr e rd R_trans [OF s3] by (subst session_transmit.simps) (simp add: Let_def)
      next
        case False
        then show ?thesis using Some tr e rd s2 s3
          by (subst session_transmit.simps) (cases b, auto simp: Let_def)
      qed
    qed
  qed
qed

lemma R_installKeys: "R s (snd (installKeys s))"
  unfolding installKeys_def by (auto intro: R_refl R_andthen_at R_install split: option.split)

lemma R_startFlight: "R s (snd (startFlight ms now s))"
  unfolding startFlight_def Let_def
  by (rule R_andthen_at [OF R_installKeys])
     (auto intro: R_refl R_trans [OF R_outbound R_session_transmit] split: sum.split)

lemma R_acknowledgeFlight: "R s (snd (acknowledgeFlight r records auth now s))"
proof (cases "get_flight r s")
  case None
  then show ?thesis by (simp add: acknowledgeFlight_def R_refl)
next
  case (Some f)
  have "R s (set_flight r g (s\<lparr>rtt := t\<rparr>))" for g t using R_trans [OF R_rtt R_flight] .
  then show ?thesis using Some
    by (auto simp: acknowledgeFlight_def case_prod_unfold Let_def intro: R_trans [OF _ R_session_transmit])
qed

lemma R_set_expired: "R s (case fo of None \<Rightarrow> s | Some f \<Rightarrow> set_flight r f s)"
  by (cases fo) (simp_all add: R_refl R_flight)

lemma R_retransmitExpired: "R s (snd (retransmitExpired r now s))"
  unfolding retransmitExpired_def Let_def case_prod_unfold
  by (auto intro: R_set_expired R_trans [OF R_set_expired R_session_transmit] split: sum.split)

lemma R_expireOutbound: "R s (snd (expireOutbound now s))"
proof -
  obtain due fo where e: "expire (outbound s) now = (due, fo)" by fastforce
  define s1 where "s1 = s\<lparr>outbound := fo\<rparr>"
  have s1: "R s s1" by (simp add: s1_def R_outbound)
  have "R s (if b then snd (reduceHandshakeMTU 0 s1) else s1)" for b
    using s1 R_trans [OF s1 R_reduce] by simp
  then have "R s (snd (session_transmit Outbound now ((if b then snd (reduceHandshakeMTU 0 s1) else s1)\<lparr>outbound := g\<rparr>)))" for b g
    using R_trans R_outbound R_session_transmit by blast
  then show ?thesis using s1
    unfolding expireOutbound_def e Let_def prod.case s1_def [symmetric] by (cases due) simp_all
qed

end

locale start_frame = flight_frame R for R :: "'h session \<Rightarrow> 'h session \<Rightarrow> bool" +
  assumes R_message: "R s (s\<lparr>handshake := snd (hs_message ty ep body (handshake s))\<rparr>)"
    and R_hs_sequence: "R s (s\<lparr>handshake := (handshake s)\<lparr>hs_sequence := q\<rparr>\<rparr>)"
begin

lemma R_startPost: "R s (snd (startPost ty body now s))"
proof (cases "hs_message ty (currentWriteEpoch s) body (handshake s)")
  case (Pair r h)
  have h: "R s (s\<lparr>handshake := h\<rparr>)" using R_message [of s ty "currentWriteEpoch s" body] Pair by simp
  have s2: "R s u" if "session_transmit (Post ty) now (s\<lparr>handshake := h, post := ps\<rparr>) = (q, u)" for ps q u
    using R_trans [OF h] R_trans [OF R_post R_session_transmit] that by (metis snd_conv)
  have del: "R s (u\<lparr>post := qs, handshake := (handshake u)\<lparr>hs_sequence := n\<rparr>\<rparr>)" if "R s u" for u qs n
    using R_trans [OF that] R_trans [OF R_post R_hs_sequence] by simp
  have upd: "R s (u\<lparr>post := qs\<rparr>)" if "R s u" for u qs
    using R_trans [OF that R_post] .
  show ?thesis
    using h by (auto simp: startPost_def Pair Let_def R_refl s2 del [OF s2] upd [OF s2] split: sum.split prod.split)
qed

lemma R_begin_update:
  assumes "\<And>s k. R s (s\<lparr>keyUpdate := k\<rparr>)"
  shows "R s (snd (begin_update now s))"
proof -
  have "R s (snd (startPost ty body now s))" "R s ((snd (startPost ty body now s))\<lparr>keyUpdate := k\<rparr>)" for ty body k
    using R_startPost R_trans [OF R_startPost assms] by blast+
  then show ?thesis by (auto simp: begin_update_def Let_def case_prod_unfold R_refl)
qed

lemma R_rotate_keys:
  assumes "\<And>s k. R s (s\<lparr>keyUpdate := k\<rparr>)" "\<And>s. R s (snd (switch_epoch s))"
  shows "R s (snd (rotate_keys now s))"
  unfolding rotate_keys_def
  by (rule R_andthen_at) (auto simp: R_refl assms(2) intro: R_trans [OF R_post R_begin_update [OF assms(1)]])

end

text \<open>The write epochs left once the handshake's are retired.\<close>

definition retired_writes :: "'h session \<Rightarrow> bool" where
  "retired_writes s \<longleftrightarrow> 0 \<notin> fst ` set (ep_write (epochs s)) \<and> 2 \<notin> fst ` set (ep_write (epochs s))"

lemma retired_writes_retire: "retired_writes (retire_handshake now s)"
  by (auto simp: retired_writes_def retire_handshake_def discardHandshakeRead_def Let_def AList.delete_eq)

locale post_frame = start_frame R for R :: "'h session \<Rightarrow> 'h session \<Rightarrow> bool" +
  assumes R_cid: "R s (s\<lparr>cid := cs\<rparr>)"
    and R_keyUpdate: "updating k = updating (keyUpdate s) \<Longrightarrow> R s (s\<lparr>keyUpdate := k\<rparr>)"
    and R_peerCID: "R s (s\<lparr>handshake := (handshake s)\<lparr>peerCID := c\<rparr>\<rparr>)"
    and R_probe_cid: "path s = Some p \<Longrightarrow> probe p = Some pr \<Longrightarrow> R s (set_probe (Some (pr\<lparr>pp_cid := c\<rparr>)) s)"
    and R_rand: "R s (snd (rand_Read len s))"
    and R_hook: "R s (snd (call_setLocal ids s))"
    and R_discard: "R s (discardHandshakeRead s)"
    and R_retire: "R s (retire_handshake now s)"
    and R_rotate: "retired_writes s \<Longrightarrow> R s (snd (rotate_keys now s))"
    and R_next_read: "map_of (ep_read (epochs s)) ep = Some rk \<Longrightarrow> updatedKeys s (rk_secret rk) = Inr (secret, keys) \<Longrightarrow>
      R s (next_read_epoch ep secret keys s)"
begin

lemma R_expireHandshakeRead: "R s (expireHandshakeRead now s)"
  by (simp add: expireHandshakeRead_def R_discard R_refl)

lemma R_fresh_cids: "R s (snd (fresh_cids n count ids s))"
proof (induction n count ids s rule: fresh_cids.induct)
  case (1 n count ids s)
  show ?case
  proof (cases "count \<le> length ids \<or> n = 0")
    case True
    then show ?thesis by (subst fresh_cids.simps) (simp add: R_refl)
  next
    case False
    obtain r s1 where rd: "rand_Read n s = (r, s1)" by fastforce
    then have s1: "R s s1" using R_rand by (metis snd_conv)
    show ?thesis
    proof (cases r)
      case (Inl e)
      then show ?thesis using False rd s1 by (subst fresh_cids.simps) simp
    next
      case (Inr i)
      then show ?thesis using False rd R_trans [OF s1 1 [OF False rd [symmetric] Inr]] by (subst fresh_cids.simps) simp
    qed
  qed
qed

lemma R_usedLocalCID: "R s (snd (usedLocalCID c s))"
proof -
  have "R s (snd (andthen (call_setLocal ids) (\<lambda>_ s1. (Inr (), s1\<lparr>cid := g s1\<rparr>)) s))" for ids g
    by (rule R_andthen_at [OF R_hook]) (simp add: R_cid)
  then show ?thesis by (simp add: usedLocalCID_def R_refl)
qed

lemma R_requestCIDs: "R s (snd (requestCIDs count now s))"
proof -
  have "R s (snd (andthen (startPost ty body now) (\<lambda>_ s1. (Inr (), s1\<lparr>cid := g s1\<rparr>)) s))" for ty body g
    by (rule R_andthen_at [OF R_startPost]) (simp add: R_cid)
  then show ?thesis by (simp add: requestCIDs_def R_refl)
qed

lemma R_init_local: "R s (init_local s)"
  by (simp add: init_local_def R_refl R_cid split: option.split)

lemma R_announce_cids: "R s (snd (announce_cids prev body now s))"
proof -
  obtain q s1 where p: "startPost msgNewConnectionID body now s = (q, s1)" by fastforce
  then have s1: "R s s1" using R_startPost by (metis snd_conv)
  obtain q' s2 where h: "call_setLocal prev s1 = (q', s2)" by fastforce
  then have s2: "R s s2" using R_trans [OF s1] R_hook by (metis snd_conv)
  show ?thesis using s1 s2 R_trans [OF s2 R_cid] p h by (cases q; cases q') (auto simp: announce_cids_def)
qed

lemma R_install_cids: "R s (snd (install_cids ids imm now s))"
proof -
  have "R s (snd (andthen (call_setLocal up) (\<lambda>_ s1. announce_cids prev body now (s1\<lparr>cid := g s1\<rparr>)) s))" for up prev body g
    by (rule R_andthen_at [OF R_hook]) (rule R_trans [OF R_cid R_announce_cids])
  then show ?thesis by (simp add: install_cids_def Let_def R_refl split: sum.split)
qed

lemma R_provideCIDs: "R s (snd (provideCIDs count imm now s))"
proof -
  have "R s (snd (andthen (fresh_cids n k []) (\<lambda>ids. install_cids ids imm now) (init_local s)))" for n k
    by (rule R_trans [OF R_init_local], rule R_andthen_at [OF R_fresh_cids]) (rule R_install_cids)
  then show ?thesis by (simp add: provideCIDs_def Let_def R_refl)
qed

lemma R_respondCIDRequest: "R s (snd (respondCIDRequest now s))"
  using R_trans [OF R_init_local R_provideCIDs] R_trans [OF R_trans [OF R_init_local R_cid] R_provideCIDs]
  by (simp add: respondCIDRequest_def Let_def R_refl split: option.split)

lemma R_receiveCIDs: "R s (snd (receiveCIDs body s))"
proof -
  have a: "R s (s\<lparr>handshake := (handshake s)\<lparr>peerCID := c\<rparr>, cid := cs\<rparr>)" for c cs
    using R_trans [OF R_peerCID R_cid] by simp
  have b: "R u (case path u of Some p \<Rightarrow> (case probe p of Some pr \<Rightarrow>
        if pp_phase pr = pathValidateCandidate then set_probe (Some (pr\<lparr>pp_cid := c\<rparr>)) u else u | None \<Rightarrow> u) | None \<Rightarrow> u)" for u c
    by (simp add: R_refl R_probe_cid split: option.split)
  show ?thesis
    using R_trans [OF R_trans [OF a b] R_sendACK] R_trans [OF R_cid R_sendACK]
    by (auto simp: receiveCIDs_def Let_def R_refl split: sum.split)
qed

lemma R_ask_cids: "R s (snd (ask_cids now s))"
  using R_trans [OF R_cid R_requestCIDs] by (simp add: ask_cids_def Let_def R_refl R_cid)

lemma R_advancePost: "R s (snd (advancePost now s))"
proof -
  define u where "u = retire_handshake now s"
  have "R u (snd (andthen (rotate_keys now) (\<lambda>_. andthen (respondCIDRequest now) (\<lambda>_. ask_cids now)) u))"
    by (intro R_andthen_at R_respondCIDRequest R_ask_cids R_rotate) (simp add: u_def retired_writes_retire)
  from R_trans [OF R_retire this [unfolded u_def]] show ?thesis
    by (simp add: advancePost_def Let_def R_refl R_retire)
qed

lemma R_requestKeyUpdate: "R s (snd (requestKeyUpdate b now s))"
  using R_trans [OF R_keyUpdate R_advancePost] by (simp add: requestKeyUpdate_def R_refl)

lemma R_acknowledgePost: "R s (snd (acknowledgePost records auth now s))"
  unfolding acknowledgePost_def by (intro R_andthen_at R_acknowledgeFlight R_advancePost)

lemma R_receiveKeyUpdate: "R s (snd (receiveKeyUpdate m s))"
  by (auto simp: receiveKeyUpdate_def Let_def R_refl split: sum.split option.split
      intro: R_trans [OF R_trans [OF R_next_read R_keyUpdate] R_sendACK])

lemma R_receivePost: "R s (snd (receivePost m s))"
  using R_trans [OF R_cid R_sendACK]
  by (simp add: receivePost_def R_refl R_receiveKeyUpdate R_receiveCIDs R_sendACK split: sum.split)

end

subsection \<open>Path MTU discovery\<close>

locale mtu_frame = state_preorder R for R :: "'h session \<Rightarrow> 'h session \<Rightarrow> bool" +
  assumes R_mtu: "R s (s\<lparr>mtu := m\<rparr>)"
    and R_mtu_reduce: "R s (snd (reduceHandshakeMTU n s))"
    and R_setWorking: "R s (setWorkingMTU n s)"
    and R_mtu_rand: "R s (snd (rand_Read len s))"
    and R_probe_send: "R s (snd (sendRecordLimited ep ty body c pad (mtuCeiling s) (exact_send sz) s))"
begin

lemma R_restartMTUConfirm: "R s (restartMTUConfirm s)"
  by (simp add: restartMTUConfirm_def Let_def R_mtu)

lemma R_noteMTUActivity: "R s (noteMTUActivity s)"
  by (simp add: noteMTUActivity_def R_mtu)

lemma R_onApplicationTooBig: "R s (onApplicationTooBig s)"
  using R_trans [OF R_mtu_reduce R_restartMTUConfirm] by (simp add: onApplicationTooBig_def case_prod_unfold Let_def R_mtu_reduce)

lemma R_scheduleMTUWatch: "R s (scheduleMTUWatch now s)"
  by (simp add: scheduleMTUWatch_def R_mtu)

lemma R_beginMTUSearch: "R s (beginMTUSearch now s)"
  unfolding beginMTUSearch_def Let_def by (auto intro: R_mtu R_trans [OF R_mtu R_scheduleMTUWatch])

lemma R_onMTUProbeAcked: "R s (onMTUProbeAcked p now s)"
  unfolding onMTUProbeAcked_def Let_def
  by (cases "mp_kind p")
     (simp_all add: R_mtu R_trans [OF R_mtu R_setWorking] R_trans [OF R_mtu R_scheduleMTUWatch]
       R_trans [OF R_mtu R_beginMTUSearch] R_trans [OF R_trans [OF R_mtu R_setWorking] R_scheduleMTUWatch]
       R_trans [OF R_trans [OF R_mtu R_setWorking] R_beginMTUSearch])

lemma R_onMTUProbeLost: "R s (onMTUProbeLost sz kind now hard s)"
  unfolding onMTUProbeLost_def Let_def case_prod_unfold
  by (cases kind)
     (simp_all add: R_mtu R_trans [OF R_mtu R_scheduleMTUWatch] R_trans [OF R_trans [OF R_mtu R_mtu_reduce] R_mtu]
       R_trans [OF R_trans [OF R_mtu R_mtu_reduce] R_scheduleMTUWatch])

lemma R_launch_probe: "R s (snd (launch_probe sz now kind c pad cookie s))"
proof -
  have "R s u" if "sendRecordLimited ep ty body c pad (mtuCeiling (s\<lparr>mtu := m\<rparr>)) (exact_send sz) (s\<lparr>mtu := m\<rparr>) = (r, u)"
    for ep ty body m r u
    using R_trans [OF R_mtu R_probe_send [of _ ep ty body c pad sz], of s m] that by simp
  then show ?thesis
    by (auto simp: launch_probe_def Let_def split: prod.split sum.split intro: R_trans [OF _ R_mtu])
qed

lemma R_sendMTUProbe: "R s (snd (sendMTUProbe sz now kind s))"
  by (auto simp: sendMTUProbe_def Let_def R_refl split: option.split sum.split
      intro: R_andthen_at [OF R_mtu_rand R_launch_probe])

lemma R_sendDiscoveryProbe: "R s (sendDiscoveryProbe size0 now kind s)"
proof -
  define sz where "sz = (if size0 < mtuProbeMin s then mtuProbeMin s else size0)"
  obtain r u where p: "sendMTUProbe sz now kind s = (r, u)" by fastforce
  then have u: "R s u" using R_sendMTUProbe by (metis snd_conv)
  show ?thesis
    unfolding sendDiscoveryProbe_def Let_def sz_def [symmetric] p
    by (cases r)
       (simp_all add: R_scheduleMTUWatch R_trans [OF u R_mtu] R_trans [OF u R_scheduleMTUWatch]
         R_trans [OF u R_onMTUProbeLost] R_trans [OF u R_trans [OF R_mtu R_scheduleMTUWatch]])
qed

lemma R_search_probe: "R s (search_probe now s)"
  by (simp add: search_probe_def Let_def R_scheduleMTUWatch R_sendDiscoveryProbe)

lemma R_tickMTUDiscovery: "R s (tickMTUDiscovery now s)"
proof -
  define u where "u = (if phase (mtu s) = mtuDisabled then restartMTUConfirm s else s)"
  have u: "R s u" by (simp add: u_def R_refl R_restartMTUConfirm)
  show ?thesis
    unfolding tickMTUDiscovery_def Let_def u_def [symmetric]
    by (cases "phase (mtu u)")
       (simp_all add: R_refl R_mtu u R_trans [OF u R_sendDiscoveryProbe] R_trans [OF u R_search_probe]
         R_trans [OF u R_trans [OF R_mtu R_beginMTUSearch]] R_trans [OF u R_trans [OF R_mtu R_sendDiscoveryProbe]]
         R_trans [OF u R_trans [OF R_mtu R_trans [OF R_beginMTUSearch R_search_probe]]])
qed

lemma R_receiveMTUProbe: "R s (receiveMTUProbe from body now s)"
  by (simp add: receiveMTUProbe_def Let_def R_refl R_trans [OF R_mtu R_onMTUProbeLost]
      R_trans [OF R_mtu R_onMTUProbeAcked] split: option.split)

lemma R_tickMTUProbe: "R s (tickMTUProbe now s)"
  by (simp add: tickMTUProbe_def R_tickMTUDiscovery R_trans [OF R_trans [OF R_mtu R_onMTUProbeLost] R_tickMTUDiscovery]
      split: option.split)

end

subsection \<open>Path validation\<close>

locale path_frame = state_preorder R for R :: "'h session \<Rightarrow> 'h session \<Rightarrow> bool" +
  assumes R_path: "peer p' = peer (path_of s) \<Longrightarrow> has_changed p' = has_changed (path_of s) \<Longrightarrow> R s (s\<lparr>path := Some p'\<rparr>)"
    and R_path_cid: "R s (s\<lparr>cid := cs\<rparr>)"
    and R_path_rand: "R s (snd (rand_Read len s))"
    and R_move: "R s (move_peer pr s)"
    and R_path_send: "R s (snd (sendRecordWith ep contentRRC body c (send_limited d n) s))"
begin

lemma R_set_probe: "R s (set_probe pr s)"
  by (simp add: set_probe_def R_path)

lemma R_sendMessage: "R s (snd (sendMessage d ty cookie n s))"
  unfolding sendMessage_def Let_def by (rule R_andthen_at [OF R_path_send]) (simp add: ok_def R_refl)

lemma R_challenge: "R s (snd (challenge now s))"
  unfolding challenge_def
  by (rule R_andthen_at [OF R_path_rand]) (simp add: Let_def case_prod_unfold R_trans [OF R_set_probe R_sendMessage])

lemma R_startBasic: "R s (snd (startBasic now s))"
  unfolding startBasic_def Let_def
  using R_trans [OF R_trans [OF R_set_probe R_path_cid] R_challenge] R_trans [OF R_set_probe R_challenge]
  by (simp split: list.split)

lemma R_observe: "R s (snd (observe from number ty n now s))"
proof -
  define u where "u = (if \<not> path_seen (path_of s) \<or> recordAfter number (path_highest (path_of s))
     then s\<lparr>path := Some ((path_of s)\<lparr>path_highest := number, path_seen := True\<rparr>)\<rparr> else s)"
  have u: "R s u" by (simp add: u_def R_path R_refl)
  show ?thesis
    unfolding observe_def Let_def u_def [symmetric]
    by (auto simp: u R_trans [OF u R_set_probe] R_trans [OF u R_trans [OF R_set_probe R_challenge]] split: option.split)
qed

lemma R_path_receive: "R s (snd (path_receive from body n now s))"
proof -
  have cr: "R s (snd (sendMessage from ty ck k (case probe (path_of s) of
      Some pr \<Rightarrow> if from = candidate pr then set_probe (f pr) s else s | None \<Rightarrow> s)))" for ty ck k f
    using R_trans [OF R_set_probe R_sendMessage] by (simp add: R_sendMessage split: option.split)
  show ?thesis
    unfolding path_receive_def Let_def
    by (simp add: R_refl R_startBasic cr R_set_probe R_trans [OF R_move R_set_probe] split: option.split)
qed

lemma R_path_tick: "R s (snd (path_tick now s))"
  by (simp add: path_tick_def R_refl R_startBasic R_set_probe split: option.split)

end

end
