(* ===== verification/Session.thy ===== *)
theory Session
  imports SessionFrame
begin

text \<open>
  The rest of \<open>internal/dtls13/session.go\<close>: the handshake loop, the reception of datagrams, the timers
  and application data.  The handshake handler is called only while the handshake is incomplete, when
  it is set; a call through a nil handler, or through the keys of an epoch that has none, is the error
  \<open>panicked\<close>.  \<open>processHandshakes\<close> terminates because every round takes a message out of the reassembler
  and nothing it calls touches the reassembler, which is an instance of the session's frame.
\<close>

subsection \<open>What an operation leaves alone\<close>

definition same_reassembly :: "'h session \<Rightarrow> 'h session \<Rightarrow> bool" where
  "same_reassembly s s' \<longleftrightarrow> reassembly s' = reassembly s"

lemma rand_Read_keeps [simp]:
  "reassembly (snd (rand_Read n s)) = reassembly s" "epochs (snd (rand_Read n s)) = epochs s"
  by (simp_all add: rand_Read_def Let_def)

lemma call_setLocal_keeps [simp]:
  "reassembly (snd (call_setLocal ids s)) = reassembly s" "epochs (snd (call_setLocal ids s)) = epochs s"
  by (simp_all add: call_setLocal_def Let_def split: prod.split option.split)

interpretation reas: start_frame same_reassembly
proof unfold_locales
  show "same_reassembly s (snd (sendRecord ep ty body s))" for s :: "'h session" and ep ty body
    by (rule sendRecord_within)
       (auto simp: same_reassembly_def reflp_def transp_def note_write_def transport_send_def Let_def split: prod.split)
  show "same_reassembly s (snd (install_pair ep c sv s))" for s :: "'h session" and ep c sv
    by (auto simp: same_reassembly_def install_pair_def Let_def split: sum.split)
qed (auto simp: same_reassembly_def reduceHandshakeMTU_def Let_def split: prod.split)

interpretation reas: post_frame same_reassembly
proof unfold_locales
  have "same_reassembly s (snd (switch_epoch s))" for s :: "'h session"
    by (auto simp: same_reassembly_def switch_epoch_def Let_def split: sum.split option.split)
  then show "same_reassembly s (snd (rotate_keys now s))" for s :: "'h session" and now
    by (rule reas.R_rotate_keys [rotated]) (simp add: same_reassembly_def)
qed (auto simp: same_reassembly_def retire_handshake_def
      discardHandshakeRead_def next_read_epoch_def set_probe_def Let_def split: prod.split)

lemma reassembly_receivePost: "receivePost m s = (r, s') \<Longrightarrow> reassembly s' = reassembly s"
  using reas.R_receivePost [of s m] by (simp add: same_reassembly_def)

lemma pop_shorter:
  assumes "pop r = (Some m, r')" shows "length (pending r') < length (pending r)"
proof -
  from assms obtain p where p: "map_of (pending r) (ucast (next_seq r)) = Some p"
    "pending r' = AList.delete (ucast (next_seq r)) (pending r)"
    by (auto simp: pop_def split: if_splits option.splits)
  then have "(ucast (next_seq r), p) \<in> set (pending r)" by (simp add: map_of_SomeD)
  then show ?thesis unfolding p(2) by (simp add: AList.delete_eq) (rule length_filter_less, auto)
qed

subsection \<open>The handshake\<close>

definition run_handler :: "handshakeMessage \<Rightarrow> ('h session, handshakeMessage list) act" where
  "run_handler m s =
     (case handleHandshake s of
        None \<Rightarrow> (Inl panicked, s)
      | Some handle \<Rightarrow>
          let (r, h, hs) = handle m (handler s, handshake s)
          in (r, s\<lparr>handler := h, handshake := hs\<rparr>))"

definition finish_outbound :: "int \<Rightarrow> 'h session \<Rightarrow> 'h session" where
  "finish_outbound now s =
     (case outbound s of
        None \<Rightarrow> s
      | Some f \<Rightarrow> s\<lparr>rtt := noteFlightRTT (rtt s) (Some f) now, outbound := Some (finish f)\<rparr>)"

definition respond :: "handshakeMessage list \<Rightarrow> int \<Rightarrow> ('h session, unit) act" where
  "respond ms now s =
     (if ms = [] then (Inr (), s)
      else startFlight ms now (if currentWriteEpoch s < 2 then s\<lparr>ack := \<lparr>ack_pending = [], ack_deadline = None\<rparr>\<rparr> else s))"

definition handle_message :: "handshakeMessage \<Rightarrow> int \<Rightarrow> ('h session, unit) act" where
  "handle_message m now =
     andthen (run_handler m) (\<lambda>ms s.
       andthen installKeys (\<lambda>_. andthen (respond ms now) (\<lambda>_. sendACK)) (finish_outbound now s))"

lemma reassembly_handle_message:
  fixes s :: "'h session"
  shows "handle_message m now s = (r, s') \<Longrightarrow> reassembly s' = reassembly s"
proof -
  have fo: "same_reassembly u (finish_outbound now u)" for u :: "'h session"
    by (simp add: same_reassembly_def finish_outbound_def split: option.split)
  have re: "same_reassembly u (snd (respond ms now u))" for u :: "'h session" and ms
    unfolding respond_def by (auto intro: reas.R_refl reas.R_startFlight reas.R_trans [OF reas.R_ack reas.R_startFlight])
  have rh: "same_reassembly u (snd (run_handler m u))" for u :: "'h session"
    by (simp add: same_reassembly_def run_handler_def case_prod_unfold Let_def split: option.split)
  have "same_reassembly u (snd (andthen installKeys (\<lambda>_. andthen (respond ms now) (\<lambda>_. sendACK)) u))" for u :: "'h session" and ms
    by (intro reas.R_andthen_at reas.R_installKeys re reas.R_sendACK)
  then have "same_reassembly s (snd (handle_message m now s))"
    unfolding handle_message_def by (intro reas.R_andthen_at rh) (rule reas.R_trans [OF fo])
  then show "handle_message m now s = (r, s') \<Longrightarrow> reassembly s' = reassembly s" by (simp add: same_reassembly_def)
qed

function processHandshakes :: "int \<Rightarrow> ('h session, unit) act" where
  "processHandshakes now s =
     (case pop (reassembly s) of
        (None, r) \<Rightarrow> (Inr (), s\<lparr>reassembly := r\<rparr>)
      | (Some m, r) \<Rightarrow>
          (case (if hs_complete (handshake s) then receivePost m (s\<lparr>reassembly := r\<rparr>)
                 else handle_message m now (s\<lparr>reassembly := r\<rparr>)) of
             (Inl e, s1) \<Rightarrow> (Inl e, s1)
           | (Inr _, s1) \<Rightarrow> processHandshakes now s1))"
  by pat_completeness auto
termination
proof (relation "measure (\<lambda>(now, s). length (pending (reassembly s)))", simp, goal_cases)
  case (1 now s mo r m q s1 u)
  then have "reassembly s1 = r"
    by (auto split: if_splits dest!: reassembly_receivePost [OF sym] reassembly_handle_message [OF sym])
  then show ?case using 1(1,2) pop_shorter [of "reassembly s" m r] by simp
qed

declare processHandshakes.simps [simp del]

definition receiveHandshake :: "recordNumber \<Rightarrow> byte list \<Rightarrow> int \<Rightarrow> ('h session, unit) act" where
  "receiveHandshake number body now s =
     (let (r, reas) = add (reassembly s) body (epoch number); s1 = s\<lparr>reassembly := reas\<rparr> in
      case r of
        Inl e \<Rightarrow> (Inl e, s1)
      | Inr accepted \<Rightarrow>
          andthen (\<lambda>s. if accepted then queueAcknowledgement number now s else (Inr (), s))
            (\<lambda>_. processHandshakes now) s1)"

subsection \<open>Receiving\<close>

lemma parseRecord_shorter:
  assumes "parseRecord d n = Inr (r, rest)" shows "length rest < length d"
  using assms
  by (auto simp: parseRecord_def parse_unified_def parse_plain_def Let_def seqNumMaskLen_def plainHeader_def
      unifiedSeqLen_def unifiedLengthLen_def split: if_splits)

text \<open>The records of a datagram; \<open>None\<close> when it is dropped as a whole.\<close>

function split_records :: "'h session \<Rightarrow> byte list \<Rightarrow> (dtls_record list \<times> bool) option" where
  "split_records s datagram =
     (if datagram = [] then Some ([], False)
      else case parseRecord datagram (int (length (localCID (handshake s)))) of
        Inl _ \<Rightarrow> None
      | Inr (r, rest) \<Rightarrow>
          if rec_cid r \<noteq> [] \<and> \<not> acceptCID s (rec_cid r) then None
          else case split_records s rest of
            None \<Rightarrow> None
          | Some (rs, hasCID) \<Rightarrow> Some (r # rs, rec_cid r \<noteq> [] \<or> hasCID))"
  by pat_completeness auto
termination by (relation "measure (\<lambda>(s, d). length d)") (auto dest: parseRecord_shorter)

declare split_records.simps [simp del]

text \<open>The read epoch a record belongs to: the highest whose low bits match.\<close>

definition match_epoch :: "(u64 \<times> readEpoch) list \<Rightarrow> u64 \<Rightarrow> (u64 \<times> readEpoch) option" where
  "match_epoch es low =
     foldl (\<lambda>best (c, k). if c AND 3 = low \<and> (case best of None \<Rightarrow> True | Some (b, _) \<Rightarrow> b < c) then Some (c, k) else best)
       None es"

definition set_read :: "u64 \<Rightarrow> readEpoch \<Rightarrow> 'h session \<Rightarrow> 'h session" where
  "set_read ep k s = s\<lparr>epochs := (epochs s)\<lparr>ep_read := AList.update ep k (ep_read (epochs s))\<rparr>\<rparr>"

definition drop_old_reads :: "u64 \<Rightarrow> 'h session \<Rightarrow> 'h session" where
  "drop_old_reads ep s =
     (if ep < 4 then s
      else s\<lparr>epochs := (epochs s)\<lparr>ep_read := filter (\<lambda>(old, k). \<not> (3 \<le> old \<and> old < ep)) (ep_read (epochs s))\<rparr>\<rparr>)"

definition openRecord :: "dtls_record \<Rightarrow> bool \<Rightarrow> ('h session, (recordNumber \<times> byte \<times> byte list) option) act" where
  "openRecord r hasCID s =
     (if \<not> rec_encrypted r then
        (if installed (epochs s) \<noteq> 0 then (Inr None, s)
         else (Inr (Some (rec_number r, rec_typ r, rec_body r)), s))
      else if cidNegotiated (handshake s) \<and> localCID (handshake s) \<noteq> [] \<and> \<not> hasCID \<or>
              \<not> cidNegotiated (handshake s) \<and> rec_cid r \<noteq> []
      then (Inr None, s)
      else case match_epoch (ep_read (epochs s)) (epoch (rec_number r)) of
        None \<Rightarrow> (Inr None, s)
      | Some (ep, k) \<Rightarrow>
          (case decodeRecord (rk_keys k) r ep (rec_cid r) (rk_window k) of
             (Inl e, w) \<Rightarrow>
               let k1 = k\<lparr>rk_window := w\<rparr> in
               if e = errAuthentication then
                 let n = (if failures k1 < - 1 then failures k1 + 1 else failures k1);
                     s1 = set_read ep (k1\<lparr>failures := n\<rparr>) s
                 in if 2 ^ 36 \<le> n then (Inl errKeyMaterial, s1) else (Inr None, s1)
               else if e = errReplay then (Inr None, set_read ep k1 s)
               else (Inl (if e = errRecord then errUnexpectedMessage else e), set_read ep k1 s)
           | (Inr (number, ty, body), w) \<Rightarrow>
               andthen (usedLocalCID (rec_cid r)) (\<lambda>_. ok (Some (number, ty, body)))
                 (drop_old_reads ep (set_read ep (k\<lparr>rk_window := w\<rparr>) s))))"

definition receive_alert :: "recordNumber \<Rightarrow> byte list \<Rightarrow> bool \<Rightarrow> ('h session, unit) act" where
  "receive_alert number body encrypted s =
     (if length body \<noteq> 2 then (if encrypted then (Inl errDecode, s) else (Inr (), s))
      else if body ! 1 = 0 then
        (Inr (), if (case peerClosed s of None \<Rightarrow> True | Some c \<Rightarrow> recordAfter c number)
                 then s\<lparr>peerClosed := Some number\<rparr> else s)
      else if body ! 1 \<noteq> 90 then (Inl (alertError (body ! 1)), s)
      else (Inr (), s))"

text \<open>What one opened record does; the value is the application data it carries.\<close>

definition dispatch ::
  "packetPath \<Rightarrow> int \<Rightarrow> dtls_record \<Rightarrow> recordNumber \<Rightarrow> byte \<Rightarrow> byte list \<Rightarrow> ('h session, byte list list) act" where
  "dispatch from now r number ty body s =
     (if ty = contentHandshake then andthen (receiveHandshake number body now) (\<lambda>_. ok []) s
      else if ty = contentACK then
        (case parseACK body of
           Inl _ \<Rightarrow> (Inr [], s)
         | Inr acks \<Rightarrow>
             andthen (acknowledgeFlight Outbound acks (rec_encrypted r) now) (\<lambda>_.
             andthen (acknowledgePost acks (rec_encrypted r) now) (\<lambda>_. ok [])) s)
      else if ty = contentData then
        (if 3 \<le> epoch number \<and> hs_complete (handshake s) then (Inr [body], noteMTUActivity s) else (Inr [], s))
      else if ty = contentAlert then andthen (receive_alert number body (rec_encrypted r)) (\<lambda>_. ok []) s
      else if ty = contentRRC then
        (if \<not> rrc (handshake s) \<or> \<not> hs_complete (handshake s) \<or> epoch number < 3 \<or> path s = None
         then (Inl errUnexpectedMessage, s)
         else andthen (path_receive from body (length (rec_header r) + length (rec_body r)) now)
                (\<lambda>_ s1. (Inr [], receiveMTUProbe from body now s1)) s)
      else (Inr [], s))"

definition receive_record :: "packetPath \<Rightarrow> int \<Rightarrow> bool \<Rightarrow> dtls_record \<Rightarrow> ('h session, byte list list) act" where
  "receive_record from now hasCID r =
     andthen (openRecord r hasCID) (\<lambda>opened s.
       case opened of
         None \<Rightarrow> (Inr [], s)
       | Some (number, ty, body) \<Rightarrow>
           if (case peerClosed s of None \<Rightarrow> False | Some c \<Rightarrow> recordAfter number c) then (Inr [], s)
           else
             andthen (\<lambda>s. if path s \<noteq> None \<and> hs_complete (handshake s) \<and> rec_encrypted r
                           then observe from number ty (length (rec_header r) + length (rec_body r)) now s
                           else (Inr (), s))
               (\<lambda>_. dispatch from now r number ty body) s)"

fun receive_records :: "packetPath \<Rightarrow> int \<Rightarrow> bool \<Rightarrow> dtls_record list \<Rightarrow> ('h session, byte list list) act" where
  "receive_records from now hasCID [] s = (Inr [], s)"
| "receive_records from now hasCID (r # rs) s =
     andthen (receive_record from now hasCID r) (\<lambda>a.
     andthen (receive_records from now hasCID rs) (\<lambda>b. ok (a @ b))) s"

definition receiveFrom :: "byte list \<Rightarrow> packetPath \<Rightarrow> int \<Rightarrow> ('h session, byte list list) act" where
  "receiveFrom datagram from now s =
     (let s1 = expireHandshakeRead now s;
          elsewhere = (case path s1 of None \<Rightarrow> False | Some p \<Rightarrow> remote from \<noteq> remote (peer p))
      in if elsewhere \<and> (\<not> hs_complete (handshake s1) \<or> \<not> rrc (handshake s1) \<or> \<not> cidNegotiated (handshake s1))
         then (Inr [], s1)
         else if elsewhere \<and> \<not> allowed (path_of s1) (remote from) then (Inr [], s1)
         else case split_records s1 datagram of
           None \<Rightarrow> (Inr [], s1)
         | Some (records, hasCID) \<Rightarrow>
             let s2 = (if \<not> hs_complete (handshake s1) \<and> records \<noteq> []
                       then s1\<lparr>handshakeReceived := Some now\<rparr> else s1)
             in andthen (receive_records from now hasCID records) (\<lambda>application.
                andthen (advancePost now) (\<lambda>_.
                andthen (\<lambda>s. if hs_complete (handshake s) \<and> \<not> hs_client (handshake s) \<and> ack_pending (ack s) \<noteq> []
                              then sendACK s else (Inr (), s))
                  (\<lambda>_. ok application))) s2)"

definition session_receive :: "byte list \<Rightarrow> int \<Rightarrow> ('h session, byte list list) act" where
  "session_receive datagram now s =
     receiveFrom datagram
       (case path s of Some p \<Rightarrow> peer p
        | None \<Rightarrow> \<lparr>remote = \<lparr>ap_addr = [], ap_zone = [], ap_port = 0\<rparr>, local_id = 0\<rparr>) now s"

subsection \<open>Timers and application data\<close>

definition session_deadline :: "'h session \<Rightarrow> time" where
  "session_deadline s =
     (let d0 = (if handshakeACKScheduled s then ack_deadline (ack s) else None);
          d1 = earlierDeadline d0 (epoch2ReadKeyExpiry s);
          d2 = earlierDeadline d1 (flightDeadline (outbound s));
          d3 = foldl (\<lambda>d (ty, f). earlierDeadline d (flightDeadline (Some f))) d2 (post s);
          d4 = (case path s of
                  Some p \<Rightarrow> (case probe p of Some pr \<Rightarrow> earlierDeadline d3 (pp_deadline pr) | None \<Rightarrow> d3)
                | None \<Rightarrow> d3)
      in earlierDeadline d4 (mtuDeadline s))"

definition session_tick :: "int \<Rightarrow> ('h session, unit) act" where
  "session_tick now s =
     andthen (\<lambda>s. if path s \<noteq> None then path_tick now s else (Inr (), s)) (\<lambda>_.
     andthen (\<lambda>s. if ack_deadline (ack s) \<noteq> None \<and> \<not> is_before now (ack_deadline (ack s))
                   then sendScheduledACK now s else (Inr (), s)) (\<lambda>_.
     andthen (expireOutbound now) (\<lambda>_.
     andthen (retransmitExpired (Post msgNewConnectionID) now) (\<lambda>_.
     andthen (retransmitExpired (Post msgRequestConnectionID) now) (\<lambda>_.
     andthen (retransmitExpired (Post msgKeyUpdate) now) (\<lambda>_. advancePost now))))))
       (tickMTUProbe now (expireHandshakeRead now s))"

definition application :: "byte list \<Rightarrow> ('h session, unit) act" where
  "application body s =
     (if \<not> hs_complete (handshake s) then (Inl errUnexpectedMessage, s)
      else if probing s then (Inl errPathPending, s)
      else if localPending (keyUpdate s) \<or> updating (keyUpdate s) \<or> \<not> handshakeFlightSent s
      then (Inl errOperationPending, s)
      else case map_of (ep_write (epochs s)) (currentWriteEpoch s) of
        None \<Rightarrow> (Inl panicked, s)
      | Some w \<Rightarrow>
          (case wk_keys w of
             None \<Rightarrow> (Inl panicked, s)
           | Some k \<Rightarrow>
               if recordLimit k - 1024 \<le> wk_sequence w
               then (Inl errOperationPending, s\<lparr>keyUpdate := (keyUpdate s)\<lparr>localPending := True\<rparr>\<rparr>)
               else case sendRecord (currentWriteEpoch s) contentData body s of
                 (Inr _, s1) \<Rightarrow> (Inr (), noteMTUActivity s1)
               | (Inl e, s1) \<Rightarrow> (Inl e, if isMessageTooLong e then onApplicationTooBig s1 else s1)))"

end
