(* ===== verification/SessionRun.thy ===== *)
theory SessionRun
  imports Session
begin

text \<open>
  The frame of the operations of \<open>session.go\<close> that the connection calls.  \<open>handshake_frame\<close> covers the
  handshake loop, \<open>record_frame\<close> a record, and \<open>session_frame\<close> the reception of a datagram, the timers and
  a write.  \<open>full_frame\<close>
  asks only for the elementary updates and yields the other two.
\<close>

subsection \<open>The handshake loop\<close>

locale handshake_frame = post_frame R for R :: "'h session \<Rightarrow> 'h session \<Rightarrow> bool" +
  assumes R_reassembly: "R s (s\<lparr>reassembly := rs\<rparr>)"
    and R_handler: "R s (snd (run_handler m s))"
begin

lemma R_finish_outbound: "R s (finish_outbound now s)"
  using R_trans [OF R_rtt R_outbound] by (simp add: finish_outbound_def R_refl split: option.split)

lemma R_respond: "R s (snd (respond ms now s))"
  using R_trans [OF R_ack R_startFlight] by (simp add: respond_def R_refl R_startFlight)

lemma R_handle_message: "R s (snd (handle_message m now s))"
proof -
  have "R u (snd (andthen installKeys (\<lambda>_. andthen (respond ms now) (\<lambda>_. sendACK)) u))" for u ms
    by (intro R_andthen_at R_installKeys R_respond R_sendACK)
  then show ?thesis
    unfolding handle_message_def by (intro R_andthen_at R_handler) (rule R_trans [OF R_finish_outbound])
qed

lemma R_processHandshakes: "R s (snd (processHandshakes now s))"
proof (induction now s rule: processHandshakes.induct)
  case (1 now s)
  obtain mo r where p: "pop (reassembly s) = (mo, r)" by fastforce
  show ?case
  proof (cases mo)
    case None
    then show ?thesis using p by (subst processHandshakes.simps) (simp add: R_reassembly)
  next
    case (Some m)
    define u where "u = s\<lparr>reassembly := r\<rparr>"
    obtain q v where q: "(if hs_complete (handshake s) then receivePost m u else handle_message m now u) = (q, v)" by fastforce
    have "R u v" using R_receivePost [of u m] R_handle_message [of u m now] q by (auto split: if_splits)
    then have v: "R s v" using R_trans [OF R_reassembly] by (simp add: u_def)
    show ?thesis
    proof (cases q)
      case (Inl e)
      then show ?thesis using p Some q [unfolded u_def] v by (subst processHandshakes.simps) (simp split del: if_split)
    next
      case (Inr x)
      with 1 [OF p [symmetric] Some q [unfolded u_def, symmetric]]
      have "R v (snd (processHandshakes now v))" by simp
      then show ?thesis using p Some q [unfolded u_def] Inr R_trans [OF v]
        by (subst processHandshakes.simps) (simp split del: if_split)
    qed
  qed
qed

lemma R_receiveHandshake: "R s (snd (receiveHandshake number body now s))"
proof -
  have st: "R u (snd (andthen (\<lambda>s. if b then queueAcknowledgement number now s else (Inr (), s)) (\<lambda>_. processHandshakes now) u))" for u b
    by (rule R_andthen_at) (simp_all add: R_queueAcknowledgement R_refl R_processHandshakes)
  show ?thesis
    by (simp add: receiveHandshake_def Let_def case_prod_unfold R_reassembly R_trans [OF R_reassembly st] split: sum.split)
qed

end

subsection \<open>Records\<close>

locale record_frame = handshake_frame R for R :: "'h session \<Rightarrow> 'h session \<Rightarrow> bool" +
  assumes R_read: "R s (s\<lparr>epochs := (epochs s)\<lparr>ep_read := es\<rparr>\<rparr>)"
    and R_closed: "R s (s\<lparr>peerClosed := pc\<rparr>)"
    and R_received: "R s (s\<lparr>handshakeReceived := tm\<rparr>)"
    and R_activity: "R s (noteMTUActivity s)"
begin

lemma R_set_read: "R s (set_read ep k s)"
  by (simp add: set_read_def R_read)

lemma R_drop_old_reads: "R s (drop_old_reads ep s)"
  by (simp add: drop_old_reads_def R_read R_refl)

lemma R_openRecord: "R s (snd (openRecord r hasCID s))"
proof -
  have "R s (snd (andthen (usedLocalCID c) (\<lambda>_. ok v) (drop_old_reads ep (set_read ep k s))))"
    for c ep k and v :: "(recordNumber \<times> byte \<times> byte list) option"
    by (rule R_trans [OF R_trans [OF R_set_read R_drop_old_reads]], rule R_andthen_at [OF R_usedLocalCID])
       (simp add: ok_def R_refl)
  then show ?thesis
    by (simp add: openRecord_def R_refl R_set_read Let_def split: option.split prod.split sum.split)
qed

lemma R_receive_alert: "R s (snd (receive_alert number body enc s))"
  by (simp add: receive_alert_def R_refl R_closed)

lemma R_ok: "R s (snd (m s)) \<Longrightarrow> R s (snd (andthen m (\<lambda>_. ok v) s))"
  by (erule R_andthen_at) (simp add: ok_def R_refl)

lemma R_dispatch_other:
  assumes "ty \<noteq> contentRRC" shows "R s (snd (dispatch from now r number ty body s))"
proof -
  have acks: "R s (snd (andthen (acknowledgeFlight Outbound acks enc now) (\<lambda>_.
      andthen (acknowledgePost acks enc now) (\<lambda>_. ok ([] :: byte list list))) s))" for acks enc
    by (rule R_andthen_at [OF R_acknowledgeFlight]) (rule R_ok [OF R_acknowledgePost])
  show ?thesis
    using assms unfolding dispatch_def
    by (auto simp: R_refl R_activity R_ok [OF R_receiveHandshake] R_ok [OF R_receive_alert] acks split: sum.split)
qed

lemma R_after_records:
  "R s (snd (andthen (advancePost now) (\<lambda>_.
      andthen (\<lambda>s. if hs_complete (handshake s) \<and> \<not> hs_client (handshake s) \<and> ack_pending (ack s) \<noteq> []
                    then sendACK s else (Inr (), s)) (\<lambda>_. ok v)) s))"
  by (intro R_andthen_at R_advancePost) (auto simp: R_sendACK R_refl ok_def)

end

subsection \<open>The whole session\<close>

text \<open>\<open>F\<close> are the sources of datagrams the relation is claimed for.\<close>

locale session_frame = record_frame R for R :: "'h session \<Rightarrow> 'h session \<Rightarrow> bool" +
  fixes F :: "packetPath \<Rightarrow> bool"
  assumes R_tooBig: "R s (onApplicationTooBig s)"
    and R_reply: "F from \<Longrightarrow> R s (receiveMTUProbe from body now s)"
    and R_tick_mtu: "R s (tickMTUProbe now s)"
    and R_at_observe: "path s \<noteq> None \<Longrightarrow> F from \<Longrightarrow> R s (snd (observe from number ty k now s))"
    and R_at_path_receive: "path s \<noteq> None \<Longrightarrow> F from \<Longrightarrow> R s (snd (path_receive from body k now s))"
    and R_at_path_tick: "path s \<noteq> None \<Longrightarrow> R s (snd (path_tick now s))"
begin

lemma R_dispatch:
  assumes "F from" shows "R s (snd (dispatch from now r number ty body s))"
proof (cases "ty = contentRRC")
  case True
  have "R s (snd (andthen (path_receive from body k now)
      (\<lambda>_ s1. (Inr ([] :: byte list list), receiveMTUProbe from body now s1)) s))" if "path s \<noteq> None" for k
    using that assms by (intro R_andthen_at) (simp_all add: R_at_path_receive R_reply)
  then show ?thesis using True by (simp add: dispatch_def R_refl record_consts)
qed (rule R_dispatch_other)

lemma R_receive_record:
  assumes "F from" shows "R s (snd (receive_record from now hasCID r s))"
proof -
  have obs: "R u (snd (andthen (\<lambda>s. if path s \<noteq> None \<and> hs_complete (handshake s) \<and> rec_encrypted r
      then observe from number ty k now s else (Inr (), s)) (\<lambda>_. dispatch from now r number ty body) u))"
    for u number ty k body
    using assms by (intro R_andthen_at) (auto simp: R_at_observe R_refl R_dispatch)
  then show ?thesis
    unfolding receive_record_def
    by (intro R_andthen_at [OF R_openRecord]) (auto simp: R_refl split: option.split)
qed

lemma R_receive_records: "F from \<Longrightarrow> R s (snd (receive_records from now hasCID rs s))"
proof (induction rs arbitrary: s)
  case (Cons r rs)
  then show ?case by (simp only: receive_records.simps) (intro R_andthen_at R_receive_record, simp_all add: ok_def R_refl)
qed (simp add: R_refl)

lemma R_receiveFrom:
  assumes "F from" shows "R s (snd (receiveFrom d from now s))"
proof -
  define u where "u = expireHandshakeRead now s"
  have u: "R s u" by (simp add: u_def R_expireHandshakeRead)
  have fin: "R v (snd (andthen (receive_records from now b rs) (\<lambda>application.
      andthen (advancePost now) (\<lambda>_.
      andthen (\<lambda>s. if hs_complete (handshake s) \<and> \<not> hs_client (handshake s) \<and> ack_pending (ack s) \<noteq> []
                    then sendACK s else (Inr (), s)) (\<lambda>_. ok application))) v))" for v b rs
    by (rule R_andthen_at [OF R_receive_records [OF assms]]) (rule R_after_records)
  show ?thesis
    unfolding receiveFrom_def Let_def u_def [symmetric]
    by (auto simp: u R_trans [OF u fin] R_trans [OF u R_trans [OF R_received fin]] split: option.split)
qed

lemma R_session_tick: "R s (snd (session_tick now s))"
proof -
  have "R u (snd (andthen (\<lambda>s. if path s \<noteq> None then path_tick now s else (Inr (), s)) (\<lambda>_.
      andthen (\<lambda>s. if ack_deadline (ack s) \<noteq> None \<and> \<not> is_before now (ack_deadline (ack s))
                    then sendScheduledACK now s else (Inr (), s)) (\<lambda>_.
      andthen (expireOutbound now) (\<lambda>_.
      andthen (retransmitExpired (Post msgNewConnectionID) now) (\<lambda>_.
      andthen (retransmitExpired (Post msgRequestConnectionID) now) (\<lambda>_.
      andthen (retransmitExpired (Post msgKeyUpdate) now) (\<lambda>_. advancePost now)))))) u))" for u
    by (intro R_andthen_at) (simp_all add: R_at_path_tick R_sendScheduledACK R_refl
          R_expireOutbound R_retransmitExpired R_advancePost)
  then show ?thesis
    unfolding session_tick_def by (rule R_trans [OF R_trans [OF R_expireHandshakeRead R_tick_mtu]])
qed

lemma R_application: "R s (snd (application body s))"
proof -
  obtain r u where p: "sendRecord (currentWriteEpoch s) contentData body s = (r, u)" by fastforce
  then have u: "R s u" using R_sendRecord by (metis snd_conv)
  show ?thesis
    unfolding application_def Let_def p
    by (cases r)
       (simp_all add: R_refl R_keyUpdate u R_trans [OF u R_activity] R_trans [OF u R_tooBig] split: option.split)
qed

end

locale full_frame = post_frame R + mtu_frame R + path_frame R
  for R :: "'h session \<Rightarrow> 'h session \<Rightarrow> bool" +
  assumes R_elem_reassembly: "R s (s\<lparr>reassembly := rs\<rparr>)"
    and R_elem_handler: "R s (snd (run_handler m s))"
    and R_elem_read: "R s (s\<lparr>epochs := (epochs s)\<lparr>ep_read := es\<rparr>\<rparr>)"
    and R_elem_closed: "R s (s\<lparr>peerClosed := pc\<rparr>)"
    and R_elem_received: "R s (s\<lparr>handshakeReceived := tm\<rparr>)"

sublocale full_frame < session_frame R "\<lambda>_. True"
  by unfold_locales
     (simp_all add: R_elem_reassembly R_elem_handler R_elem_read R_elem_closed R_elem_received R_noteMTUActivity
       R_onApplicationTooBig R_receiveMTUProbe R_tickMTUProbe R_observe R_path_receive R_path_tick)

end
