(* ===== verification/Driver.thy ===== *)
theory Driver
  imports SessionRun
begin

text \<open>
  The driver of \<open>internal/dtls13/conn.go\<close>, which owns a session: its state with the part of the
  connection it shares with readers and writers, the reception of packets, commands, and the body of
  its loop.  A value of \<open>flow\<close> says where the driver is between two steps.  The channels \<open>stop\<close> and \<open>done\<close>
  are the connection's error and the flow; \<open>cap\<close> of a slice, which the Go runtime chooses, is the field
  \<open>cap_of\<close>.  The addresses a write goes to are logged by the world.
\<close>

definition maxQueuedRecords :: nat where "maxQueuedRecords = 256"
definition maxIncomingBytes :: int where "maxIncomingBytes = int flightBurst * 65535"
definition maxApplicationBytes :: nat where "maxApplicationBytes = 16 * maxContent"

datatype commandKind = commandWrite | commandCloseWrite | commandUpdateKeys | commandRotateCID | commandOther

record connCommand =
  cmd_kind :: commandKind
  cmd_data :: "byte list"
  cmd_requestPeer :: bool
  cmd_started :: bool
  cmd_epoch :: u64

record 'h driver =
  dr_session :: "'h session"
  dr_pending :: "connCommand option"
  writeClosed :: bool
  dr_started :: int
  handshakeDeadline :: time
  dr_ready :: bool
  dr_abort :: bool
  queuedBeforeTimeout :: int
  owned :: bool
  unfragmented :: bool
  incoming :: "(byte list \<times> addrPort) list"
  packetBudget :: "memoryBudget option"
  readQueue :: "byte list list"
  incomingBytes :: int
  readBytes :: int
  writeDeadline :: time
  remote0 :: addrPort
  conn_err :: "dtls_error option"
  closeNotify :: bool
  peerEOF :: bool
  maxDatagram :: int
  cap_of :: "byte list \<Rightarrow> nat"

datatype flow = Top | Wait time | Stopped | Closed

subsection \<open>Alerts\<close>

definition errorAlert :: "dtls_error \<Rightarrow> byte list" where
  "errorAlert err =
     (case err of
        alertError a \<Rightarrow> [2, a]
      | errFragmentConflict \<Rightarrow> [2, 47]
      | errSignature \<Rightarrow> [2, 51]
      | errCertificate \<Rightarrow> [2, 42]
      | errRecordOverflow \<Rightarrow> [2, 22]
      | _ \<Rightarrow> [2, 80])"

subsection \<open>The connection\<close>

definition newConn :: "addrPort \<Rightarrow> (byte list \<Rightarrow> nat) \<Rightarrow> 'h session \<Rightarrow> 'h driver" where
  "newConn address cap s =
     \<lparr>dr_session = s, dr_pending = None, writeClosed = False, dr_started = 0, handshakeDeadline = None,
      dr_ready = False, dr_abort = False, queuedBeforeTimeout = 0, owned = False, unfragmented = False,
      incoming = [], packetBudget = None, readQueue = [], incomingBytes = 0, readBytes = 0,
      writeDeadline = None, remote0 = address, conn_err = None, closeNotify = False, peerEOF = False,
      maxDatagram = 0, cap_of = cap\<rparr>"

definition on_session :: "('h session \<Rightarrow> 'h session) \<Rightarrow> 'h driver \<Rightarrow> 'h driver" where
  "on_session f d = d\<lparr>dr_session := f (dr_session d)\<rparr>"

definition attach :: "'h session \<Rightarrow> 'h driver \<Rightarrow> 'h driver" where
  "attach s d =
     d\<lparr>dr_session :=
         s\<lparr>working := (working s)\<lparr>canProbe := unfragmented d\<rparr>,
           path := Some \<lparr>peer = \<lparr>remote = remote0 d, local_id = 1\<rparr>, probe = None,
                         path_highest = \<lparr>epoch = 0, sequence = 0\<rparr>, path_seen = False,
                         allowPeer = Option.bind (hs_config (handshake s)) AcceptPeer, has_changed = True\<rparr>\<rparr>\<rparr>"

text \<open>The sessions a driver starts from: a client's, which has sent its first flight, and the one
  \<open>admitHello\<close> makes for a server, which holds the verified ClientHello \<open>m\<close> and continues the plaintext
  sequence \<open>q\<close> of the retry cache.\<close>

definition newClientSession ::
  "handshakeState \<Rightarrow> 'h \<Rightarrow> (handshakeMessage \<Rightarrow> ('h \<times> handshakeState, handshakeMessage list) act) \<Rightarrow>
   crypto \<Rightarrow> world \<Rightarrow> handshakeMessage list \<Rightarrow> int \<Rightarrow> (dtls_error + unit) \<times> 'h session" where
  "newClientSession h private handle C w ms now = startFlight ms now (newSession h private handle C w)"

definition admit_session ::
  "handshakeState \<Rightarrow> 'h \<Rightarrow> (handshakeMessage \<Rightarrow> ('h \<times> handshakeState, handshakeMessage list) act) \<Rightarrow>
   crypto \<Rightarrow> world \<Rightarrow> memoryBudget option \<Rightarrow> handshakeMessage \<Rightarrow> u64 \<Rightarrow> 'h session option" where
  "admit_session h private handle C w b m q =
     (let s = newSession h private handle C w in
      case fragment m 0 (int (length (msg_body m))) of
        Inl _ \<Rightarrow> None
      | Inr frag \<Rightarrow>
          (case add ((reassembly s)\<lparr>budget := b, next_seq := 1\<rparr>) frag 0 of
             (Inr True, r) \<Rightarrow>
               Some (s\<lparr>reassembly := r,
                       epochs := (epochs s)\<lparr>ep_write := map (\<lambda>(e, k). (e, if e = 0 then k\<lparr>wk_sequence := q\<rparr> else k))
                                                            (ep_write (epochs s))\<rparr>,
                       cid := (cid s)\<lparr>has_setLocal := True\<rparr>\<rparr>)
           | _ \<Rightarrow> None))"

inductive initial_session ::
  "handshakeState \<Rightarrow> (handshakeMessage \<Rightarrow> ('h \<times> handshakeState, handshakeMessage list) act) \<Rightarrow>
   world \<Rightarrow> 'h session \<Rightarrow> bool" for h handle w where
  client: "newClientSession h private handle C w ms now = (Inr (), s) \<Longrightarrow> initial_session h handle w s"
| server: "admit_session h private handle C w b m q = Some s \<Longrightarrow> initial_session h handle w s"

text \<open>The field \<open>shared.remote\<close>, which \<open>RemoteAddr\<close> reports and \<open>sendPacket\<close> passes to the transport.  It is the address the
  connection was made with until the callback \<open>changed\<close> of the path assigns it; the world logs the
  assignments, newest first.  \<open>sendPacket\<close> itself is the transport of the session, whose sends the world logs
  without an address.\<close>

definition shared_remote :: "'h driver \<Rightarrow> addrPort" where
  "shared_remote d = (case path_changes (world (dr_session d)) of [] \<Rightarrow> remote0 d | p # _ \<Rightarrow> remote p)"

definition deliver :: "byte list \<Rightarrow> addrPort \<Rightarrow> 'h driver \<Rightarrow> 'h driver" where
  "deliver data from d =
     (if conn_err d \<noteq> None \<or> length (incoming d) = maxQueuedRecords \<or>
         maxIncomingBytes - incomingBytes d < int (length data)
      then d
      else case reserve (packetBudget d) (length data) of
        (False, b) \<Rightarrow> d\<lparr>packetBudget := b\<rparr>
      | (True, b) \<Rightarrow>
          d\<lparr>packetBudget := b, incoming := incoming d @ [(data, from)],
            incomingBytes := incomingBytes d + int (length data)\<rparr>)"

definition releasePacket :: "nat \<Rightarrow> 'h driver \<Rightarrow> 'h driver" where
  "releasePacket sz d = d\<lparr>incomingBytes := incomingBytes d - int sz, packetBudget := release (packetBudget d) sz\<rparr>"

definition conn_shutdown :: "dtls_error \<Rightarrow> bool \<Rightarrow> 'h driver \<Rightarrow> 'h driver" where
  "conn_shutdown e notify d = (if conn_err d = None then d\<lparr>conn_err := Some e, closeNotify := notify\<rparr> else d)"

definition conn_fail :: "dtls_error \<Rightarrow> 'h driver \<Rightarrow> 'h driver" where
  "conn_fail e = conn_shutdown e False"

definition conn_Write :: "byte list \<Rightarrow> 'h driver \<Rightarrow> dtls_error + connCommand" where
  "conn_Write data d =
     (if maxDatagram d < int (length data) then Inl errRecordOverflow
      else Inr \<lparr>cmd_kind = commandWrite, cmd_data = data, cmd_requestPeer = False, cmd_started = False, cmd_epoch = 0\<rparr>)"

datatype read_result = ReadError dtls_error | ReadData "byte list" | ReadEOF | ReadWait

definition conn_Read :: "nat \<Rightarrow> 'h driver \<Rightarrow> read_result \<times> 'h driver" where
  "conn_Read n d =
     (case conn_err d of
        Some e \<Rightarrow> (ReadError e, d)
      | None \<Rightarrow>
          (case readQueue d of
             p # ps \<Rightarrow> (ReadData (take n p), d\<lparr>readQueue := ps, readBytes := readBytes d - int (cap_of d p)\<rparr>)
           | [] \<Rightarrow> if peerEOF d then (ReadEOF, d) else (ReadWait, d)))"

subsection \<open>Publishing\<close>

definition datagramBudget :: "'h session \<Rightarrow> int" where
  "datagramBudget s =
     (let cidLength = (if cidNegotiated (handshake s) then length (peerCID (handshake s)) else 0);
          n = min (int maxContent) (effectiveMTU s - datagramOverhead (int cidLength) (int defaultAEADTag))
      in if n < 0 then 0 else n)"

definition publishMaxDatagram :: "'h driver \<Rightarrow> 'h driver" where
  "publishMaxDatagram d = d\<lparr>maxDatagram := datagramBudget (dr_session d)\<rparr>"

definition enqueue_read :: "byte list \<Rightarrow> 'h driver \<Rightarrow> 'h driver" where
  "enqueue_read packet d =
     (if length (readQueue d) < maxQueuedRecords \<and> int (cap_of d packet) \<le> int maxApplicationBytes - readBytes d \<and> \<not> peerEOF d
      then d\<lparr>readQueue := readQueue d @ [packet], readBytes := readBytes d + int (cap_of d packet)\<rparr>
      else d)"

definition publish :: "byte list list \<Rightarrow> 'h driver \<Rightarrow> 'h driver" where
  "publish data d =
     (let d1 = fold enqueue_read data d
      in d1\<lparr>peerEOF := (peerClosed (dr_session d1) \<noteq> None), maxDatagram := datagramBudget (dr_session d1)\<rparr>)"

subsection \<open>Packets and commands\<close>

definition fatal :: "dtls_error \<Rightarrow> 'h driver \<Rightarrow> 'h driver" where
  "fatal e d = conn_fail e (d\<lparr>dr_abort := (e \<noteq> ErrClosed)\<rparr>)"

definition send_alert :: "byte list \<Rightarrow> 'h driver \<Rightarrow> 'h driver" where
  "send_alert body d =
     on_session (\<lambda>s. snd (sendRecord (currentWriteEpoch s) contentAlert body s)) d"

definition receivePacket :: "byte list \<times> addrPort \<Rightarrow> int \<Rightarrow> int \<Rightarrow> 'h driver \<Rightarrow> bool \<times> 'h driver" where
  "receivePacket packet now0 now d0 =
     (let d = releasePacket (length (fst packet)) d0 in
      if conn_err d \<noteq> None then (False, d)
      else if \<not> dr_ready d \<and> handshakeDeadline d \<noteq> None \<and> \<not> is_before now0 (handshakeDeadline d)
      then (False, conn_fail ErrContextDeadline d)
      else case receiveFrom (fst packet) \<lparr>remote = snd packet, local_id = 1\<rparr> now (dr_session d) of
        (Inl e, s) \<Rightarrow>
          let d1 = d\<lparr>dr_session := s\<rparr>
          in (False, fatal e (if e \<noteq> ErrClosed then send_alert (errorAlert e) d1 else d1))
      | (Inr data, s) \<Rightarrow> (True, publish data (d\<lparr>dr_session := s\<rparr>)))"

text \<open>The second half of \<open>command\<close>, once its case has produced an error or none.\<close>

definition finish_command :: "dtls_error option \<Rightarrow> 'h driver \<Rightarrow> (bool \<times> dtls_error option) \<times> 'h driver" where
  "finish_command err d =
     (case err of
        None \<Rightarrow> ((True, None), d)
      | Some e \<Rightarrow>
          if e = errWritePending \<or> e = errOperationPending \<or> e = errPathPending then ((False, None), d)
          else ((True, Some e), if e = errSequence then conn_fail e d else d))"

definition err_of :: "dtls_error + 'a \<Rightarrow> dtls_error option" where
  "err_of r = (case r of Inl e \<Rightarrow> Some e | Inr _ \<Rightarrow> None)"

definition command_write :: "connCommand \<Rightarrow> int \<Rightarrow> 'h driver \<Rightarrow> (bool \<times> dtls_error option) \<times> 'h driver" where
  "command_write c now d =
     (if writeClosed d then ((True, Some ErrClosed), d)
      else
        let (r, s) = application (cmd_data c) (dr_session d); err = err_of r; d1 = d\<lparr>dr_session := s\<rparr>;
            d2 = (if err = Some ErrMessageTooLong then publishMaxDatagram d1 else d1)
        in if err = Some errOperationPending then
             (case advancePost now (dr_session d2) of
                (Inl e, s1) \<Rightarrow> ((True, Some e), d2\<lparr>dr_session := s1\<rparr>)
              | (Inr _, s1) \<Rightarrow> finish_command err (d2\<lparr>dr_session := s1\<rparr>))
           else finish_command err d2)"

text \<open>A command that stays pending remembers that it was started; \<open>command_rest\<close> is that update.\<close>

definition command_update :: "connCommand \<Rightarrow> int \<Rightarrow> 'h driver \<Rightarrow> ((bool \<times> dtls_error option) \<times> connCommand) \<times> 'h driver" where
  "command_update c now d =
     (let (err, c1, d1) =
            (if cmd_started c then (None, c, d)
             else
               let s = dr_session d; ep = currentWriteEpoch s;
                   c0 = c\<lparr>cmd_epoch := (if updating (keyUpdate s) then ep + 1 else ep)\<rparr>;
                   (r, s1) = requestKeyUpdate (cmd_requestPeer c) now s
               in (err_of r, c0\<lparr>cmd_started := (err_of r = None)\<rparr>, d\<lparr>dr_session := s1\<rparr>))
      in if err = None \<and> currentWriteEpoch (dr_session d1) \<le> cmd_epoch c1 then (((False, None), c1), d1)
         else let (res, d2) = finish_command err d1 in ((res, c1), d2))"

definition command_rotate :: "connCommand \<Rightarrow> int \<Rightarrow> 'h driver \<Rightarrow> ((bool \<times> dtls_error option) \<times> connCommand) \<times> 'h driver" where
  "command_rotate c now d =
     (let (err, c1, d1) =
            (if cmd_started c then (None, c, d)
             else
               let (r, s1) = provideCIDs 1 True now (dr_session d)
               in (err_of r, c\<lparr>cmd_started := (err_of r = None)\<rparr>, d\<lparr>dr_session := s1\<rparr>))
      in if err = None \<and> map_of (post (dr_session d1)) msgNewConnectionID \<noteq> None then (((False, None), c1), d1)
         else let (res, d2) = finish_command err d1 in ((res, c1), d2))"

definition command_close :: "'h driver \<Rightarrow> (bool \<times> dtls_error option) \<times> 'h driver" where
  "command_close d =
     (if writeClosed d then ((True, None), d)
      else if updating (keyUpdate (dr_session d)) \<or> localPending (keyUpdate (dr_session d)) then ((False, None), d)
      else
        let (r, s) = sendRecord (currentWriteEpoch (dr_session d)) contentAlert [1, 0] (dr_session d);
            d1 = d\<lparr>dr_session := s\<rparr>
        in finish_command (err_of r) (if err_of r = None then d1\<lparr>writeClosed := True\<rparr> else d1))"

definition driver_command :: "connCommand \<Rightarrow> int \<Rightarrow> 'h driver \<Rightarrow> ((bool \<times> dtls_error option) \<times> connCommand) \<times> 'h driver" where
  "driver_command c now d =
     (if writeDeadline d \<noteq> None \<and> \<not> is_before now (writeDeadline d) then (((True, Some ErrDeadlineExceeded), c), d)
      else case cmd_kind c of
        commandWrite \<Rightarrow> let (r, d1) = command_write c now d in ((r, c), d1)
      | commandUpdateKeys \<Rightarrow> command_update c now d
      | commandRotateCID \<Rightarrow> command_rotate c now d
      | commandCloseWrite \<Rightarrow> let (r, d1) = command_close d in ((r, c), d1)
      | commandOther \<Rightarrow> (((True, Some errUnexpectedMessage), c), d))"

subsection \<open>The loop\<close>

definition run_start :: "int \<Rightarrow> 'h driver \<Rightarrow> flow \<times> 'h driver" where
  "run_start now d0 =
     (let d = d0\<lparr>dr_abort := False, dr_started := now\<rparr> in
      if conn_err d \<noteq> None then (Stopped, d)
      else case processHandshakes now (dr_session d) of
        (Inl e, s) \<Rightarrow> (Stopped, conn_fail e (send_alert (errorAlert e) (d\<lparr>dr_session := s, dr_abort := True\<rparr>)))
      | (Inr _, s) \<Rightarrow>
          let c = the (hs_config (handshake s))
          in (Top, d\<lparr>dr_session := s,
                     handshakeDeadline := (if DisableHandshakeTimeout c then None else Some (now + HandshakeTimeout c)),
                     dr_ready := False, queuedBeforeTimeout := - 1\<rparr>))"

text \<open>The receive wait of an incomplete handshake: its end, when one applies.\<close>

definition receive_wait :: "'h driver \<Rightarrow> (int \<times> int) option" where
  "receive_wait d =
     (let s = dr_session d; timeout = HandshakeReadTimeout (the (hs_config (handshake s)));
          since = (case handshakeReceived s of None \<Rightarrow> dr_started d | Some t \<Rightarrow> t)
      in if \<not> hs_complete (handshake s) \<and> 0 < timeout \<and>
            (case outbound s of None \<Rightarrow> True | Some f \<Rightarrow> \<not> pendingSend f)
         then Some (since, since + timeout) else None)"

text \<open>A round after the receive wait has passed takes one of the packets that were queued then; with none
  queued the driver waits for one.\<close>

definition drain_round :: "int \<Rightarrow> int \<Rightarrow> int \<Rightarrow> 'h driver \<Rightarrow> flow \<times> 'h driver" where
  "drain_round now0 now' since d0 =
     (let d = (if queuedBeforeTimeout d0 < 0 then d0\<lparr>queuedBeforeTimeout := int (length (incoming d0))\<rparr> else d0) in
      if queuedBeforeTimeout d = 0 then (Stopped, conn_fail ErrHandshakeReadTimeout d)
      else case incoming d of
        [] \<Rightarrow> (Top, d)
      | packet # rest \<Rightarrow>
            let (ok, d1) = receivePacket packet now0 now'
                             (d\<lparr>incoming := rest, queuedBeforeTimeout := queuedBeforeTimeout d - 1\<rparr>)
            in if \<not> ok then (Stopped, d1)
               else (Top, if (case handshakeReceived (dr_session d1) of None \<Rightarrow> False | Some t \<Rightarrow> since < t)
                          then d1\<lparr>queuedBeforeTimeout := - 1\<rparr> else d1))"

text \<open>The handshake has become ready: \<open>configured\<close> is what the socket makes of the request for unfragmented
  probes, \<open>accept\<close> the answer of \<open>onReady\<close>.\<close>

definition become_ready :: "bool \<Rightarrow> 'h driver \<Rightarrow> dtls_error option \<times> 'h driver" where
  "become_ready configured d =
     (if \<not> hs_complete (handshake (dr_session d)) \<or> \<not> handshakeFlightSent (dr_session d) \<or> dr_ready d then (None, d)
      else case sendACK (dr_session d) of
        (Inl e, s) \<Rightarrow> (Some e, d\<lparr>dr_session := s\<rparr>)
      | (Inr _, s) \<Rightarrow>
          let optIn = UnfragmentedProbes (the (hs_config (handshake s)));
              configures = (owned d \<and> rrc (handshake s) \<and> cidNegotiated (handshake s));
              u = (if configures then optIn \<and> configured else unfragmented d);
              s1 = (if configures then s\<lparr>working := (working s)\<lparr>canProbe := u\<rparr>\<rparr> else s)
          in (None, publish [] (d\<lparr>dr_session := s1\<lparr>cid := (cid s1)\<lparr>want := True\<rparr>\<rparr>,
                                   unfragmented := u, dr_ready := True\<rparr>)))"

definition run_pending :: "bool \<Rightarrow> int \<Rightarrow> 'h driver \<Rightarrow> 'h driver" where
  "run_pending cancelled now d =
     (case dr_pending d of
        None \<Rightarrow> d
      | Some c \<Rightarrow>
          if cancelled then d\<lparr>dr_pending := None\<rparr>
          else let (((fin, e), c1), d1) = driver_command c now d
               in d1\<lparr>dr_pending := (if fin then None else Some c1)\<rparr>)"

text \<open>The rest of a round: the timers, readiness, the pending command and the time to wait until; \<open>wait\<close>
  is the end of the receive wait.\<close>

definition tick_round :: "int \<Rightarrow> bool \<Rightarrow> bool \<Rightarrow> bool \<Rightarrow> time \<Rightarrow> 'h driver \<Rightarrow> flow \<times> 'h driver" where
  "tick_round now configured accept cancelled wait d0 =
     (case session_tick now (dr_session d0) of
        (Inl e, s) \<Rightarrow> (Stopped, fatal e (d0\<lparr>dr_session := s, queuedBeforeTimeout := - 1\<rparr>))
      | (Inr _, s) \<Rightarrow>
          let d1 = publishMaxDatagram (d0\<lparr>dr_session := s, queuedBeforeTimeout := - 1\<rparr>);
              waitDeadline = earlierDeadline (if dr_ready d0 then None else handshakeDeadline d0) wait
          in case become_ready configured d1 of
               (Some e, d2) \<Rightarrow> (Stopped, fatal e d2)
             | (None, d2) \<Rightarrow>
                 if dr_ready d2 \<and> \<not> dr_ready d1 \<and> \<not> accept then (Stopped, d2)
                 else
                   let d3 = run_pending cancelled now d2; dl = session_deadline (dr_session d3)
                   in (Wait (if dr_ready d3 then dl else earlierDeadline dl waitDeadline), d3))"

text \<open>One round of the loop up to its \<open>select\<close>, at time \<open>now\<close>; \<open>now0\<close> and \<open>now'\<close> are the times read while a
  packet is received.\<close>

definition run_round :: "int \<Rightarrow> int \<Rightarrow> int \<Rightarrow> bool \<Rightarrow> bool \<Rightarrow> bool \<Rightarrow> 'h driver \<Rightarrow> flow \<times> 'h driver" where
  "run_round now now0 now' configured accept cancelled d =
     (if conn_err d \<noteq> None then (Stopped, d)
      else if \<not> dr_ready d \<and> handshakeDeadline d \<noteq> None \<and> \<not> is_before now (handshakeDeadline d)
      then (Stopped, conn_fail ErrContextDeadline d)
      else case receive_wait d of
        Some (since, dl) \<Rightarrow> if \<not> now < dl then drain_round now0 now' since d else tick_round now configured accept cancelled (Some dl) d
      | None \<Rightarrow> tick_round now configured accept cancelled None d)"

definition teardown :: "'h driver \<Rightarrow> 'h driver" where
  "teardown d0 =
     (let d = conn_fail ErrClosed (d0\<lparr>dr_pending := None\<rparr>); s = dr_session d;
          d1 = (if closeNotify d \<and> \<not> dr_abort d \<and> hs_complete (handshake s) \<and> \<not> writeClosed d
                then on_session (\<lambda>s. snd (sendRecordWith (currentWriteEpoch s) contentAlert [1, 0] (peerCID (handshake s))
                                           (transport_send (Some (peer (path_of s)))) s)) d
                else d);
          d2 = on_session (\<lambda>s. s\<lparr>reassembly := reset (reassembly s)\<rparr>) d1
      in fold (\<lambda>p. releasePacket (length (fst p))) (incoming d2) (d2\<lparr>incoming := []\<rparr>))"

text \<open>The steps of the driver and of what runs beside it: arriving datagrams, readers and the outcomes the
  transport, the random source and the hooks will have.\<close>

inductive driver_step :: "flow \<times> 'h driver \<Rightarrow> flow \<times> 'h driver \<Rightarrow> bool" where
  round: "driver_step (Top, d) (run_round now now0 now' configured accept cancelled d)"
| awake: "driver_step (Wait dl, d) (Top, d)"
| command: "dr_pending d = None \<Longrightarrow> driver_step (Wait dl, d) (Top, d\<lparr>dr_pending := Some c\<rparr>)"
| packet: "incoming d = p # rest \<Longrightarrow> receivePacket p now0 now' (d\<lparr>incoming := rest\<rparr>) = (going, d') \<Longrightarrow>
    driver_step (Wait dl, d) (if going then Top else Stopped, d')"
| stop: "conn_err d \<noteq> None \<Longrightarrow> driver_step (Wait dl, d) (Stopped, d)"
| teardown: "driver_step (Stopped, d) (Closed, teardown d)"
| arrive: "driver_step (fl, d) (fl, deliver data from d)"
| read: "driver_step (fl, d) (fl, snd (conn_Read n d))"
| close: "driver_step (fl, d) (fl, conn_shutdown e b d)"
| deadline: "driver_step (fl, d) (fl, d\<lparr>writeDeadline := t\<rparr>)"
| outcomes: "driver_step (fl, d) (fl, on_session (\<lambda>s. s\<lparr>world := (world s)\<lparr>tx_results := rs, random := bs, hook_results := hs\<rparr>\<rparr>) d)"


subsection \<open>What a step does to the session\<close>

lemma driver_keeps_session [simp]:
  "dr_session (releasePacket n d) = dr_session d" "dr_session (conn_shutdown e b d) = dr_session d"
  "dr_session (conn_fail e d) = dr_session d" "dr_session (fatal e d) = dr_session d"
  "dr_session (publishMaxDatagram d) = dr_session d" "dr_session (deliver data from d) = dr_session d"
  "dr_session (snd (conn_Read m d)) = dr_session d" "dr_session (enqueue_read q d) = dr_session d"
  "dr_session (on_session f d) = f (dr_session d)" "dr_session (snd (finish_command er d)) = dr_session d"
  by (auto simp: releasePacket_def conn_shutdown_def conn_fail_def fatal_def publishMaxDatagram_def deliver_def
      conn_Read_def enqueue_read_def on_session_def finish_command_def split: prod.split bool.split option.split list.split)

lemma fold_keeps_session [simp]:
  "dr_session (fold enqueue_read qs d) = dr_session d"
  "dr_session (fold (\<lambda>p. releasePacket (length (fst p))) ps d) = dr_session d"
  by (induction qs arbitrary: d, simp_all) (induction ps arbitrary: d, simp_all)

lemma publish_keeps_session [simp]: "dr_session (publish data d) = dr_session d"
  by (simp add: publish_def Let_def)

subsection \<open>What a step keeps of the connection\<close>

text \<open>\<open>same_conn\<close>: only the session, the pending command, the error and the published size may differ.\<close>

definition same_conn :: "'h driver \<Rightarrow> 'h driver \<Rightarrow> bool" where
  "same_conn d d' \<longleftrightarrow>
     incoming d' = incoming d \<and> incomingBytes d' = incomingBytes d \<and>
     readQueue d' = readQueue d \<and> readBytes d' = readBytes d \<and> cap_of d' = cap_of d \<and>
     remote0 d' = remote0 d \<and> handshakeDeadline d' = handshakeDeadline d \<and> dr_ready d' = dr_ready d"

lemma same_conn_refl [simp]: "same_conn d d"
  by (simp add: same_conn_def)

lemma same_conn_trans: "same_conn d e \<Longrightarrow> same_conn e f \<Longrightarrow> same_conn d f"
  by (simp add: same_conn_def)

lemma same_conn_field [simp]:
  "same_conn d (e\<lparr>dr_session := s\<rparr>) = same_conn d e" "same_conn d (e\<lparr>writeClosed := b\<rparr>) = same_conn d e"
  "same_conn d (e\<lparr>dr_pending := c\<rparr>) = same_conn d e" "same_conn d (publishMaxDatagram e) = same_conn d e"
  "same_conn d (conn_shutdown er b e) = same_conn d e" "same_conn d (conn_fail er e) = same_conn d e"
  "same_conn d (fatal er e) = same_conn d e" "same_conn d (on_session f e) = same_conn d e"
  "same_conn d (send_alert body e) = same_conn d e"
  by (simp_all add: same_conn_def publishMaxDatagram_def conn_shutdown_def conn_fail_def fatal_def on_session_def send_alert_def)

lemma same_conn_finish [simp]: "same_conn d (snd (finish_command er e)) = same_conn d e"
  by (simp add: finish_command_def split: option.split)

lemma same_conn_write: "same_conn d (snd (command_write c now d))"
proof -
  obtain r s where p: "application (cmd_data c) (dr_session d) = (r, s)" by fastforce
  obtain q u where q: "advancePost now s = (q, u)" by fastforce
  show ?thesis by (simp add: command_write_def Let_def p q split: sum.split)
qed

lemma same_conn_update: "same_conn d (snd (command_update c now d))"
proof -
  obtain r s where p: "requestKeyUpdate (cmd_requestPeer c) now (dr_session d) = (r, s)" by fastforce
  show ?thesis by (simp add: command_update_def Let_def p case_prod_unfold)
qed

lemma same_conn_rotate: "same_conn d (snd (command_rotate c now d))"
proof -
  obtain r s where p: "provideCIDs 1 True now (dr_session d) = (r, s)" by fastforce
  show ?thesis by (simp add: command_rotate_def Let_def p case_prod_unfold)
qed

lemma same_conn_close: "same_conn d (snd (command_close d))"
proof -
  obtain r s where p: "sendRecord (currentWriteEpoch (dr_session d)) contentAlert [1, 0] (dr_session d) = (r, s)" by fastforce
  show ?thesis by (simp add: command_close_def Let_def p)
qed

lemma same_conn_command: "same_conn d (snd (driver_command c now d))"
  by (simp add: driver_command_def case_prod_unfold Let_def same_conn_write same_conn_update same_conn_rotate
      same_conn_close split: commandKind.split)

lemma same_conn_pending: "same_conn d (run_pending cancelled now d)"
  by (simp add: run_pending_def case_prod_unfold Let_def same_conn_command split: option.split)

lemma same_conn_ready:
  assumes "become_ready configured d = (r, d')" shows "same_conn (d\<lparr>dr_ready := dr_ready d'\<rparr>) d' \<and> (dr_ready d \<longrightarrow> dr_ready d')"
  using assms by (auto simp: become_ready_def same_conn_def publish_def Let_def split: prod.splits sum.splits if_splits)

lemma same_conn_tick:
  assumes "tick_round now configured accept cancelled wait d = (fl, d')"
  shows "same_conn (d\<lparr>dr_ready := dr_ready d'\<rparr>) d'"
proof -
  obtain r s where p: "session_tick now (dr_session d) = (r, s)" by fastforce
  define d1 where "d1 = publishMaxDatagram (d\<lparr>dr_session := s, queuedBeforeTimeout := - 1\<rparr>)"
  obtain e d2 where q: "become_ready configured d1 = (e, d2)" by fastforce
  have d1: "same_conn d d1" by (simp add: d1_def same_conn_def publishMaxDatagram_def)
  have d2: "same_conn (d\<lparr>dr_ready := dr_ready d2\<rparr>) d2"
    using same_conn_ready [OF q] d1 by (simp add: same_conn_def)
  show ?thesis
  proof (cases r)
    case (Inl x)
    then have "d' = fatal x (d\<lparr>dr_session := s, queuedBeforeTimeout := - 1\<rparr>)" using assms p by (simp add: tick_round_def)
    then show ?thesis by (simp add: same_conn_def fatal_def conn_fail_def conn_shutdown_def)
  next
    case (Inr x)
    have d3: "same_conn (d\<lparr>dr_ready := dr_ready d3\<rparr>) d3" if "same_conn d2 d3" for d3
      using d2 that by (simp add: same_conn_def)
    have "d' = fatal (the e) d2 \<or> d' = d2 \<or> d' = run_pending cancelled now d2"
      using assms p q Inr by (auto simp: tick_round_def Let_def d1_def split: option.splits if_splits)
    then show ?thesis using d3 [of "fatal (the e) d2"] d3 [of d2] d3 [OF same_conn_pending] by auto
  qed
qed

lemma keeps_conn [simp]:
  "incoming (conn_shutdown e b d) = incoming d" "remote0 (conn_shutdown e b d) = remote0 d"
  "incoming (conn_fail e d) = incoming d" "remote0 (conn_fail e d) = remote0 d"
  "incoming (fatal e d) = incoming d" "remote0 (fatal e d) = remote0 d"
  "incoming (on_session f d) = incoming d" "remote0 (on_session f d) = remote0 d"
  "incoming (send_alert body d) = incoming d" "remote0 (send_alert body d) = remote0 d"
  "incoming (releasePacket n d) = incoming d" "remote0 (releasePacket n d) = remote0 d"
  "incoming (enqueue_read q d) = incoming d" "remote0 (enqueue_read q d) = remote0 d"
  by (simp_all add: conn_shutdown_def conn_fail_def fatal_def on_session_def send_alert_def releasePacket_def enqueue_read_def)

lemma keeps_read [simp]: "incoming (snd (conn_Read m d)) = incoming d" "remote0 (snd (conn_Read m d)) = remote0 d"
  by (simp_all add: conn_Read_def split: option.split list.split)

lemma keeps_fold [simp]:
  "incoming (fold enqueue_read qs d) = incoming d" "remote0 (fold enqueue_read qs d) = remote0 d"
  "incoming (fold (\<lambda>p. releasePacket (length (fst p))) ps d) = incoming d"
  "remote0 (fold (\<lambda>p. releasePacket (length (fst p))) ps d) = remote0 d"
  by (induction qs arbitrary: d, simp_all) (induction ps arbitrary: d, simp_all)+

lemma keeps_publish [simp]: "incoming (publish data d) = incoming d" "remote0 (publish data d) = remote0 d"
  by (simp_all add: publish_def Let_def)

lemma keeps_receive [simp]:
  "incoming (snd (receivePacket p now0 now d)) = incoming d" "remote0 (snd (receivePacket p now0 now d)) = remote0 d"
  by (simp_all add: receivePacket_def Let_def split: prod.split sum.split)

lemma keeps_tick [simp]:
  "incoming (snd (tick_round now configured accept cancelled wait d)) = incoming d"
  "remote0 (snd (tick_round now configured accept cancelled wait d)) = remote0 d"
  using same_conn_tick [of now configured accept cancelled wait d "fst (tick_round now configured accept cancelled wait d)"
      "snd (tick_round now configured accept cancelled wait d)"]
  by (simp_all add: same_conn_def)

lemma keeps_start [simp]:
  "incoming (snd (run_start now d)) = incoming d" "remote0 (snd (run_start now d)) = remote0 d"
  by (simp_all add: run_start_def Let_def split: prod.split sum.split)

lemma keeps_step: "driver_step x y \<Longrightarrow> remote0 (snd y) = remote0 (snd x)"
proof (induction rule: driver_step.induct)
  case (round d now now0 now' configured accept cancelled)
  show ?case
    by (auto simp: run_round_def drain_round_def case_prod_unfold Let_def split: option.split list.split)
next
  case (packet d p rest now0 now' going d' dl)
  then show ?case using keeps_receive(2) [of p now0 now' "d\<lparr>incoming := rest\<rparr>"] by simp
qed (simp_all add: Driver.teardown_def deliver_def Let_def split: prod.split bool.split)

lemma keeps_run: "driver_step\<^sup>*\<^sup>* x y \<Longrightarrow> remote0 (snd y) = remote0 (snd x)"
  by (induction rule: rtranclp_induct) (auto simp: keeps_step)

subsection \<open>The frame of the driver\<close>

locale driver_frame = session_frame R F for R :: "'h session \<Rightarrow> 'h session \<Rightarrow> bool" and F +
  assumes R_canProbe: "R s (s\<lparr>working := (working s)\<lparr>canProbe := b\<rparr>\<rparr>)"
    and R_outcomes: "R s (s\<lparr>world := (world s)\<lparr>tx_results := res, random := bs, hook_results := hs\<rparr>\<rparr>)"
    and R_notify: "R s (snd (sendRecordWith ep contentAlert body c (transport_send (Some (peer (path_of s)))) s))"
begin

lemma R_send_alert: "R (dr_session d) (dr_session (send_alert body d))"
  by (simp add: send_alert_def R_sendRecord)

lemma R_receivePacket:
  assumes "F \<lparr>remote = snd p, local_id = 1\<rparr>"
  shows "R (dr_session d) (dr_session (snd (receivePacket p now0 now d)))"
proof -
  define d1 where "d1 = releasePacket (length (fst p)) d"
  have d1: "dr_session d1 = dr_session d" by (simp add: d1_def)
  obtain r s where p: "receiveFrom (fst p) \<lparr>remote = snd p, local_id = 1\<rparr> now (dr_session d) = (r, s)" by fastforce
  then have s: "R (dr_session d) s" using R_receiveFrom [OF assms] by (metis snd_conv)
  then have a: "R (dr_session d) (dr_session (send_alert body (d1\<lparr>dr_session := s\<rparr>)))" for body
    using R_send_alert [of "d1\<lparr>dr_session := s\<rparr>" body] by (simp add: R_trans [OF s])
  show ?thesis
    unfolding receivePacket_def Let_def d1_def [symmetric] d1 p
    by (cases r) (simp_all add: d1 R_refl s a)
qed

lemma R_command_write: "R (dr_session d) (dr_session (snd (command_write c now d)))"
proof -
  obtain r s where p: "application (cmd_data c) (dr_session d) = (r, s)" by fastforce
  then have s: "R (dr_session d) s" using R_application by (metis snd_conv)
  obtain q u where q: "advancePost now s = (q, u)" by fastforce
  then have "R (dr_session d) u" using R_trans [OF s] R_advancePost by (metis snd_conv)
  then show ?thesis
    using s by (auto simp: command_write_def Let_def p q R_refl split: sum.split)
qed

lemma R_command_update: "R (dr_session d) (dr_session (snd (command_update c now d)))"
proof -
  obtain r s where p: "requestKeyUpdate (cmd_requestPeer c) now (dr_session d) = (r, s)" by fastforce
  then have s: "R (dr_session d) s" using R_requestKeyUpdate by (metis snd_conv)
  then show ?thesis
    by (auto simp: command_update_def Let_def p R_refl case_prod_unfold)
qed

lemma R_command_rotate: "R (dr_session d) (dr_session (snd (command_rotate c now d)))"
proof -
  obtain r s where p: "provideCIDs 1 True now (dr_session d) = (r, s)" by fastforce
  then have s: "R (dr_session d) s" using R_provideCIDs by (metis snd_conv)
  then show ?thesis
    by (auto simp: command_rotate_def Let_def p R_refl case_prod_unfold)
qed

lemma R_command_close: "R (dr_session d) (dr_session (snd (command_close d)))"
proof -
  obtain r s where p: "sendRecord (currentWriteEpoch (dr_session d)) contentAlert [1, 0] (dr_session d) = (r, s)" by fastforce
  then have s: "R (dr_session d) s" using R_sendRecord by (metis snd_conv)
  then show ?thesis
    by (auto simp: command_close_def Let_def p R_refl)
qed

lemma R_driver_command: "R (dr_session d) (dr_session (snd (driver_command c now d)))"
  using R_command_write [of d c now] R_command_update [of d c now] R_command_rotate [of d c now] R_command_close [of d]
  by (auto simp: driver_command_def Let_def case_prod_unfold R_refl split: commandKind.split)

lemma R_run_pending: "R (dr_session d) (dr_session (run_pending cancelled now d))"
  using R_driver_command by (auto simp: run_pending_def R_refl Let_def case_prod_unfold split: option.split)

lemma R_become_ready: "R (dr_session d) (dr_session (snd (become_ready configured d)))"
proof -
  obtain r s where p: "sendACK (dr_session d) = (r, s)" by fastforce
  then have s: "R (dr_session d) s" using R_sendACK by (metis snd_conv)
  have a: "R (dr_session d) (s\<lparr>cid := cs\<rparr>)" for cs using R_trans [OF s R_cid] .
  have b: "R (dr_session d) (s\<lparr>working := (working s)\<lparr>canProbe := x\<rparr>, cid := cs\<rparr>)" for x cs
    using R_trans [OF s R_trans [OF R_canProbe R_cid]] by simp
  show ?thesis
    unfolding become_ready_def p Let_def by (cases r) (simp_all add: R_refl s a b)
qed

lemma R_tick_round: "R (dr_session d) (dr_session (snd (tick_round now configured accept cancelled wait d)))"
proof -
  obtain r s where p: "session_tick now (dr_session d) = (r, s)" by fastforce
  then have s: "R (dr_session d) s" using R_session_tick by (metis snd_conv)
  define d1 where "d1 = publishMaxDatagram (d\<lparr>dr_session := s, queuedBeforeTimeout := - 1\<rparr>)"
  obtain e d2 where q: "become_ready configured d1 = (e, d2)" by fastforce
  have "dr_session d1 = s" by (simp add: d1_def)
  then have d2: "R (dr_session d) (dr_session d2)"
    using R_trans [OF s] R_become_ready [of d1 configured] q by simp
  show ?thesis
    using s d2 R_trans [OF d2 R_run_pending]
    by (cases r; cases e) (simp_all add: tick_round_def p Let_def q [unfolded d1_def])
qed

lemma R_drain_round:
  assumes "\<And>p. p \<in> set (incoming d) \<Longrightarrow> F \<lparr>remote = snd p, local_id = 1\<rparr>"
  shows "R (dr_session d) (dr_session (snd (drain_round now0 now since d)))"
proof -
  define d1 where "d1 = (if queuedBeforeTimeout d < 0 then d\<lparr>queuedBeforeTimeout := int (length (incoming d))\<rparr> else d)"
  have d1: "dr_session d1 = dr_session d" "incoming d1 = incoming d" by (simp_all add: d1_def)
  have "R (dr_session d) (dr_session (snd (receivePacket p now0 now (d1\<lparr>incoming := rest, queuedBeforeTimeout := q\<rparr>))))"
    if "p \<in> set (incoming d)" for p rest q
    using R_receivePacket [OF assms [OF that], of "d1\<lparr>incoming := rest, queuedBeforeTimeout := q\<rparr>"] by (simp add: d1)
  then show ?thesis
    unfolding drain_round_def Let_def d1_def [symmetric]
    by (auto simp: d1 R_refl case_prod_unfold split: list.split)
qed

lemma R_run_round:
  assumes "\<And>p. p \<in> set (incoming d) \<Longrightarrow> F \<lparr>remote = snd p, local_id = 1\<rparr>"
  shows "R (dr_session d) (dr_session (snd (run_round now now0 now' configured accept cancelled d)))"
  by (simp add: run_round_def R_refl R_tick_round R_drain_round [OF assms] split: option.split)

lemma R_run_start: "R (dr_session d) (dr_session (snd (run_start now d)))"
proof -
  obtain r s where p: "processHandshakes now (dr_session d) = (r, s)" by fastforce
  then have s: "R (dr_session d) s" using R_processHandshakes by (metis snd_conv)
  then have "R (dr_session d) (dr_session (send_alert body (d\<lparr>dr_abort := True, dr_started := now, dr_session := s\<rparr>)))" for body
    using R_send_alert [of "d\<lparr>dr_abort := True, dr_started := now, dr_session := s\<rparr>" body] by (simp add: R_trans [OF s])
  with s show ?thesis by (cases r) (simp_all add: run_start_def Let_def p R_refl send_alert_def)
qed

lemma R_teardown: "R (dr_session d) (dr_session (teardown d))"
proof -
  have "dr_session (conn_fail ErrClosed (d\<lparr>dr_pending := None\<rparr>)) = dr_session d" by simp
  then show ?thesis
    using R_trans [OF R_notify R_reassembly] by (simp add: teardown_def Let_def R_reassembly)
qed

lemma R_driver_step:
  "driver_step x y \<Longrightarrow> (\<And>p. p \<in> set (incoming (snd x)) \<Longrightarrow> F \<lparr>remote = snd p, local_id = 1\<rparr>) \<Longrightarrow>
   R (dr_session (snd x)) (dr_session (snd y))"
proof (induction rule: driver_step.induct)
  case (packet d p rest now0 now' going d' dl)
  then show ?case using R_receivePacket [of p "d\<lparr>incoming := rest\<rparr>" now0 now'] by simp
qed (simp_all add: R_refl R_run_round R_teardown R_outcomes)

end

locale run_frame = driver_frame R "\<lambda>_. True" for R :: "'h session \<Rightarrow> 'h session \<Rightarrow> bool"
begin

lemma R_driver: "driver_step\<^sup>*\<^sup>* x y \<Longrightarrow> R (dr_session (snd x)) (dr_session (snd y))"
  by (induction rule: rtranclp_induct) (auto intro: R_refl R_trans [OF _ R_driver_step])

end

end
