(* ===== verification/SessionDemo.thy ===== *)
theory SessionDemo
  imports Driver
begin

text \<open>
  Concrete connections: a server that has just admitted a ClientHello, whose handler rejects it, so that the
  driver answers with an alert, or answers it with keys and two messages; and a connection with nothing to
  do.  The cryptographic primitives are stand-ins.  The development uses them where a statement about runs
  is shown to apply.
\<close>

definition demo_world :: world where
  "demo_world = \<lparr>tx_log = [], tx_results = [], random = replicate 64 5, hook_results = [], demux_cids = [], path_changes = [], sealed = []\<rparr>"

lemma demo_world_log: "tx_log demo_world = []"
  by (simp add: demo_world_def)

definition demo_aead :: aead where
  "demo_aead = \<lparr>a_Seal = (\<lambda>n p h. p @ replicate 16 0), a_Open = (\<lambda>n c h. Some (take (length c - 16) c)), a_Overhead = 16\<rparr>"

definition demo_crypto :: crypto where
  "demo_crypto = \<lparr>hash_Size = (\<lambda>_. 2), hash_Sum = (\<lambda>_ m. take 2 m), hmac_Sum = (\<lambda>_ k m. take 2 m),
     hkdf_Extract = (\<lambda>_ s i. Inr (take 2 (s @ i))), hkdf_Expand = (\<lambda>_ s i n. Inr (replicate n 1)),
     aes_NewCipher = (\<lambda>k. Inr (\<lambda>b. replicate 16 0)), cipher_NewGCM = (\<lambda>b. Inr demo_aead),
     chacha20poly1305_New = (\<lambda>k. Inl errCipher), chacha20_NewUnauthenticatedCipher = (\<lambda>k n. None)\<rparr>"

definition demo_config :: Config where
  "demo_config = \<lparr>cfg_MTU = 1200, UnfragmentedProbes = False, ConnectionIDLength = 8, HandshakeTimeout = 30000000000,
     HandshakeReadTimeout = 0, DisableHandshakeTimeout = False, MaxConnections = 256, AcceptPeer = None\<rparr>"

definition demo_handshake :: handshakeState where
  "demo_handshake = \<lparr>hs_config = Some demo_config, hs_client = True, hs_sequence = 1, hs_schedule = None, hs_CipherSuite = 0,
     localCID = [], peerCID = [], cidNegotiated = False, rrc = False, peerCIDUpdates = False,
     clientApplication = [], serverApplication = [], hs_complete = False\<rparr>"

definition demo_hello :: handshakeMessage where
  "demo_hello = \<lparr>msg_typ = 1, msg_sequence = 1, msg_epoch = 0, msg_body = []\<rparr>"

type_synonym demo_handler = "handshakeMessage \<Rightarrow> (unit \<times> handshakeState, handshakeMessage list) act"

definition demo_admitted_by :: "demo_handler \<Rightarrow> unit session" where
  "demo_admitted_by handle = (newSession demo_handshake () handle demo_crypto demo_world)
     \<lparr>reassembly := \<lparr>next_seq = 1, pending = [(1, \<lparr>part_message = demo_hello, seen = [], remaining = 0\<rparr>)], buffered = 0, budget = None\<rparr>,
      epochs := \<lparr>ep_read = [], ep_write = [(0, \<lparr>wk_keys = None, wk_secret = [], wk_sequence = 4\<rparr>)],
                installed = 0, readApplicationEpoch = 0\<rparr>,
      cid := \<lparr>local_cids = None, immediate = [], peerSpare = [], requested = False, want = False,
             response = None, has_setLocal = True\<rparr>\<rparr>"

lemma demo_admission_ok:
  "admit_session demo_handshake () handle demo_crypto demo_world None demo_hello 4 = Some (demo_admitted_by handle)"
proof -
  obtain b where b: "fragment demo_hello 0 0 = Inr b"
    by (simp add: fragment_def demo_hello_def Let_def maxHandshakeBody_def wr_result_def write_vector24_def write_uint24_def
      writeUint16_def writeUint8_def new_writer_def segment_def)
  have p: "parseFragment b = Inr (\<lparr>frag_typ = 1, frag_sequence = 1, frag_total = 0, frag_offset = 0, frag_body = []\<rparr>, [])" "b \<noteq> []"
    using fragment_parse(1) [OF b, of "[]"] fragment_parse(5) [OF b] by (simp_all add: part_of_def demo_hello_def segment_def)
  have "add \<lparr>next_seq = 1, pending = [], buffered = 0, budget = None\<rparr> b 0 =
    (Inr True, \<lparr>next_seq = 1, pending = [(1, \<lparr>part_message = demo_hello, seen = [], remaining = 0\<rparr>)], buffered = 0, budget = None\<rparr>)"
    using p by (simp add: add_def add_loop.simps insert_frag_def open_partial_def maxPendingMessages_def maxHandshakeBody_def
        reserve_def new_partial_def demo_hello_def Let_def bit_bytes_def)
  then show ?thesis
    using b by (simp add: admit_session_def demo_admitted_by_def newSession_def demo_hello_def Let_def)
qed

lemma demo_initial: "initial_session demo_handshake handle demo_world (demo_admitted_by handle)"
  by (rule initial_session.server [OF demo_admission_ok])

definition demo_reject :: demo_handler where
  "demo_reject m s = (Inl errDecode, s)"

definition demo_admitted :: "unit session" where
  "demo_admitted = demo_admitted_by demo_reject"

lemma demo_admitted_initial: "initial_session demo_handshake demo_reject demo_world demo_admitted"
  unfolding demo_admitted_def by (rule demo_initial)

definition demo_driver :: "unit driver" where
  "demo_driver = newConn \<lparr>ap_addr = [127, 0, 0, 1], ap_zone = [], ap_port = 4433\<rparr> length demo_admitted"

lemma demo_run: "\<exists>d p. tx_log (world (dr_session (snd (run_start 0 (attach demo_admitted demo_driver))))) = [(d, p)]"
proof -
  define s where "s = dr_session (attach demo_admitted demo_driver)"
  have pop: "pop (reassembly s) = (Some demo_hello, \<lparr>next_seq = 2, pending = [], buffered = 0, budget = None\<rparr>)"
    by (simp add: s_def attach_def pop_def demo_admitted_def demo_admitted_by_def demo_reject_def demo_hello_def release_def)
  have ph: "processHandshakes 0 s = (Inl errDecode, s\<lparr>reassembly := \<lparr>next_seq = 2, pending = [], buffered = 0, budget = None\<rparr>\<rparr>)"
    unfolding processHandshakes.simps [of 0 s] pop
    by (simp add: s_def attach_def demo_admitted_def demo_admitted_by_def demo_reject_def newSession_def demo_handshake_def handle_message_def run_handler_def andthen_def)
  define s1 where "s1 = s\<lparr>reassembly := \<lparr>next_seq = 2, pending = [], buffered = 0, budget = None\<rparr>\<rparr>"
  have ce: "conn_err (attach demo_admitted demo_driver) = None" by (simp add: attach_def demo_driver_def newConn_def)
  have "dr_session (snd (run_start 0 (attach demo_admitted demo_driver))) =
      snd (sendRecord (currentWriteEpoch s1) contentAlert (errorAlert errDecode) s1)"
    using ph ce by (simp add: run_start_def Let_def s_def [symmetric] s1_def send_alert_def)
  also have "\<exists>p. tx_log (world \<dots>) = [(None, p)]"
    by (simp add: s1_def s_def attach_def demo_admitted_def demo_admitted_by_def demo_reject_def newSession_def currentWriteEpoch_def sendRecord_def sendRecordWith_def
        sendRecordLimited_def encodePlainRecord_def maxContent_def note_write_def transport_send_def andthen_def ok_def Let_def
        errorAlert_def effectiveMTU_def mtuCeiling_def demo_handshake_def demo_config_def demo_world_def)
  finally show ?thesis by blast
qed

subsection \<open>A server that answers\<close>

text \<open>The handler installs application keys and answers with two empty messages, which are two protected records.\<close>

definition demo_part :: "u16 \<Rightarrow> handshakeMessage" where
  "demo_part q = \<lparr>msg_typ = 20, msg_sequence = q, msg_epoch = 3, msg_body = []\<rparr>"

definition demo_secrets :: keySchedule where
  "demo_secrets = \<lparr>ks_suite = cipherSuites ! 0, ks_transcript = [], master = [], clientHandshake = [], serverHandshake = []\<rparr>"

definition demo_answer :: demo_handler where
  "demo_answer m s =
     (Inr [demo_part 0, demo_part 1],
      fst s, (snd s)\<lparr>hs_schedule := Some demo_secrets, hs_CipherSuite := aes128GCM,
                      clientApplication := [1, 2], serverApplication := [3, 4]\<rparr>)"

definition demo_session_keys :: trafficKeys where
  "demo_session_keys = keys_with (cipherSuites ! 0) demo_aead (SnBlock (\<lambda>b. replicate 16 0)) (replicate 12 1)"

lemma demo_keys_derived: "length x = 2 \<Longrightarrow> newTrafficKeys demo_crypto aes128GCM x = Inr demo_session_keys"
  by (simp add: newTrafficKeys_def suiteFor_def cipherSuites_def suite_ids demo_crypto_def expandLabel_def
      label_prefix_def Let_def demo_session_keys_def)

definition demo_keyed :: "unit session" where
  "demo_keyed = (let s = dr_session (attach (demo_admitted_by demo_answer) demo_driver) in
     s\<lparr>reassembly := \<lparr>next_seq = 2, pending = [], buffered = 0, budget = None\<rparr>,
       handshake := snd (snd (demo_answer demo_hello ((), demo_handshake))),
       epochs := \<lparr>ep_read = [(3, \<lparr>rk_keys = demo_session_keys, rk_secret = [3, 4], rk_window = \<lparr>highest = 0, bits = 0\<rparr>, failures = 0\<rparr>)],
         ep_write = [(0, \<lparr>wk_keys = None, wk_secret = [], wk_sequence = 4\<rparr>), (3, \<lparr>wk_keys = Some demo_session_keys, wk_secret = [1, 2], wk_sequence = 0\<rparr>)],
         installed = 8, readApplicationEpoch = 3\<rparr>\<rparr>)"

lemma demo_pop: "pop (reassembly (dr_session (attach (demo_admitted_by h) demo_driver))) = (Some demo_hello, \<lparr>next_seq = 2, pending = [], buffered = 0, budget = None\<rparr>)"
    by (simp add: attach_def pop_def demo_admitted_by_def demo_hello_def release_def)

lemma demo_keyed_handle:
  "handle_message demo_hello 0 (dr_session (attach (demo_admitted_by demo_answer) demo_driver)\<lparr>reassembly := \<lparr>next_seq = 2, pending = [], buffered = 0, budget = None\<rparr>\<rparr>)
   = andthen (respond [demo_part 0, demo_part 1] 0) (\<lambda>_. sendACK) demo_keyed"
proof -
  have "installKeys (finish_outbound 0 (snd (run_handler demo_hello (dr_session (attach (demo_admitted_by demo_answer) demo_driver)\<lparr>reassembly := \<lparr>next_seq = 2, pending = [], buffered = 0, budget = None\<rparr>\<rparr>)))) = (Inr (), demo_keyed)"
    by (simp add: run_handler_def attach_def demo_admitted_by_def newSession_def finish_outbound_def demo_answer_def installKeys_def demo_secrets_def
       install_pair_def andthen_def demo_keys_derived demo_handshake_def demo_keyed_def Let_def)
  then show ?thesis
  by (simp add: handle_message_def andthen_def run_handler_def attach_def demo_admitted_by_def newSession_def demo_answer_def)
qed

lemma demo_seal:
  assumes "map_of (ep_write (epochs u)) 3 = Some w" "wk_keys w = Some demo_session_keys" "wk_sequence w < 2 ^ 24"
    and "length body = 12" "effectiveMTU u = 1200" "\<not> cidNegotiated (handshake u)" "tx_results (world u) = []"
  shows "\<exists>p. sendRecord 3 contentHandshake body u =
    (Inr \<lparr>epoch = 3, sequence = wk_sequence w\<rparr>, snd (transport_send None p (note_write 3 w p u)))"
proof -
  have "\<exists>p. encodeRecord demo_session_keys \<lparr>epoch = 3, sequence = wk_sequence w\<rparr> [] contentHandshake body 0 = Inr p \<and> length p \<le> 1200"
    using assms(4)
    by (simp add: encodeRecord_def demo_session_keys_def keys_with_def demo_aead_def tk_seal_def tk_mask_def xor_mask_def record_consts
        validContentType_def upt_conv_Cons Let_def)
  then obtain p where p: "encodeRecord demo_session_keys \<lparr>epoch = 3, sequence = wk_sequence w\<rparr> [] contentHandshake body 0 = Inr p" "length p \<le> 1200" by blast
  have lim: "recordLimit demo_session_keys = 2 ^ 24" by (simp add: demo_session_keys_def keys_with_def cipherSuites_def)
  show ?thesis
    using assms p lim
    by (intro exI [of _ p]) (simp add: sendRecord_def sendRecordWith_def sendRecordLimited_def Let_def andthen_def ok_def transport_send_def note_write_def)
qed

lemma demo_fragment: "\<exists>b. fragment (demo_part q) 0 0 = Inr b \<and> length b = 12"
  by (simp add: fragment_def demo_part_def Let_def maxHandshakeBody_def wr_result_def write_vector24_def write_uint24_def
      writeUint16_def writeUint8_def new_writer_def segment_def)

lemma demo_transmit:
  fixes s :: "unit session"
  assumes "fragment (demo_part 0) 0 0 = Inr b" "fragment (demo_part 1) 0 0 = Inr c"
    and "send s 3 b = (Inr \<lparr>epoch = 3, sequence = 0\<rparr>, s1)" "send s1 3 c = (Inr \<lparr>epoch = 3, sequence = 1\<rparr>, s2)"
    and "newFlight [demo_part 0, demo_part 1] ival = Inr f" "1 \<le> cap" "cap \<le> 16372"
  shows "\<exists>f'. transmit send 0 cap f s = (None, f', s2)"
  using assms
  by (auto simp: newFlight_def demo_part_def maxPendingMessages_def maxHandshakeBody_def Let_def new_outbound_def
      transmit_def sendRanges_def send_message.simps skip_range.simps end_range.simps
      maxFlightRecords_def record_send_def flightBurst_def pendingSend_def maxContent_def handshakeHeader_def bind_ok_eq_Inr)

definition demo_flying :: "flight \<Rightarrow> unit session" where
  "demo_flying f = demo_keyed\<lparr>outbound := Some f\<rparr>"

lemma demo_flying_sel [simp]:
  "epochs (demo_flying f) = epochs demo_keyed" "world (demo_flying f) = demo_world" "outbound (demo_flying f) = Some f"
  "map_of (ep_write (epochs demo_keyed)) 3 = Some \<lparr>wk_keys = Some demo_session_keys, wk_secret = [1, 2], wk_sequence = 0\<rparr>"
  "effectiveMTU (demo_flying f) = 1200" "\<not> cidNegotiated (handshake (demo_flying f))" "\<not> hs_complete (handshake (demo_flying f))"
  "pathMTU (working (demo_flying f)) = 0" "hs_config (handshake (demo_flying f)) = Some demo_config"
  "ack_pending (ack (demo_flying f)) = []" "pending (reassembly (demo_flying f)) = []"
  by (simp_all add: demo_flying_def demo_keyed_def Let_def attach_def demo_admitted_by_def newSession_def effectiveMTU_def mtuCeiling_def
      demo_answer_def demo_handshake_def demo_config_def)

lemma demo_start:
  "\<exists>f. newFlight [demo_part 0, demo_part 1] 1000000000 = Inr f \<and>
     respond [demo_part 0, demo_part 1] 0 demo_keyed = session_transmit Outbound 0 (demo_flying f)"
proof -
  obtain f where f: "newFlight [demo_part 0, demo_part 1] 1000000000 = Inr f"
    by (simp add: newFlight_def demo_part_def maxPendingMessages_def maxHandshakeBody_def Let_def)
  have "installKeys demo_keyed = (Inr (), demo_keyed)" "currentWriteEpoch demo_keyed = 3" "outbound demo_keyed = None" "rtt demo_keyed = 0"
    by (simp_all add: demo_keyed_def Let_def attach_def demo_admitted_by_def newSession_def installKeys_def install_pair_def
        demo_answer_def demo_secrets_def andthen_def currentWriteEpoch_def)
  with f show ?thesis
    by (simp add: respond_def startFlight_def andthen_def demo_flying_def retransmitTimer_def initialRetransmit_def)
qed

lemma demo_two_records:
  "\<exists>p q. fst (run_start 0 (attach (demo_admitted_by demo_answer) demo_driver)) = Top \<and>
     sealed (world (dr_session (snd (run_start 0 (attach (demo_admitted_by demo_answer) demo_driver))))) =
       [(\<lparr>epoch = 3, sequence = 1\<rparr>, Some demo_session_keys, q), (\<lparr>epoch = 3, sequence = 0\<rparr>, Some demo_session_keys, p)] \<and>
     map snd (tx_log (world (dr_session (snd (run_start 0 (attach (demo_admitted_by demo_answer) demo_driver)))))) = [q, p]"
proof -
  obtain f where f: "newFlight [demo_part 0, demo_part 1] 1000000000 = Inr f"
    and re: "respond [demo_part 0, demo_part 1] 0 demo_keyed = session_transmit Outbound 0 (demo_flying f)"
    using demo_start by blast
  obtain b c where b: "fragment (demo_part 0) 0 0 = Inr b" "length b = 12" "fragment (demo_part 1) 0 0 = Inr c" "length c = 12"
    using demo_fragment by metis
  let ?w = "\<lparr>wk_keys = Some demo_session_keys, wk_secret = [1, 2], wk_sequence = 0\<rparr>"
  obtain p where p: "sendRecord 3 contentHandshake b (demo_flying f) =
      (Inr \<lparr>epoch = 3, sequence = 0\<rparr>, snd (transport_send None p (note_write 3 ?w p (demo_flying f))))"
    using demo_seal [of "demo_flying f" ?w b] b(2) by (auto simp: demo_world_def)
  define s1 where "s1 = snd (transport_send None p (note_write 3 ?w p (demo_flying f)))"
  have s1: "map_of (ep_write (epochs s1)) 3 = Some (?w\<lparr>wk_sequence := 1\<rparr>)" "effectiveMTU s1 = 1200"
      "\<not> cidNegotiated (handshake s1)" "tx_results (world s1) = []" "tx_log (world s1) = [(None, p)]"
      "sealed (world s1) = [(\<lparr>epoch = 3, sequence = 0\<rparr>, Some demo_session_keys, p)]"
      "\<not> hs_complete (handshake s1)" "pending (reassembly s1) = []" "ack_pending (ack s1) = []"
    by (simp_all add: s1_def transport_send_def note_write_def Let_def update_conv effectiveMTU_def mtuCeiling_def demo_world_def demo_config_def)
  obtain q where q: "sendRecord 3 contentHandshake c s1 =
      (Inr \<lparr>epoch = 3, sequence = 1\<rparr>, snd (transport_send None q (note_write 3 (?w\<lparr>wk_sequence := 1\<rparr>) q s1)))"
    using demo_seal [of s1 "?w\<lparr>wk_sequence := 1\<rparr>" c] b(4) s1 by auto
  define s2 where "s2 = snd (transport_send None q (note_write 3 (?w\<lparr>wk_sequence := 1\<rparr>) q s1))"
  have cap: "1 \<le> fragmentCapacity (demo_flying f)" "fragmentCapacity (demo_flying f) \<le> 16372"
    by (simp_all add: fragmentCapacity_def fragmentBudget_def handshakeHeader_def maxContent_def)
  from demo_transmit [OF b(1,3) _ _ f cap, of "\<lambda>s ep body. sendRecord ep contentHandshake body s" "demo_flying f" s1 s2]
    p q obtain f' where "transmit (\<lambda>s ep body. sendRecord ep contentHandshake body s) 0 (fragmentCapacity (demo_flying f)) f (demo_flying f) = (None, f', s2)"
    by (auto simp: s1_def s2_def)
  moreover have s2: "\<not> hs_complete (handshake s2)" "pending (reassembly s2) = []" "ack_pending (ack s2) = []"
      "map snd (tx_log (world s2)) = [q, p]"
      "sealed (world s2) = [(\<lparr>epoch = 3, sequence = 1\<rparr>, Some demo_session_keys, q), (\<lparr>epoch = 3, sequence = 0\<rparr>, Some demo_session_keys, p)]"
    using s1 by (simp_all add: s2_def transport_send_def note_write_def Let_def)
  ultimately have tr: "session_transmit Outbound 0 (demo_flying f) = (Inr (), s2\<lparr>outbound := Some f'\<rparr>)"
    by (subst session_transmit.simps) simp
  define s3 where "s3 = s2\<lparr>outbound := Some f', ack := (ack s2)\<lparr>ack_deadline := None\<rparr>\<rparr>"
  have h: "andthen (respond [demo_part 0, demo_part 1] 0) (\<lambda>_. sendACK) demo_keyed = (Inr (), s3)"
    using s2 by (simp add: andthen_def re tr sendACK_def writeAcknowledgements_def s3_def)
  define s0 where "s0 = dr_session (attach (demo_admitted_by demo_answer) demo_driver)"
  have "pop (reassembly s3) = (None, reassembly s3)" using s2 by (simp add: s3_def pop_def)
  then have "processHandshakes 0 s3 = (Inr (), s3)" by (subst processHandshakes.simps) simp
  moreover have "\<not> hs_complete (handshake s0)" by (simp add: s0_def attach_def demo_admitted_by_def newSession_def demo_handshake_def)
  ultimately have "processHandshakes 0 s0 = (Inr (), s3)"
    using h demo_keyed_handle [folded s0_def] by (subst processHandshakes.simps) (simp add: demo_pop [of demo_answer, folded s0_def])
  moreover have "conn_err (attach (demo_admitted_by demo_answer) demo_driver) = None" by (simp add: attach_def demo_driver_def newConn_def)
  ultimately show ?thesis
    using s2 by (intro exI [of _ p] exI [of _ q]) (simp add: run_start_def Let_def s0_def [symmetric] s3_def)
qed

text \<open>A connection with nothing to do, and an address that is not its peer.\<close>

definition demo_other :: addrPort where
  "demo_other = \<lparr>ap_addr = [10, 0, 0, 9], ap_zone = [], ap_port = 9\<rparr>"

definition demo_idle :: "unit session" where
  "demo_idle = newSession demo_handshake () demo_reject demo_crypto demo_world"

lemma demo_idle_start:
  "fst (run_start 0 (attach demo_idle demo_driver)) = Top"
  "conn_err (snd (run_start 0 (attach demo_idle demo_driver))) = None"
  "incoming (snd (run_start 0 (attach demo_idle demo_driver))) = []"
  "incomingBytes (snd (run_start 0 (attach demo_idle demo_driver))) = 0"
  "packetBudget (snd (run_start 0 (attach demo_idle demo_driver))) = None"
proof -
  have "processHandshakes 0 (dr_session (attach demo_idle demo_driver)) = (Inr (), dr_session (attach demo_idle demo_driver))"
    by (subst processHandshakes.simps) (simp add: attach_def demo_idle_def newSession_def pop_def)
  then show "fst (run_start 0 (attach demo_idle demo_driver)) = Top"
    "conn_err (snd (run_start 0 (attach demo_idle demo_driver))) = None"
    "incoming (snd (run_start 0 (attach demo_idle demo_driver))) = []"
    "incomingBytes (snd (run_start 0 (attach demo_idle demo_driver))) = 0"
    "packetBudget (snd (run_start 0 (attach demo_idle demo_driver))) = None"
    by (simp_all add: run_start_def Let_def) (simp_all add: attach_def demo_driver_def newConn_def)
qed

end
