(* ===== verification/FlightProps.thy ===== *)
theory FlightProps
  imports FlightLemmas
begin

text \<open>
  The properties of flights.  \<open>flying send\<close> is reachability: the states a flight can take, with the
  state of the sending callback beside it, under any interleaving of transmissions,
  acknowledgements, timer expiries and round-trip samples; the callback's state may also change on
  its own, since a connection sends other records too.
\<close>

inductive flying :: "'s sender \<Rightarrow> flight \<Rightarrow> 's \<Rightarrow> bool" for send where
  start: "newFlight ms ival = Inr f \<Longrightarrow> flying send f s"
| transmit: "flying send f s \<Longrightarrow> transmit send now capacity f s = (err, f', s') \<Longrightarrow> flying send f' s'"
| acknowledge: "flying send f s \<Longrightarrow> acknowledge f ns auth now = (progress, rtt, f') \<Longrightarrow> flying send f' s"
| expire: "flying send f s \<Longrightarrow> expire (Some f) now = (r, Some f') \<Longrightarrow> flying send f' s"
| sample: "flying send f s \<Longrightarrow> noteRTT rtt sample (Some f) = (rtt', Some f') \<Longrightarrow> flying send f' s"
| other: "flying send f s \<Longrightarrow> flying send f s'"

lemma flying_ok: "flying send f s \<Longrightarrow> flight_ok f"
proof (induction rule: flying.induct)
  case (start ms ival f s)
  then show ?case by (rule newFlight_ok)
next
  case (transmit f s now capacity err f' s')
  then show ?case using transmit_ok [OF transmit(3), of send now capacity s] by simp
next
  case (acknowledge f s ns auth now progress rtt f')
  then show ?case using acknowledge_ok [OF acknowledge(3), of ns auth now] by simp
next
  case (expire f s now r f')
  then show ?case using expire_ok by blast
next
  case (sample f s rtt sample rtt' f')
  then show ?case using noteRTT_ok by blast
qed

text \<open>A callback that numbers its records and keeps what it sent.\<close>

definition log_send :: "(u64 \<times> byte list list) sender" where
  "log_send st ep b = (case st of (n, log) \<Rightarrow> (Inr \<lparr>epoch = ep, sequence = n\<rparr>, (n + 1, log @ [b])))"

definition tiny_message :: handshakeMessage where
  "tiny_message = \<lparr>msg_typ = 20, msg_sequence = 0, msg_epoch = 0, msg_body = [5]\<rparr>"

lemma tiny_flight: "\<exists>f. newFlight [tiny_message] 0 = Inr f"
  by (simp add: newFlight_def tiny_message_def maxPendingMessages_def maxHandshakeBody_def Let_def)

definition empty_message :: handshakeMessage where
  "empty_message = \<lparr>msg_typ = 20, msg_sequence = 0, msg_epoch = 0, msg_body = []\<rparr>"

lemma empty_flight:
  "\<exists>f f' s'. newFlight [empty_message] 0 = Inr f \<and> transmit log_send 7 100 f (0, []) = (None, f', s') \<and>
     fl_sent f' = [(\<lparr>epoch = 0, sequence = 0\<rparr>, \<lparr>sf_message = 0, sf_start = 0, sf_end = 0, sentAt = Some 7\<rparr>)] \<and>
     \<not> pendingSend f' \<and> snd s' \<noteq> []"
  by (simp add: newFlight_def empty_message_def maxPendingMessages_def maxHandshakeBody_def Let_def new_outbound_def
      transmit_def sendRanges_def send_message.simps skip_range.simps end_range.simps fragment_def log_send_def
      maxFlightRecords_def record_send_def flightBurst_def pendingSend_def maxContent_def handshakeHeader_def segment_def)

text \<open>C29: the bookkeeping of a flight is exact in every reachable state: for each message the counters
  equal the number of bytes that are unacknowledged and sent, a byte is acknowledged only after it was
  sent, and the retransmission interval and the retry count stay within their limits.\<close>

theorem flight_counters:
  assumes "flying send f s" "m \<in> set (messages f)"
  shows "out_remaining m = int (card {j. j < length (msg_body (out_message m)) \<and> \<not> hasByte m j}) \<and>
    sentCount m = int (card {j. j < length (msg_body (out_message m)) \<and> hasSent m j}) \<and>
    {j. j < length (msg_body (out_message m)) \<and> hasByte m j} \<subseteq> {j. hasSent m j} \<and>
    0 < interval f \<and> interval f \<le> 60000000000 \<and> 0 \<le> retries f \<and> retries f \<le> 8"
proof -
  have ok: "flight_ok f" using flying_ok [OF assms(1)] .
  then have m: "out_ok m" "\<forall>i < blen m. hasByte m i \<longrightarrow> hasSent m i" using assms(2) by (simp_all add: flight_ok_def msg_ok_def)
  define A where "A = {j. j < blen m \<and> hasSent m j}"
  define B where "B = {j. j < blen m \<and> \<not> hasSent m j}"
  have "{..<blen m} = A \<union> B" "A \<inter> B = {}" "finite A" "finite B" by (auto simp: A_def B_def)
  then have "blen m = card A + card B" by (metis card_Un_disjoint card_lessThan)
  then have "sentCount m = int (card A)" using m(1) by (simp add: out_ok_def bytes.missing_def hasSent_def B_def)
  then show ?thesis
    using m ok by (auto simp: A_def out_ok_def bytes.missing_def hasByte_def flight_ok_def maximumRetransmit_def maxFlightRetries_def)
qed

theorem flight_counters_witness:
  "\<exists>f m. newFlight [tiny_message] 0 = Inr f \<and> messages f = [m] \<and> out_remaining m = 1 \<and> sentCount m = 0"
proof -
  obtain f where f: "newFlight [tiny_message] 0 = Inr f" using tiny_flight by blast
  note c = flight_counters [OF flying.start [OF f, of log_send undefined], of "new_outbound tiny_message"]
  have ms: "messages f = [new_outbound tiny_message]" using newFlight_ok(3) [OF f] by simp
  have clear: "\<not> hasByte (new_outbound tiny_message) 0" "\<not> hasSent (new_outbound tiny_message) 0"
    using new_outbound_clear [of 0 tiny_message] by (simp_all add: tiny_message_def)
  have "{j. j < Suc 0 \<and> \<not> hasByte (new_outbound tiny_message) j} = {0}" "{j. j < Suc 0 \<and> hasSent (new_outbound tiny_message) j} = {}"
    using clear by auto
  then have "out_remaining (new_outbound tiny_message) = 1 \<and> sentCount (new_outbound tiny_message) = 0"
    using c ms by (simp add: tiny_message_def)
  then show ?thesis using ms f by blast
qed

text \<open>C12: one call of \<open>transmit\<close> hands at most ten records to the callback, each a fragment of a
  maximal range that is still wanted and fits the capacity; bytes sent before are repeated only when
  nothing new is left; and a call with something new to send makes progress, so that every flight is
  on the wire after finitely many bursts.\<close>

theorem transmit_burst:
  assumes "flying send f s" "\<not> complete f" "1 \<le> capacity" "capacity \<le> 16372"
    and "transmit send now capacity f s = (None, f', s')"
  shows "\<exists>onlyNew L f1. send_steps send now (nat capacity) onlyNew f s L f1 s' \<and> length L \<le> 10 \<and>
    messages f' = messages f1 \<and> fl_sent f' = fl_sent f1 \<and> deadline f' = Some (now + interval f') \<and>
    (if pendingSend f then onlyNew \<and> unsent f' < unsent f \<and> (length L = 10 \<or> \<not> pendingSend f') else unsent f' = 0)"
proof -
  have ok: "flight_ok f" using flying_ok [OF assms(1)] .
  have cap: "capacity \<le> int (maxContent - handshakeHeader)" using assms(4) by (simp add: maxContent_def handshakeHeader_def)
  from transmit_steps [OF assms(5) ok assms(2,3) cap] obtain b L f1 s1 where t:
    "send_steps send now (nat capacity) b f s L f1 s1" "length L \<le> flightBurst" "messages f' = messages f1"
    "fl_sent f' = fl_sent f1" "\<not> b \<longrightarrow> \<not> pendingSend f" "s' = s1" "deadline f' = Some (now + interval f')"
    "b \<longrightarrow> length L = flightBurst \<or> \<not> pendingSend f'" "pendingSend f \<longrightarrow> L \<noteq> []"
    by (metis (no_types, lifting))
  have un: "unsent f' = unsent f1" by (simp add: unsent_def t(3))
  have ok1: "flight_ok f1" "grows (messages f) (messages f1)" using send_steps_ok [OF t(1) ok assms(2)] by simp_all
  have "unsent f1 < unsent f" if "pendingSend f"
    using send_steps_unsent [of send now "nat capacity" f s L f1 s1] t(1,5,9) ok assms(2) that by (cases b; cases L) auto
  moreover have "unsent f1 = 0" if "\<not> pendingSend f"
  proof -
    have "\<forall>i < length (messages f). covered (messages f ! i) 0" using that pendingSend_covered [OF ok] by blast
    then have "\<forall>i < length (messages f1). covered (messages f1 ! i) 0"
      using covered_steps [OF t(1) ok assms(2)] ok1(2) by (simp add: grows_def)
    then show ?thesis using pendingSend_covered [OF ok1(1)] unsent_zero [OF ok1(1)] by blast
  qed
  ultimately show ?thesis using t un by (intro exI [of _ b] exI [of _ L] exI [of _ f1]) (auto simp: flightBurst_def)
qed


theorem transmit_burst_witness:
  "\<exists>f f' s'. newFlight [empty_message] 0 = Inr f \<and> transmit log_send 7 100 f (0, []) = (None, f', s') \<and>
     deadline f' = Some (7 + interval f')"
proof -
  obtain f f' s' where f: "newFlight [empty_message] 0 = Inr f" and t: "transmit log_send 7 100 f (0, []) = (None, f', s')"
    using empty_flight by blast
  from transmit_burst [OF flying.start [OF f] newFlight_ok(2) [OF f] _ _ t] have "deadline f' = Some (7 + interval f')" by auto
  with f t show ?thesis by blast
qed

text \<open>C27: a flight is complete exactly when everything in it has been acknowledged.  An
  acknowledgement credits the fragments whose record numbers it lists (unauthenticated ones only in
  epoch 0, unknown numbers not at all); the flight completes if and only if each byte was credited
  before or is credited now, and each empty message has a credited record.\<close>

theorem acknowledge_complete_iff:
  assumes "flying send f s" "\<not> complete f" "acknowledge f ns auth now = (progress, rtt, f')"
  shows "complete f' \<longleftrightarrow> (\<forall>i < length (messages f).
       (\<forall>j < length (msg_body (out_message (messages f ! i))). hasByte (messages f ! i) j \<or> j \<in> credited f ns auth i) \<and>
       (msg_body (out_message (messages f ! i)) = [] \<longrightarrow> emptyAcknowledged (messages f ! i) \<or> credits f ns auth i \<noteq> {}))"
  using acknowledge_spec(2) [OF assms(3) flying_ok [OF assms(1)] assms(2)] by simp

theorem acknowledge_complete_iff_witness:
  "\<exists>f f' s' p rtt f''. newFlight [empty_message] 0 = Inr f \<and> transmit log_send 7 100 f (0, []) = (None, f', s') \<and>
     acknowledge f' [\<lparr>epoch = 0, sequence = 0\<rparr>] False 9 = (p, rtt, f'') \<and> complete f''"
proof -
  obtain f f' s' where f: "newFlight [empty_message] 0 = Inr f" and t: "transmit log_send 7 100 f (0, []) = (None, f', s')"
    and fs: "fl_sent f' = [(\<lparr>epoch = 0, sequence = 0\<rparr>, \<lparr>sf_message = 0, sf_start = 0, sf_end = 0, sentAt = Some 7\<rparr>)]"
    using empty_flight by blast
  obtain p rtt f'' where a: "acknowledge f' [\<lparr>epoch = 0, sequence = 0\<rparr>] False 9 = (p, rtt, f'')" by (metis prod_cases3)
  have fl: "flying log_send f' s'" by (rule flying.transmit [OF flying.start [OF f] t])
  have cap: "1 \<le> (100 :: int)" "100 \<le> int (maxContent - handshakeHeader)"
    by (simp_all add: maxContent_def handshakeHeader_def)
  from transmit_steps [OF t newFlight_ok(1,2) [OF f] cap] obtain b L f1 s1 where
    st: "send_steps log_send 7 (nat 100) b f (0, []) L f1 s1" "messages f' = messages f1" "complete f' = complete f1"
    by metis
  have "0 < length (messages f)" using newFlight_ok(3) [OF f] by simp
  note fr = send_steps_frame [OF st(1) this]
  have ms: "length (messages f') = 1" "msg_body (out_message (messages f' ! 0)) = []"
    using fr newFlight_ok(3) [OF f] st(2) by (simp_all add: empty_message_def)
  have nc: "\<not> complete f'" using flying_ok [OF fl] fs by (auto simp: flight_ok_def)
  have "complete f''"
    unfolding acknowledge_complete_iff [OF fl nc a] using ms fs by (simp add: credits_def)
  with f t a show ?thesis by blast
qed

text \<open>C30: the timers derived from a round-trip estimate, which is a 64-bit duration.  The retransmission timer
  always lies between 100 ms and one minute, and four acknowledgement delays fit into it.  It is one second
  without an estimate and one and a half round trips within those limits otherwise, as long as that sum is a
  64-bit duration; an estimate above two thirds of that range wraps around and gives the lower limit.\<close>

theorem rtt_timers:
  assumes "rtt < 2 ^ 63"
  shows "100000000 \<le> retransmitTimer rtt \<and> retransmitTimer rtt \<le> 60000000000 \<and>
    4 * ackDelay rtt \<le> retransmitTimer rtt \<and> 0 < ackDelay rtt \<and>
    retransmitTimer rtt =
      (if rtt \<le> 0 then 1000000000
       else if rtt + rtt div 2 < 2 ^ 63 then max 100000000 (min (rtt + rtt div 2) 60000000000)
       else 100000000)"
proof -
  have w: "wrap64 (rtt + rtt div 2) = (if rtt + rtt div 2 < 2 ^ 63 then rtt + rtt div 2 else rtt + rtt div 2 - 2 ^ 64)" if "0 < rtt"
    using wrap64_id [of "rtt + rtt div 2"] wrap64_high [of "rtt + rtt div 2"] assms that by auto
  have "retransmitTimer rtt =
      (if rtt \<le> 0 then 1000000000
       else if rtt + rtt div 2 < 2 ^ 63 then max 100000000 (min (rtt + rtt div 2) 60000000000)
       else 100000000)"
    using w assms
    by (auto simp: retransmitTimer_def clampDuration_def initialRetransmit_def maximumRetransmit_def minRetransmit_def)
  moreover have "4 * (x div 4) \<le> x" for x :: int by presburger
  ultimately show ?thesis by (auto simp: ackDelay_def)
qed

theorem rtt_timers_witness:
  "retransmitTimer 200000000 = 300000000 \<and> retransmitTimer 9000000000000000000 = 100000000"
  using rtt_timers [of 200000000] rtt_timers [of 9000000000000000000] by simp

end
