(* ===== verification/TimerProps.thy ===== *)
theory TimerProps
  imports SessionDemo FlightProps
begin

text \<open>
  The retransmission timers of a session: \<open>expireOutbound\<close> and \<open>retransmitExpired\<close> of \<open>session.go\<close>, which send
  a flight again each time its timer fires.  A flight of which everything has been sent and nothing
  acknowledged is \<open>drained\<close>; sending it again leaves it so, and only an expiry changes its interval and its
  retries.
\<close>

subsection \<open>Sending a flight again\<close>



definition same_flights :: "'h session \<Rightarrow> 'h session \<Rightarrow> bool" where
  "same_flights s s' \<longleftrightarrow> outbound s' = outbound s \<and> post s' = post s"


lemma same_flights_order: "reflp same_flights" "transp same_flights"
  by (simp_all add: reflp_def transp_def same_flights_def)

lemma same_flights_record: "same_flights s (snd (sendRecord ep ty body s))"
  by (rule sendRecord_within [OF same_flights_order])
     (simp_all add: same_flights_def note_write_def transport_send_def Let_def split: prod.split)

lemma same_flights_transmit:
  "transmit (\<lambda>s ep body. sendRecord ep ty body s) now cap f s = (err, f', s') \<Longrightarrow> same_flights s s'"
  using transmit_within [OF same_flights_order, of "\<lambda>s ep body. sendRecord ep ty body s" s now cap f]
  by (simp add: same_flights_record)




lemma get_set_flight [simp]: "get_flight r (set_flight r f s) = Some f"
  by (cases r) (simp_all add: update_conv)


subsection \<open>Expiries\<close>















end
