(* ===== verification/RecordNumbers.thy ===== *)
theory RecordNumbers
  imports SessionDemo "HOL-Library.Sublist"
begin

text \<open>
  No record number is used twice.  The world of a session keeps a ledger of the records it has encoded: the
  number, the keys and the packet of each.  \<open>numbering\<close> says of a session that the numbers of the ledger are
  pairwise different, that every record was encoded below the limit of its keys, that all records of an
  epoch have the keys of that epoch, that the datagrams handed to the transport are packets of the ledger in
  its order, each at most once, and that every number used is \<open>spent\<close>: below the counter of its write epoch, or of an epoch that
  is gone for good.  Every operation of the session keeps it, which is an instance of the driver's
  frame.
\<close>

subsection \<open>The ledger\<close>

text \<open>An entry holds what its packet was encoded from, below the limit of its keys.\<close>

definition well_sealed :: "recordNumber \<times> trafficKeys option \<times> byte list \<Rightarrow> bool" where
  "well_sealed x =
     (case x of (n, k, packet) \<Rightarrow>
        if epoch n = 0 then sequence n < 2 ^ 48 \<and> (\<exists>ty body. encodePlainRecord ty (sequence n) body = Inr packet)
        else k \<noteq> None \<and> sequence n < recordLimit (the k) \<and>
             (\<exists>c ty body pad. encodeRecord (the k) n c ty body pad = Inr packet))"

abbreviation ledger :: "'h session \<Rightarrow> (recordNumber \<times> trafficKeys option \<times> byte list) list" where
  "ledger s \<equiv> sealed (world s)"

abbreviation write_epochs :: "'h session \<Rightarrow> u64 set" where
  "write_epochs s \<equiv> fst ` set (ep_write (epochs s))"

definition writes_ok :: "'h session \<Rightarrow> bool" where
  "writes_ok s \<longleftrightarrow>
     distinct (map fst (ep_write (epochs s))) \<and>
     (\<forall>e\<in>write_epochs s. e = 0 \<or> e = 2 \<and> bit (installed (epochs s)) 2 \<or> 3 \<le> e) \<and>
     ((\<exists>e\<in>write_epochs s. 3 \<le> e) \<longleftrightarrow> bit (installed (epochs s)) 3) \<and>
     (\<forall>e\<in>write_epochs s. \<forall>e'\<in>write_epochs s. 3 \<le> e \<longrightarrow> 3 \<le> e' \<longrightarrow> e = e') \<and>
     (updating (keyUpdate s) \<longrightarrow> (\<forall>e\<in>write_epochs s. e < lastEpoch))"

definition gone :: "'h session \<Rightarrow> u64 \<Rightarrow> bool" where
  "gone s e \<longleftrightarrow>
     e = 0 \<or> e = 2 \<and> bit (installed (epochs s)) 2 \<or>
     3 \<le> e \<and> bit (installed (epochs s)) 3 \<and> (\<forall>e'\<in>write_epochs s. 3 \<le> e' \<longrightarrow> e < e')"

definition spent :: "'h session \<Rightarrow> recordNumber \<Rightarrow> bool" where
  "spent s n =
     (case map_of (ep_write (epochs s)) (epoch n) of
        Some w \<Rightarrow> sequence n < wk_sequence w
      | None \<Rightarrow> gone s (epoch n))"

definition numbered :: "'h session \<Rightarrow> (u64 \<Rightarrow> trafficKeys) \<Rightarrow> bool" where
  "numbered s K \<longleftrightarrow>
     distinct (map fst (ledger s)) \<and> subseq (map snd (tx_log (world s))) (map (snd \<circ> snd) (ledger s)) \<and>
     (\<forall>x\<in>set (ledger s). well_sealed x \<and> spent s (fst x) \<and>
        (epoch (fst x) \<noteq> 0 \<longrightarrow> fst (snd x) = Some (K (epoch (fst x))))) \<and>
     (\<forall>e w. map_of (ep_write (epochs s)) e = Some w \<longrightarrow> e \<noteq> 0 \<longrightarrow> wk_keys w = Some (K e))"

definition numbering :: "'h session \<Rightarrow> bool" where
  "numbering s \<longleftrightarrow> writes_ok s \<and> (\<exists>K. numbered s K)"

definition same_writes :: "'h session \<Rightarrow> 'h session \<Rightarrow> bool" where
  "same_writes s s' \<longleftrightarrow>
     tx_log (world s') = tx_log (world s) \<and> ledger s' = ledger s \<and> ep_write (epochs s') = ep_write (epochs s) \<and>
     installed (epochs s') = installed (epochs s) \<and> updating (keyUpdate s') = updating (keyUpdate s)"

lemma numbering_same:
  assumes "same_writes s s'" shows "numbering s' = numbering s"
proof -
  have "gone s' = gone s" using assms by (simp add: same_writes_def gone_def fun_eq_iff)
  then have "spent s' = spent s" using assms by (auto simp: same_writes_def spent_def fun_eq_iff split: option.split)
  moreover have "writes_ok s' = writes_ok s" using assms by (simp add: same_writes_def writes_ok_def)
  ultimately show ?thesis using assms by (simp add: same_writes_def numbering_def numbered_def)
qed

lemma writes_ok_distinct: "writes_ok s \<Longrightarrow> distinct (map fst (ep_write (epochs s)))"
  by (simp add: writes_ok_def)

text \<open>A write epoch is entered with keys of its own, and no number of it has been used.\<close>

lemma numbered_enter:
  assumes "numbered s K" "\<not> gone s e" "e \<notin> write_epochs s" "wk_keys w = Some k"
    and "world s' = world s" "ep_write (epochs s') = AList.update e w (ep_write (epochs s))"
    and "\<And>x. gone s x \<Longrightarrow> gone s' x"
  shows "numbered s' (K(e := k))"
proof -
  have mo: "map_of (ep_write (epochs s)) e = None" using assms(3) by (simp add: map_of_eq_None_iff)
  have fresh: "epoch (fst x) \<noteq> e" if "x \<in> set (ledger s)" for x
    using assms(1,2) mo that by (auto simp: numbered_def spent_def)
  have "spent s' (fst x)" if "x \<in> set (ledger s)" for x
    using assms(1,7) fresh [OF that] that
    by (auto simp: numbered_def spent_def assms(6) update_conv split: option.splits)
  then show ?thesis using assms(1,4) fresh by (auto simp: numbered_def assms(5,6) update_conv)
qed

text \<open>A write epoch is left only when it is gone.\<close>

lemma numbered_leave:
  assumes "numbered s K" "world s' = world s" "ep_write (epochs s') = AList.delete e (ep_write (epochs s))"
    and "\<And>x. gone s x \<Longrightarrow> gone s' x" "e \<in> write_epochs s \<Longrightarrow> gone s' e"
  shows "numbered s' K"
proof -
  have "spent s' n" if "n \<in> fst ` set (ledger s)" for n
  proof (cases "epoch n = e")
    case True
    then have "map_of (ep_write (epochs s')) (epoch n) = None" by (simp add: assms(3) delete_conv)
    moreover have "gone s' e"
    proof (cases "map_of (ep_write (epochs s)) e")
      case None
      have "spent s n" using assms(1) that by (auto simp: numbered_def)
      then show ?thesis using assms(4) None True by (simp add: spent_def)
    next
      case (Some w)
      show ?thesis by (rule assms(5)) (use map_of_SomeD [OF Some] in force)
    qed
    ultimately show ?thesis using True by (simp add: spent_def)
  next
    case False
    then show ?thesis using assms(1,4) that by (auto simp: numbered_def spent_def assms(3) delete_conv split: option.splits)
  qed
  then show ?thesis using assms(1) by (auto simp: numbered_def assms(2,3) delete_conv split: if_splits)
qed

subsection \<open>Writing a record\<close>

lemma unat_succ_below: "(y :: u64) < b \<Longrightarrow> unat (y + 1) = unat y + 1"
  using unsigned_less [of b, where 'a = nat] by (simp add: word_less_nat_alt unat_word_ariths)

lemma writes_ok_note:
  assumes "writes_ok s" "map_of (ep_write (epochs s)) ep = Some w" "keyUpdate s' = keyUpdate s"
    and "epochs s' = (epochs s)\<lparr>ep_write := AList.update ep w' (ep_write (epochs s))\<rparr>"
  shows "writes_ok s'" "gone s' = gone s"
proof -
  have "ep \<in> write_epochs s" using map_of_SomeD [OF assms(2)] by force
  then have "write_epochs s' = write_epochs s" using assms(4) by (auto simp: dom_update)
  then show "writes_ok s'" "gone s' = gone s"
    using assms by (auto simp: writes_ok_def distinct_update gone_def)
qed

lemma spent_note:
  assumes "writes_ok s" "map_of (ep_write (epochs s)) ep = Some w" "wk_sequence w < b" "keyUpdate s' = keyUpdate s"
    and "epochs s' = (epochs s)\<lparr>ep_write := AList.update ep (w\<lparr>wk_sequence := wk_sequence w + 1\<rparr>) (ep_write (epochs s))\<rparr>"
  shows "spent s' n \<longleftrightarrow> spent s n \<or> n = \<lparr>epoch = ep, sequence = wk_sequence w\<rparr>"
proof -
  have "x < wk_sequence w + 1 \<longleftrightarrow> x < wk_sequence w \<or> x = wk_sequence w" for x
    using unat_succ_below [OF assms(3)] by (auto simp: word_less_nat_alt less_Suc_eq simp: word_unat_eq_iff)
  then show ?thesis
    using assms(2) writes_ok_note(2) [OF assms(1,2,4,5)]
    by (cases n) (auto simp: spent_def assms(5) update_conv split: option.splits)
qed

lemma numbering_sendRecordLimited:
  assumes "hands_over send" "numbering s"
  shows "numbering (snd (sendRecordLimited ep ty body c pad lim send s))"
proof (cases rule: sendRecordLimited_cases [of ep ty body c pad lim send s])
  case (refused e)
  then show ?thesis using assms(2) by simp
next
  case (sent w packet)
  define u where "u = note_write ep w packet s"
  define s' where "s' = snd (send packet u)"
  define n where "n = \<lparr>epoch = ep, sequence = wk_sequence w\<rparr>"
  obtain K where ok: "writes_ok s" and nu: "numbered s K" using assms(2) by (auto simp: numbering_def)
  have st: "snd (sendRecordLimited ep ty body c pad lim send s) = s'"
    unfolding sent(5) s'_def u_def by (simp add: andthen_ok_state)
  have e: "epochs s' = (epochs s)\<lparr>ep_write := AList.update ep (w\<lparr>wk_sequence := wk_sequence w + 1\<rparr>) (ep_write (epochs s))\<rparr>"
      "keyUpdate s' = keyUpdate s" "ledger s' = (n, wk_keys w, packet) # ledger s"
    and log: "tx_log (world s') = tx_log (world s) \<or> (\<exists>d. tx_log (world s') = (d, packet) # tx_log (world s))"
    using hands_over_keeps [OF assms(1), of packet u] hands_over_log [OF assms(1), of packet u]
    by (simp_all add: s'_def u_def note_write_def n_def)
  obtain b where b: "wk_sequence w < b" using sent(2) by (cases "ep = 0") auto
  note sp = spent_note [OF ok sent(1) b e(2,1)]
  have k: "ep \<noteq> 0 \<Longrightarrow> wk_keys w = Some (K ep)" using nu sent(1) by (simp add: numbered_def)
  have "\<not> spent s n" using sent(1) by (simp add: spent_def n_def)
  then have "n \<notin> fst ` set (ledger s)" using nu by (auto simp: numbered_def)
  moreover have "well_sealed (n, wk_keys w, packet)"
    using sent(2,3) k by (auto simp: well_sealed_def n_def split: if_splits)
  moreover have "subseq (map snd (tx_log (world s'))) (packet # map (snd \<circ> snd) (ledger s))"
    using log nu by (auto simp: numbered_def)
  moreover have "\<forall>e w'. map_of (ep_write (epochs s')) e = Some w' \<longrightarrow> e \<noteq> 0 \<longrightarrow> wk_keys w' = Some (K e)"
    using nu k by (auto simp: numbered_def e(1) update_conv)
  ultimately have "numbered s' K" using nu k sp by (auto simp: numbered_def e(3) n_def)
  then show ?thesis unfolding st numbering_def using writes_ok_note(1) [OF ok sent(1) e(2,1)] by blast
qed

subsection \<open>Entering and leaving epochs\<close>

lemma writes_okD:
  assumes "writes_ok s"
  shows "e \<in> write_epochs s \<Longrightarrow> e = 0 \<or> e = 2 \<and> bit (installed (epochs s)) 2 \<or> 3 \<le> e"
    and "(\<exists>e\<in>write_epochs s. 3 \<le> e) \<longleftrightarrow> bit (installed (epochs s)) 3"
    and "e \<in> write_epochs s \<Longrightarrow> e' \<in> write_epochs s \<Longrightarrow> 3 \<le> e \<Longrightarrow> 3 \<le> e' \<Longrightarrow> e = e'"
    and "updating (keyUpdate s) \<Longrightarrow> e \<in> write_epochs s \<Longrightarrow> e < lastEpoch"
  using assms unfolding writes_ok_def by blast+

lemma writes_ok_enter:
  assumes ok: "writes_ok s" and e: "e = 2 \<and> b3' = bit (installed (epochs s)) 3 \<or> e = 3 \<and> \<not> bit (installed (epochs s)) 3 \<and> b3'"
    and W: "write_epochs s' = insert e (write_epochs s)" and "distinct (map fst (ep_write (epochs s')))"
    and b: "bit (installed (epochs s')) 2 \<longleftrightarrow> bit (installed (epochs s)) 2 \<or> e = 2" "bit (installed (epochs s')) 3 = b3'"
    and u: "updating (keyUpdate s') \<Longrightarrow> updating (keyUpdate s)"
  shows "writes_ok s'"
proof -
  define V where "V = write_epochs s"
  note d = writes_okD [OF ok, folded V_def]
  have 1: "x = 0 \<or> x = 2 \<and> (bit (installed (epochs s)) 2 \<or> e = 2) \<or> 3 \<le> x" if "x \<in> insert e V" for x
    using d(1) e that by auto
  have 2: "(\<exists>x\<in>insert e V. 3 \<le> x) = b3'" using d(2) e by auto
  have 3: "x = y" if "x \<in> insert e V" "y \<in> insert e V" "3 \<le> x" "3 \<le> y" for x y
    using d(2) d(3) [of x y] e that by auto
  have 4: "x < lastEpoch" if "x \<in> insert e V" "updating (keyUpdate s)" for x
    using d(4) [of x] e that by (auto simp: lastEpoch_def)
  show ?thesis
    unfolding writes_ok_def W b V_def [symmetric] using assms(4) u 1 2 3 4 by blast
qed

lemma numbering_install:
  assumes "e \<in> {2, 3}" "numbering s"
  shows "numbering (snd (install_pair e c sv s))"
proof (cases "snd (install_pair e c sv s) = s")
  case False
  define s' where "s' = snd (install_pair e c sv s)"
  have inst: "\<not> bit (installed (epochs s)) (unat e)"
  proof
    assume "bit (installed (epochs s)) (unat e)"
    then have "snd (install_pair e c sv s) = s" by (simp add: install_pair_def bit_iff_and_push_bit_not_eq_0)
    with False show False ..
  qed
  obtain w k where w: "ep_write (epochs s') = AList.update e w (ep_write (epochs s))"
      "installed (epochs s') = installed (epochs s) OR push_bit (unat e) 1" "world s' = world s" "keyUpdate s' = keyUpdate s" "wk_keys w = Some k"
    using False unfolding s'_def install_pair_def Let_def by (simp split: if_splits sum.splits)
  have bits: "bit (installed (epochs s')) 2 \<longleftrightarrow> bit (installed (epochs s)) 2 \<or> e = 2"
      "bit (installed (epochs s')) 3 \<longleftrightarrow> bit (installed (epochs s)) 3 \<or> e = 3"
    using assms(1) by (auto simp: w(2) bit_simps)
  have W: "write_epochs s' = insert e (write_epochs s)" by (auto simp: w(1) dom_update)
  obtain K where ok: "writes_ok s" and nu: "numbered s K" using assms(2) by (auto simp: numbering_def)
  have e: "e = 2 \<and> \<not> bit (installed (epochs s)) 2 \<or> e = 3 \<and> \<not> bit (installed (epochs s)) 3" using assms(1) inst by auto
  then have "\<not> gone s e" by (auto simp: gone_def)
  moreover have "e \<notin> write_epochs s"
  proof
    assume a: "e \<in> write_epochs s"
    from e show False
    proof
      assume "e = 2 \<and> \<not> bit (installed (epochs s)) 2"
      then show False using writes_okD(1) [OF ok a] by simp
    next
      assume "e = 3 \<and> \<not> bit (installed (epochs s)) 3"
      then show False using writes_okD(2) [OF ok] a by blast
    qed
  qed
  moreover have "gone s' x" if "gone s x" for x
  proof -
    have "\<not> (3 :: u64) \<le> 2" by simp
    then show ?thesis using that e unfolding gone_def bits W by (elim disjE) auto
  qed
  ultimately have "numbered s' (K(e := k))"
    using numbered_enter [OF nu] w by blast
  moreover have "writes_ok s'"
    by (rule writes_ok_enter [OF ok _ W _ bits(1) bits(2)])
       (use e ok w in \<open>auto simp: distinct_update writes_ok_distinct\<close>)
  ultimately show ?thesis by (auto simp: numbering_def s'_def)
qed (use assms in simp)

lemma fst_set_delete: "fst ` set (AList.delete e al) = fst ` set al - {e}"
  by (auto simp: AList.delete_eq)

lemma numbering_leave:
  assumes "numbering s" "e = 0 \<or> e = 2" "world s' = world s" "ep_write (epochs s') = AList.delete e (ep_write (epochs s))"
    "installed (epochs s') = installed (epochs s)" "keyUpdate s' = keyUpdate s"
  shows "numbering s'"
proof -
  obtain K where ok: "writes_ok s" and nu: "numbered s K" using assms(1) by (auto simp: numbering_def)
  define V where "V = write_epochs s"
  note d = writes_okD [OF ok, folded V_def]
  have W: "write_epochs s' = V - {e}" by (simp add: assms(4) V_def fst_set_delete)
  have big: "\<not> (3 :: u64) \<le> e" using assms(2) by auto
  have ex: "(\<exists>x\<in>V - {e}. 3 \<le> x) = (\<exists>x\<in>V. 3 \<le> x)" using big by blast
  have "distinct (map fst (ep_write (epochs s')))"
    using writes_ok_distinct [OF ok] unfolding assms(4) by (rule distinct_delete)
  then have "writes_ok s'" unfolding writes_ok_def W assms(5,6) ex using d by blast
  moreover have "numbered s' K"
  proof (rule numbered_leave [OF nu assms(3,4)])
    show "gone s' x" if "gone s x" for x using that unfolding gone_def W assms(5) V_def by blast
    show "gone s' e" if "e \<in> write_epochs s"
      using d(1) [of e] that assms(2) unfolding gone_def assms(5) V_def by auto
  qed
  ultimately show ?thesis by (auto simp: numbering_def)
qed

lemma numbering_retire: "numbering s \<Longrightarrow> numbering (retire_handshake now s)"
proof -
  assume n: "numbering s"
  define u where "u = s\<lparr>epochs := (epochs s)\<lparr>ep_write := AList.delete 0 (ep_write (epochs s))\<rparr>\<rparr>"
  define v where "v = u\<lparr>epochs := (epochs u)\<lparr>ep_write := AList.delete 2 (ep_write (epochs u))\<rparr>\<rparr>"
  have "numbering u" by (rule numbering_leave [OF n, of 0]) (simp_all add: u_def)
  then have "numbering v" by (rule numbering_leave [of _ 2]) (simp_all add: v_def)
  then show ?thesis
    by (subst numbering_same [of v]) (auto simp: same_writes_def retire_handshake_def discardHandshakeRead_def v_def u_def Let_def)
qed

lemma currentWriteEpoch_max: "e \<in> write_epochs s \<Longrightarrow> e \<le> currentWriteEpoch s"
proof -
  have "a \<le> foldl max a xs \<and> (\<forall>e\<in>set xs. e \<le> foldl max a xs)" for a :: u64 and xs
    by (induction xs arbitrary: a) (auto intro: order_trans [OF max.cobounded1] order_trans [OF max.cobounded2])
  then show "e \<in> write_epochs s \<Longrightarrow> e \<le> currentWriteEpoch s" by (auto simp: currentWriteEpoch_def)
qed

lemma numbering_switch:
  assumes "numbering s" "retired_writes s" "updating (keyUpdate s)"
  shows "numbering (snd (switch_epoch s))"
proof (cases "snd (switch_epoch s) = s")
  case False
  define ep where "ep = currentWriteEpoch s"
  obtain w where w: "map_of (ep_write (epochs s)) ep = Some w"
    using False unfolding switch_epoch_def Let_def ep_def by (cases "map_of (ep_write (epochs s)) (currentWriteEpoch s)") auto
  obtain secret keys where k: "updatedKeys s (wk_secret w) = Inr (secret, keys)"
    using False w unfolding switch_epoch_def Let_def ep_def [symmetric] by (cases "updatedKeys s (wk_secret w)") auto
  define w' where "w' = \<lparr>wk_keys = Some keys, wk_secret = secret, wk_sequence = 0\<rparr>"
  define u where "u = s\<lparr>epochs := (epochs s)\<lparr>ep_write := AList.update (ep + 1) w' (ep_write (epochs s))\<rparr>\<rparr>"
  define s' where "s' = snd (switch_epoch s)"
  have s': "world s' = world u" "ep_write (epochs s') = AList.delete ep (ep_write (epochs u))"
      "installed (epochs s') = installed (epochs s)" "\<not> updating (keyUpdate s')"
    using w k by (simp_all add: s'_def switch_epoch_def Let_def ep_def [symmetric] u_def w'_def)
  obtain K where ok: "writes_ok s" and nu: "numbered s K" using assms(1) by (auto simp: numbering_def)
  define V where "V = write_epochs s"
  note d = writes_okD [OF ok, folded V_def]
  have ep: "ep \<in> V" using map_of_SomeD [OF w] unfolding V_def by force
  have ep3: "3 \<le> ep" using d(1) [OF ep] assms(2) ep by (auto simp: retired_writes_def V_def)
  have "ep < lastEpoch" using d(4) [OF assms(3) ep] .
  then have "unat (ep + 1) = unat ep + 1" by (rule unat_succ_below)
  then have up: "ep < ep + 1" "3 \<le> ep + 1" using ep3 by (auto simp: word_less_nat_alt word_le_nat_alt)
  have b3: "bit (installed (epochs s)) 3" using d(2) ep ep3 by blast
  have V: "V = {ep}"
  proof -
    have "x = ep" if x: "x \<in> V" for x
    proof -
      have "x \<noteq> 0" "x \<noteq> 2" using x assms(2) by (auto simp: retired_writes_def V_def)
      then show ?thesis using d(1) [OF x] d(3) [OF x ep _ ep3] by blast
    qed
    then show ?thesis using ep by blast
  qed
  have Wu: "write_epochs u = {ep, ep + 1}" using V by (auto simp: u_def dom_update V_def)
  have Ws: "write_epochs s' = {ep + 1}" using up by (auto simp: s'(2) fst_set_delete Wu)
  have "\<not> gone s (ep + 1)" "ep + 1 \<notin> write_epochs s"
    using V up ep3 ep by (auto simp: gone_def V_def [symmetric])
  moreover have "gone u x" if "gone s x" for x
    using that V up ep3 unfolding gone_def Wu V_def [symmetric] by (auto simp: u_def)
  ultimately have "numbered u (K(ep + 1 := keys))"
    using numbered_enter [OF nu, of "ep + 1" w' keys u] by (simp add: u_def w'_def)
  then have "numbered s' (K(ep + 1 := keys))"
  proof (rule numbered_leave [OF _ s'(1,2)])
    have iu: "installed (epochs u) = installed (epochs s)" by (simp add: u_def)
    show "gone s' x" if "gone u x" for x using that unfolding gone_def Wu Ws s'(3) iu by blast
    show "gone s' ep" unfolding gone_def Ws s'(3) using up(1) ep3 b3 by simp
  qed
  moreover have "writes_ok s'"
    using up b3 writes_ok_distinct [OF ok] unfolding writes_ok_def Ws
    by (simp add: s' u_def distinct_update distinct_delete)
  ultimately show ?thesis by (auto simp: numbering_def s'_def)
qed (use assms in simp)

subsection \<open>Every operation keeps the numbering\<close>

definition numbers_kept :: "bool \<Rightarrow> 'h session \<Rightarrow> 'h session \<Rightarrow> bool" where
  "numbers_kept low s s' \<longleftrightarrow>
     (numbering s \<and> (low \<longrightarrow> (\<forall>e\<in>write_epochs s. e < lastEpoch)) \<longrightarrow>
      numbering s' \<and> (low \<longrightarrow> (\<forall>e\<in>write_epochs s'. e < lastEpoch)))"

lemma numbers_kept_same: "same_writes s s' \<Longrightarrow> numbers_kept low s s'"
  using numbering_same [of s s'] by (simp add: numbers_kept_def same_writes_def)

lemma numbers_kept_sendRecordLimited:
  assumes "hands_over send"
  shows "numbers_kept low s (snd (sendRecordLimited ep ty body c pad lim send s))"
proof -
  have "write_epochs (snd (sendRecordLimited ep ty body c pad lim send s)) = write_epochs s"
  proof (rule sendRecordLimited_within [where R = "\<lambda>s s'. write_epochs s' = write_epochs s"])
    show "write_epochs (note_write ep w packet s) = write_epochs s" if "map_of (ep_write (epochs s)) ep = Some w" for w packet
      using map_of_SomeD [OF that] by (force simp: note_write_def dom_update)
    show "write_epochs (snd (send p u)) = write_epochs u" for p u
      using hands_over_keeps [OF assms] by simp
  qed (simp_all add: reflp_def transp_def)
  then show ?thesis using numbering_sendRecordLimited [OF assms] by (auto simp: numbers_kept_def)
qed

lemma numbers_kept_install:
  assumes "e \<in> {2, 3}" shows "numbers_kept low s (snd (install_pair e c sv s))"
proof -
  have "write_epochs (snd (install_pair e c sv s)) \<subseteq> insert e (write_epochs s)"
    unfolding install_pair_def Let_def by (simp add: dom_update subset_insertI split: sum.split prod.split)
  moreover have "e < lastEpoch" using assms by (auto simp: lastEpoch_def)
  ultimately show ?thesis using numbering_install [OF assms, of s c sv] unfolding numbers_kept_def by blast
qed

interpretation num: start_frame "numbers_kept low" for low
proof unfold_locales
  show "numbers_kept low s (snd (sendRecord ep ty body s))" for s :: "'h session" and ep ty body
    unfolding sendRecord_def sendRecordWith_def by (rule numbers_kept_sendRecordLimited [OF hands_over_transport])
  show "numbers_kept low s (snd (install_pair e c sv s))" if "e \<in> {2, 3}" for s :: "'h session" and e c sv
    using that by (rule numbers_kept_install)
  show "numbers_kept low s u" if "numbers_kept low s t" "numbers_kept low t u" for s t u :: "'h session"
    using that unfolding numbers_kept_def by blast
qed (rule numbers_kept_same, simp add: same_writes_def reduceHandshakeMTU_def Let_def)+

lemma numbering_updating:
  assumes "numbering s" "\<forall>e\<in>write_epochs s. e < lastEpoch"
  shows "numbering (s\<lparr>keyUpdate := k\<rparr>)"
proof -
  define s' where "s' = s\<lparr>keyUpdate := k\<rparr>"
  have "gone s' = gone s" by (simp add: s'_def gone_def fun_eq_iff)
  then have "spent s' = spent s" by (auto simp: s'_def spent_def fun_eq_iff split: option.split)
  then have "numbered s' = numbered s" by (simp add: s'_def numbered_def fun_eq_iff)
  moreover have "writes_ok s'" using assms unfolding s'_def numbering_def writes_ok_def by simp
  ultimately show ?thesis using assms(1) by (simp add: numbering_def s'_def)
qed

lemma numbers_kept_begin_update: "numbers_kept False s (snd (begin_update now s))"
proof (cases "\<not> localPending (keyUpdate s) \<or> lastEpoch \<le> currentWriteEpoch s")
  case True
  then show ?thesis by (auto simp: begin_update_def num.R_refl)
next
  case False
  have low: "\<forall>e\<in>write_epochs s. e < lastEpoch" using False currentWriteEpoch_max le_less_trans not_le by metis
  define req :: byte where "req = (if requestPeer (keyUpdate s) \<and> \<not> awaitingPeer (keyUpdate s) then 1 else 0)"
  obtain r s1 where st: "startPost msgKeyUpdate [req] now s = (r, s1)" by fastforce
  have kept: "numbering s1 \<and> (\<forall>e\<in>write_epochs s1. e < lastEpoch)" if "numbering s"
    using num.R_startPost [of True s msgKeyUpdate "[req]" now] that low unfolding numbers_kept_def st by simp
  have "snd (begin_update now s) = s1 \<or> (\<exists>k. snd (begin_update now s) = s1\<lparr>keyUpdate := k\<rparr>)"
    using False unfolding begin_update_def Let_def req_def [symmetric] st by auto
  then show ?thesis
    using kept numbering_updating unfolding numbers_kept_def by auto
qed

lemma numbers_kept_rotate: "retired_writes s \<Longrightarrow> numbers_kept False s (snd (rotate_keys now s))"
  unfolding rotate_keys_def
proof (rule num.R_andthen_at)
  assume "retired_writes s"
  then show "numbers_kept False s (snd (if updating (keyUpdate s) then switch_epoch s else (Inr (), s)))"
    using numbering_switch [of s] by (simp add: numbers_kept_def)
  show "numbers_kept False u (snd (begin_update now (u\<lparr>post := ps\<rparr>)))" for u :: "'a session" and ps
    by (rule num.R_trans [OF num.R_post numbers_kept_begin_update])
qed

interpretation num: full_frame "numbers_kept False"
proof unfold_locales
  fix s :: "'h session"
  show "numbers_kept False s (retire_handshake now s)" for now
    using numbering_retire [of s] by (simp add: numbers_kept_def)
  show "numbers_kept False s (snd (rotate_keys now s))" if "retired_writes s" for now
    using that by (rule numbers_kept_rotate)
  show "numbers_kept False s (snd (sendRecordLimited ep ty body c pad (mtuCeiling s) (exact_send sz) s))" for ep ty body c pad sz
    by (rule numbers_kept_sendRecordLimited [OF hands_over_exact])
  show "numbers_kept False s (snd (sendRecordWith ep contentRRC body c (send_limited d n) s))" for ep body c d n
    unfolding sendRecordWith_def by (rule numbers_kept_sendRecordLimited [OF hands_over_limited])
  show "numbers_kept False s (snd (call_setLocal ids s))" for ids
    by (rule numbers_kept_same) (auto simp: same_writes_def call_setLocal_def Let_def split: prod.split option.split)
  show "numbers_kept False s (snd (run_handler m s))" for m
    by (rule numbers_kept_same) (simp add: same_writes_def run_handler_def case_prod_unfold Let_def split: option.split)
qed (rule numbers_kept_same, simp add: same_writes_def set_probe_def rand_Read_def discardHandshakeRead_def next_read_epoch_def
      reduceHandshakeMTU_def setWorkingMTU_def move_peer_def restartMTUConfirm_def Let_def)+

interpretation num: run_frame "numbers_kept False"
proof unfold_locales
  show "numbers_kept False s (snd (sendRecordWith ep contentAlert body c (transport_send (Some (peer (path_of s)))) s))"
    for s :: "'h session" and ep body c
    unfolding sendRecordWith_def by (rule numbers_kept_sendRecordLimited [OF hands_over_transport])
qed (rule numbers_kept_same, simp add: same_writes_def)+






end
