(* ===== verification/RecordLemmas.thy ===== *)
theory RecordLemmas
  imports DtlsRecord
begin

unbundle bit_operations_syntax

text \<open>
  Lemmas on the record layer: the byte loops read big-endian numbers, a truncated sequence number
  is reconstructed exactly within half a window of the expected one, the replay window is a
  refinement of the set of accepted numbers, and the locale \<open>replay_filter\<close> derives from that
  contract that no number is delivered twice; it is interpreted on the window and on
  \<open>decodeRecord\<close>.  The round-trip lemmas of plain and protected records close the theory.
\<close>

subsection \<open>Sequence numbers\<close>

lemma bit_ucast_byte_high: "8 \<le> n \<Longrightarrow> \<not> bit (ucast (b :: byte) :: u64) n"
  by (auto simp: bit_ucast_iff dest: bit_imp_le_length)

lemma shift_step: "push_bit 8 s OR ucast (b :: byte) = (s :: u64) * 256 + ucast b"
proof -
  have "push_bit 8 s + ucast b = push_bit 8 s OR ucast b"
    by (rule disjunctive_add) (metis bit_push_bit_iff bit_ucast_byte_high)
  moreover have "push_bit 8 s = s * 256" by (simp add: push_bit_eq_mult)
  ultimately show ?thesis by simp
qed

lemma shift_in_be_dec [simp]: "shift_in 0 bs = of_nat (be_dec bs)"
proof (induction bs rule: rev_induct)
  case Nil
  then show ?case by (simp add: shift_in_def)
next
  case (snoc b bs)
  have "shift_in 0 (bs @ [b]) = shift_in 0 bs * 256 + ucast b"
    by (simp add: shift_in_def shift_step)
  with snoc show ?case by (simp add: be_dec_snoc)
qed

lemma take_bit_word_self: "unat (t :: u64) < 2 ^ n \<Longrightarrow> take_bit n t = t"
  by (simp add: word_unat_eq_iff unsigned_take_bit_eq take_bit_nat_eq_self)

lemma unat_candidate:
  fixes e t :: u64
  assumes "n < 64" "unat t < 2 ^ n"
  shows "unat ((e AND NOT (push_bit n 1 - 1)) OR t) = unat e div 2 ^ n * 2 ^ n + unat t"
proof -
  have m: "push_bit n 1 - 1 = (mask n :: u64)" by (simp add: mask_eq_exp_minus_1 push_bit_eq_mult)
  have hi: "e AND NOT (mask n) = e - take_bit n e"
  proof -
    have "e - take_bit n e = e AND NOT (take_bit n e)"
      by (rule disjunctive_diff) (simp add: bit_take_bit_iff)
    also have "\<dots> = e AND NOT (mask n)"
      by (rule bit_word_eqI) (auto simp: bit_and_iff bit_not_iff bit_take_bit_iff bit_mask_iff)
    finally show ?thesis by simp
  qed
  have le: "take_bit n e \<le> e"
    by (simp add: word_le_nat_alt unsigned_take_bit_eq)
  have uhi: "unat (e AND NOT (mask n)) = unat e div 2 ^ n * 2 ^ n"
    unfolding hi unat_sub [OF le] unsigned_take_bit_eq take_bit_nat_def
    by (simp add: minus_mod_eq_div_mult)
  have or: "(e AND NOT (mask n)) OR t = (e AND NOT (mask n)) + t"
  proof -
    have "\<not> bit t i" if "n \<le> i" for i
      using that bit_take_bit_iff [of n t i] take_bit_word_self [OF assms(2)] by simp
    then have "(e AND NOT (mask n)) + t = (e AND NOT (mask n)) OR t"
      by (intro disjunctive_add) (auto simp: bit_and_iff bit_not_iff bit_mask_iff not_less)
    then show ?thesis by simp
  qed
  have "unat e div 2 ^ n * 2 ^ n + unat t < 2 ^ 64"
  proof -
    have "unat e div 2 ^ n < 2 ^ (64 - n)"
      using unsigned_less [of e, where ?'a = nat] assms(1)
      by (intro less_mult_imp_div_less) (simp flip: power_add)
    then have "(unat e div 2 ^ n + 1) * 2 ^ n \<le> 2 ^ (64 - n) * 2 ^ n"
      by (intro mult_right_mono) auto
    also have "\<dots> = (2::nat) ^ 64" using assms(1) by (simp flip: power_add)
    finally show ?thesis using assms(2) by (simp add: algebra_simps)
  qed
  then have "unat ((e AND NOT (mask n)) + t) = unat e div 2 ^ n * 2 ^ n + unat t"
    using unat_add_lem [of "e AND NOT (mask n)" t] uhi by simp
  then show ?thesis unfolding m or .
qed

lemma close_quotients:
  fixes S E W :: nat
  assumes "0 < W" "even W" "S \<le> E + W div 2" "E < S + W div 2"
  defines "C \<equiv> E div W * W + S mod W"
  obtains "S = C" | "S = C + W" "C \<le> E" "W div 2 \<le> E - C" | "C = S + W" "E < C" "W div 2 < C - E"
proof -
  obtain h where h: "W = h + h" "0 < h" using assms(1,2) by (metis evenE gr0I mult_2 add_is_0)
  have hd: "W div 2 = h" using h by simp
  have S: "S = S div W * W + S mod W" and E: "E = E div W * W + E mod W" by simp_all
  have lt: "S mod W < W" "E mod W < W" using assms(1) by simp_all
  consider "S div W = E div W" | "S div W = E div W + 1" | "E div W = S div W + 1"
  proof -
    have "\<not> E div W + 2 \<le> S div W"
    proof
      assume "E div W + 2 \<le> S div W"
      then have "E div W * W + 2 * W \<le> S div W * W"
        by (metis add_mult_distrib mult_le_mono1)
      then show False using S E lt assms(3) hd h by linarith
    qed
    moreover have "\<not> S div W + 2 \<le> E div W"
    proof
      assume "S div W + 2 \<le> E div W"
      then have "S div W * W + 2 * W \<le> E div W * W"
        by (metis add_mult_distrib mult_le_mono1)
      then show False using S E lt assms(4) hd h by linarith
    qed
    ultimately show thesis using that by linarith
  qed
  then show thesis
  proof cases
    case 1
    then show thesis using that(1) S by (simp add: C_def)
  next
    case 2
    then have "S = C + W" using S by (simp add: C_def algebra_simps)
    then show thesis using that(2) assms(3) hd h by simp
  next
    case 3
    then have "C = S + W" using S by (simp add: C_def algebra_simps)
    then show thesis using that(3) assms(4) hd h by simp
  qed
qed

lemma reconstructSequence_close:
  fixes s e :: u64
  assumes sz: "0 < sz" "sz < 8"
    and "unat s \<le> unat e + 2 ^ (8 * sz) div 2" "unat e < unat s + 2 ^ (8 * sz) div 2"
  shows "reconstructSequence (take_bit (8 * sz) s) sz e = s"
proof -
  define n where "n = 8 * sz"
  define W :: nat where "W = 2 ^ n"
  have n: "n < 64" "0 < n" using sz by (auto simp: n_def)
  define cand where "cand = (e AND NOT (push_bit n 1 - 1)) OR take_bit n s"
  have ut: "unat (take_bit n s) = unat s mod W" by (simp add: unsigned_take_bit_eq take_bit_nat_def W_def)
  then have C: "unat cand = unat e div W * W + unat s mod W"
    using unat_candidate [OF n(1), of "take_bit n s" e] by (simp add: cand_def W_def)
  have W: "W < 2 ^ 64" "0 < W" "even W"
    using n power_strict_increasing [of n 64 "2 :: nat"] by (simp_all add: W_def)
  define wn :: u64 where "wn = push_bit n 1"
  have win: "unat wn = W"
    using W(1) n(1) unfolding wn_def unsigned_push_bit_eq by (simp add: take_bit_nat_eq_self push_bit_eq_mult W_def)
  have half: "unat (wn div 2) = W div 2" unfolding unat_div win by simp
  have top: "unat (- 1 - wn) = 2 ^ 64 - 1 - W"
    using W(1) by (simp add: unat_sub_if' win unsigned_minus_1_eq_mask mask_eq_exp_minus_1)
  have def': "reconstructSequence (take_bit (8 * sz) s) sz e =
      (if cand \<le> e \<and> wn div 2 \<le> e - cand \<and> cand \<le> - 1 - wn
       then cand + wn
       else if e < cand \<and> wn div 2 < cand - e \<and> wn \<le> cand
       then cand - wn else cand)"
    by (simp only: reconstructSequence_def Let_def cand_def n_def wn_def)
  have s_lt: "unat s < 2 ^ 64" using unsigned_less [of s, where ?'a = nat] by simp
  from assms(3,4) have "unat s \<le> unat e + W div 2" "unat e < unat s + W div 2"
    by (simp_all add: W_def n_def)
  from close_quotients [OF W(2,3) this] consider
      "unat s = unat cand"
    | "unat s = unat cand + W" "unat cand \<le> unat e" "W div 2 \<le> unat e - unat cand"
    | "unat cand = unat s + W" "unat e < unat cand" "W div 2 < unat cand - unat e"
    unfolding C by metis
  then show ?thesis
  proof cases
    case 1
    then have "cand = s" by (simp add: word_unat_eq_iff)
    moreover have "\<not> (s \<le> e \<and> wn div 2 \<le> e - s)"
      using assms(4) by (auto simp: word_le_nat_alt half unat_sub W_def n_def)
    moreover have "\<not> (e < s \<and> wn div 2 < s - e)"
      using assms(3) by (auto simp: word_less_nat_alt word_le_nat_alt half unat_sub W_def n_def)
    ultimately show ?thesis unfolding def' by auto
  next
    case 2
    have ge: "cand \<le> e" using 2 by (simp add: word_le_nat_alt)
    have "wn div 2 \<le> e - cand" "cand \<le> - 1 - wn"
      using 2 s_lt by (simp_all add: word_le_nat_alt half unat_sub [OF ge] top)
    moreover have "cand + wn = s"
      using 2 s_lt unat_add_lem [of cand wn] by (simp add: word_unat_eq_iff win)
    ultimately show ?thesis unfolding def' using ge by simp
  next
    case 3
    have lt: "e < cand" "wn \<le> cand" using 3 by (simp_all add: word_less_nat_alt word_le_nat_alt win)
    have "wn div 2 < cand - e"
      using 3 by (simp add: word_less_nat_alt half unat_sub [OF order_less_imp_le [OF lt(1)]])
    moreover have "cand - wn = s"
      using 3 by (simp add: word_unat_eq_iff unat_sub [OF lt(2)] win)
    ultimately show ?thesis unfolding def' using lt by auto
  qed
qed

subsection \<open>The replay window\<close>

text \<open>\<open>remembers w H\<close>: the window \<open>w\<close> describes the set \<open>H\<close> of numbers accepted so far.\<close>

definition remembers :: "replayWindow \<Rightarrow> u64 set \<Rightarrow> bool" where
  "remembers w H \<longleftrightarrow>
     (if bits w = 0 then H = {}
      else highest w \<in> H \<and> (\<forall>x \<in> H. x \<le> highest w) \<and>
           (\<forall>d < 64. bit (bits w) d \<longleftrightarrow> d \<le> unat (highest w) \<and> highest w - of_nat d \<in> H))"

text \<open>What the window should answer, over the set: a number is accepted when it is new and not
  more than 63 below the highest accepted one.\<close>

definition fresh_in :: "u64 set \<Rightarrow> u64 \<Rightarrow> bool" where
  "fresh_in H s \<longleftrightarrow> s \<notin> H \<and> (\<forall>x \<in> H. unat x < unat s + 64)"

lemma remembers_empty: "remembers w {} \<longleftrightarrow> bits w = 0"
  by (auto simp: remembers_def)

lemma bit_and_one_bit: "n < 64 \<Longrightarrow> x AND push_bit n 1 \<noteq> 0 \<longleftrightarrow> bit (x :: u64) n"
  by (simp add: and_exp_eq_0_iff_not_bit)

lemma unat_word_diff: "d \<le> unat (h :: u64) \<Longrightarrow> unat (h - of_nat d) = unat h - d"
  using unsigned_less [of h, where ?'a = nat]
  by (simp add: unat_sub_if' unat_of_nat take_bit_nat_eq_self)

lemma word_diff_eq: "d \<le> unat (h :: u64) \<Longrightarrow> h - of_nat d = x \<longleftrightarrow> x \<le> h \<and> unat h - unat x = d"
  using unat_word_diff [of d h] by (auto simp: word_unat_eq_iff word_le_nat_alt)

lemma rw_accept_first:
  assumes "bits w = 0" "remembers w H"
  shows "fst (rw_accept w s)" "H = {}" "remembers (snd (rw_accept w s)) {s}"
proof -
  show "fst (rw_accept w s)" "H = {}" using assms by (auto simp: rw_accept_def remembers_def)
  show "remembers (snd (rw_accept w s)) {s}"
    using assms word_diff_eq [of _ s s] by (auto simp: rw_accept_def remembers_def bit_1_iff)
qed

lemma rw_accept_above:
  assumes "bits w \<noteq> 0" "remembers w H" "highest w < s"
  shows "fst (rw_accept w s)" "remembers (snd (rw_accept w s)) (insert s H)"
proof -
  define d where "d = unat (s - highest w)"
  have d: "d = unat s - unat (highest w)" "0 < d"
    using assms(3) unat_sub [of "highest w" s] by (auto simp: d_def word_less_nat_alt word_le_nat_alt)
  show "fst (rw_accept w s)" using assms by (simp add: rw_accept_def)
  define b where "b = push_bit d (bits w) OR 1"
  have w': "snd (rw_accept w s) = \<lparr>highest = s, bits = b\<rparr>"
    using assms by (simp add: rw_accept_def b_def d_def)
  have nz: "b \<noteq> 0"
    by (metis b_def bit_0_eq bit_1_0 bit_or_iff bot_apply bot_bool_def)
  have lt: "x \<le> s" if "x \<in> H" for x using assms that by (force simp: remembers_def)
  have "bit b i \<longleftrightarrow> i \<le> unat s \<and> s - of_nat i \<in> insert s H" if "i < 64" for i
  proof (cases "i < d")
    case True
    then have le: "i \<le> unat s" using d by simp
    have "s - of_nat i \<notin> H"
    proof
      assume "s - of_nat i \<in> H"
      then have "unat (s - of_nat i) \<le> unat (highest w)" using assms by (simp add: remembers_def word_le_nat_alt)
      then show False using unat_word_diff [OF le] True d by simp
    qed
    then show ?thesis
      using True that le word_diff_eq [OF le, of s] by (auto simp: b_def bit_or_iff bit_push_bit_iff bit_1_iff)
  next
    case False
    then have "bit b i = bit (bits w) (i - d)"
      using d(2) that by (simp add: b_def bit_or_iff bit_push_bit_iff bit_1_iff)
    also have "\<dots> \<longleftrightarrow> i - d \<le> unat (highest w) \<and> highest w - of_nat (i - d) \<in> H"
      using assms that by (simp add: remembers_def less_imp_diff_less)
    also have "i - d \<le> unat (highest w) \<longleftrightarrow> i \<le> unat s" using False d by linarith
    also have "highest w - of_nat (i - d) = s - of_nat i"
      using False by (simp add: d_def of_nat_diff)
    finally show ?thesis using False d(2) word_diff_eq [of i s s] by auto
  qed
  then show "remembers (snd (rw_accept w s)) (insert s H)"
    using nz lt by (auto simp: w' remembers_def)
qed

lemma rw_accept_below:
  assumes "bits w \<noteq> 0" "remembers w H" "\<not> highest w < s"
  defines "d \<equiv> unat (highest w) - unat s"
  shows "fst (rw_accept w s) \<longleftrightarrow> d < 64 \<and> s \<notin> H"
    and "remembers (snd (rw_accept w s)) (if fst (rw_accept w s) then insert s H else H)"
proof -
  have le: "s \<le> highest w" using assms(3) by simp
  have ud: "unat (highest w - s) = d" using unat_sub [OF le] by (simp add: d_def)
  have dle: "d \<le> unat (highest w)" by (simp add: d_def)
  have hs: "highest w - of_nat i = s \<longleftrightarrow> i = d" if "i \<le> unat (highest w)" for i
    using word_diff_eq [OF that, of s] le by (auto simp: d_def)
  have far: "64 \<le> highest w - s \<longleftrightarrow> 64 \<le> d" by (simp add: word_le_nat_alt ud)
  have hit: "bit (bits w) d \<longleftrightarrow> s \<in> H" if "d < 64"
    using assms(1,2) that dle hs [OF dle] by (simp add: remembers_def)
  have acc: "rw_accept w s = (if d < 64 \<and> s \<notin> H then (True, w\<lparr>bits := bits w OR push_bit d 1\<rparr>) else (False, w))"
    using assms(1,3) far hit by (auto simp: rw_accept_def ud and_exp_eq_0_iff_not_bit Let_def)
  show "fst (rw_accept w s) \<longleftrightarrow> d < 64 \<and> s \<notin> H" by (simp add: acc)
  show "remembers (snd (rw_accept w s)) (if fst (rw_accept w s) then insert s H else H)"
  proof (cases "d < 64 \<and> s \<notin> H")
    case True
    have nz: "bits w OR push_bit d 1 \<noteq> 0" using assms(1) by (metis or_eq_0_iff)
    have "bit (bits w OR push_bit d 1) i \<longleftrightarrow> i \<le> unat (highest w) \<and> highest w - of_nat i \<in> insert s H"
      if "i < 64" for i
    proof -
      have "bit (bits w OR push_bit d 1) i \<longleftrightarrow> bit (bits w) i \<or> i = d"
        using that by (auto simp: bit_or_iff bit_push_bit_iff bit_1_iff simp del: push_bit_of_1)
      then show ?thesis
        using assms(1,2) that hs [of i] dle by (auto simp: remembers_def)
    qed
    then show ?thesis
      using True nz assms(1,2) le by (auto simp: acc remembers_def simp del: push_bit_of_1)
  qed (use assms(2) in \<open>auto simp: acc\<close>)
qed

lemma rw_accept_refines:
  assumes "remembers w H"
  shows "fst (rw_accept w s) \<longleftrightarrow> fresh_in H s"
    and "remembers (snd (rw_accept w s)) (if fst (rw_accept w s) then insert s H else H)"
proof -
  consider "bits w = 0" | "bits w \<noteq> 0" "highest w < s" | "bits w \<noteq> 0" "\<not> highest w < s" by blast
  then have "(fst (rw_accept w s) \<longleftrightarrow> fresh_in H s) \<and>
      remembers (snd (rw_accept w s)) (if fst (rw_accept w s) then insert s H else H)"
  proof cases
    case 1
    from rw_accept_first [OF 1 assms] show ?thesis by (simp add: fresh_in_def)
  next
    case 2
    have "fresh_in H s"
      using 2 assms by (force simp: fresh_in_def remembers_def word_le_nat_alt word_less_nat_alt)
    with rw_accept_above [OF 2(1) assms 2(2)] show ?thesis by simp
  next
    case 3
    have "fresh_in H s \<longleftrightarrow> unat (highest w) - unat s < 64 \<and> s \<notin> H"
      using 3 assms by (force simp: fresh_in_def remembers_def word_le_nat_alt word_less_nat_alt)
    with rw_accept_below [OF 3(1) assms 3(2)] show ?thesis by simp
  qed
  then show "fst (rw_accept w s) \<longleftrightarrow> fresh_in H s"
    and "remembers (snd (rw_accept w s)) (if fst (rw_accept w s) then insert s H else H)" by blast+
qed

subsection \<open>Anti-replay as an interface\<close>

text \<open>A filter consumes inputs in a state and delivers a number for some of them.\<close>

fun delivered :: "('w \<Rightarrow> 'i \<Rightarrow> 'n option \<times> 'w) \<Rightarrow> 'w \<Rightarrow> 'i list \<Rightarrow> 'n list" where
  "delivered step w [] = []"
| "delivered step w (i # is) =
     (case step w i of (None, w') \<Rightarrow> delivered step w' is | (Some n, w') \<Rightarrow> n # delivered step w' is)"

locale replay_filter =
  fixes step :: "'w \<Rightarrow> 'i \<Rightarrow> 'n option \<times> 'w" and known :: "'w \<Rightarrow> 'n set \<Rightarrow> bool"
  assumes deliver: "known w H \<Longrightarrow> step w i = (Some n, w') \<Longrightarrow> n \<notin> H \<and> known w' (insert n H)"
    and drop_input: "known w H \<Longrightarrow> step w i = (None, w') \<Longrightarrow> known w' H"
begin

lemma delivered_new: "known w H \<Longrightarrow> distinct (delivered step w is) \<and> set (delivered step w is) \<inter> H = {}"
proof (induction "is" arbitrary: w H)
  case (Cons i "is")
  obtain r w' where st: "step w i = (r, w')" by (cases "step w i")
  show ?case
  proof (cases r)
    case None
    then show ?thesis using Cons.IH [OF drop_input [OF Cons.prems]] st by simp
  next
    case (Some n)
    with deliver [OF Cons.prems, of i n w'] st have "n \<notin> H" "known w' (insert n H)" by auto
    then show ?thesis using Cons.IH [of w' "insert n H"] st Some by auto
  qed
qed simp

end

definition accept_step :: "replayWindow \<Rightarrow> u64 \<Rightarrow> u64 option \<times> replayWindow" where
  "accept_step w s = (case rw_accept w s of (ok, w') \<Rightarrow> (if ok then Some s else None, w'))"

definition decode_step ::
  "trafficKeys \<Rightarrow> u64 \<Rightarrow> byte list \<Rightarrow> replayWindow \<Rightarrow> dtls_record \<Rightarrow> u64 option \<times> replayWindow" where
  "decode_step k ep cid w r =
     (case decodeRecord k r ep cid w of
        (Inl e, w') \<Rightarrow> (None, w')
      | (Inr (number, _, _), w') \<Rightarrow> (Some (sequence number), w'))"

interpretation window: replay_filter accept_step remembers
proof
  fix w H i n w'
  assume r: "remembers w H"
  {
    assume "accept_step w i = (Some n, w')"
    then show "n \<notin> H \<and> remembers w' (insert n H)"
      using rw_accept_refines [OF r, of i]
      by (auto simp: accept_step_def fresh_in_def split: prod.splits if_splits)
  next
    assume "accept_step w i = (None, w')"
    then show "remembers w' H"
      using rw_accept_refines(2) [OF r, of i] by (auto simp: accept_step_def split: prod.splits if_splits)
  }
qed

text \<open>Replay state changes only for an authenticated record: every other outcome leaves it alone.\<close>

lemma rw_accept_refused: "\<not> fst (rw_accept w s) \<Longrightarrow> snd (rw_accept w s) = w"
  by (auto simp: rw_accept_def Let_def split: if_splits)

lemma decodeRecord_outcome:
  "case decodeRecord k r ep cid w of
     (Inl e, w') \<Rightarrow> w' = w
   | (Inr (number, ty, content), w') \<Rightarrow>
       epoch number = ep \<and> fst (rw_accept w (sequence number)) \<and> w' = snd (rw_accept w (sequence number))"
  by (simp add: decodeRecord_def Let_def case_prod_unfold rw_accept_refused split: sum.split)

interpretation decoder: replay_filter "decode_step k ep cid" remembers for k ep cid
proof
  fix w H i n w'
  assume r: "remembers w H"
  {
    assume "decode_step k ep cid w i = (Some n, w')"
    then have "fst (rw_accept w n)" "w' = snd (rw_accept w n)"
      using decodeRecord_outcome [where k = k and r = i and ep = ep and cid = cid and w = w] by (auto simp: decode_step_def split: prod.splits sum.splits)
    then show "n \<notin> H \<and> remembers w' (insert n H)"
      using rw_accept_refines [OF r, of n] by (simp add: fresh_in_def)
  next
    assume "decode_step k ep cid w i = (None, w')"
    then show "remembers w' H"
      using decodeRecord_outcome [where k = k and r = i and ep = ep and cid = cid and w = w] r by (auto simp: decode_step_def split: prod.splits sum.splits)
  }
qed

subsection \<open>Round trips\<close>

lemma tk_nonce_inj:
  assumes "tk_nonce k s = tk_nonce k t"
  shows "s = t"
proof -
  define b :: u64 where "b = of_nat (be_dec (drop 4 (tk_iv k)))"
  have lt: "unat x < 256 ^ 8" for x :: u64 using unsigned_less [of x, where ?'a = nat] by simp
  from assms have "be_enc 8 (unat (b XOR s)) = be_enc 8 (unat (b XOR t))"
    by (simp add: tk_nonce_def b_def Let_def)
  then have "unat (b XOR s) = unat (b XOR t)" by (rule be_enc_inj [OF lt lt])
  then have "b XOR s = b XOR t" by (simp add: word_unat_eq_iff)
  then have "b XOR (b XOR s) = b XOR (b XOR t)" by simp
  then show ?thesis by (simp flip: xor.assoc)
qed

lemma plain_roundtrip:
  assumes enc: "encodePlainRecord t s content = Inr pkt" and cid: "0 \<le> n" "n \<le> 255"
  shows "parseRecord (pkt @ rest) n =
    Inr (\<lparr>rec_header = take plainHeader pkt, rec_body = content, rec_cid = [],
          rec_number = \<lparr>epoch = 0, sequence = s\<rparr>, rec_typ = t, rec_encrypted = False,
          rec_seqOffset = 0, rec_seqLen = 0\<rparr>, rest)"
proof -
  from enc have s: "s < 2 ^ 48" and t: "t = contentHandshake \<or> t = contentAlert \<or> t = contentACK"
    and len: "length content \<le> maxContent"
    and pkt: "pkt = [t, 0xfe, 0xfd, 0, 0] @ be_enc 6 (unat s) @ be_enc 2 (length content) @ content"
    by (auto simp: encodePlainRecord_def split: if_splits)
  have us: "unat s < 256 ^ 6" using s by (simp add: word_less_nat_alt)
  have ul: "length content < 256 ^ 2" using len by (simp add: maxContent_def)
  have lp: "length pkt = 13 + length content" by (simp add: pkt)
  have pieces: "(pkt @ rest) ! 0 = t" "be_dec (segment (pkt @ rest) 3 5) = 0"
    "of_nat (be_dec (segment (pkt @ rest) 5 11)) = s" "be_dec (segment (pkt @ rest) 11 13) = length content"
    "segment (pkt @ rest) 13 (13 + length content) = content"
    using be_dec_enc [OF us] be_dec_enc [OF ul] by (simp_all add: pkt segment_def be_dec_def del: be_dec_enc)
  have "t AND 0xe0 \<noteq> 0x20" using t by (auto simp: record_consts)
  then have "parseRecord (pkt @ rest) n = parse_plain (pkt @ rest)"
    using cid by (simp add: parseRecord_def pkt maxCIDLen_def)
  also have "\<dots> = Inr (\<lparr>rec_header = take plainHeader pkt, rec_body = content, rec_cid = [],
          rec_number = \<lparr>epoch = 0, sequence = s\<rparr>, rec_typ = t, rec_encrypted = False,
          rec_seqOffset = 0, rec_seqLen = 0\<rparr>, rest)"
    using t len by (simp add: parse_plain_def plainHeader_def Let_def pieces lp) blast
  finally show ?thesis .
qed

lemma be_enc_2: "be_enc 2 v = [of_nat (v div 256), of_nat v]"
  by (simp add: numeral_2_eq_2)

lemma xor_mask_pair:
  "xor_mask (pre @ x # y # post) (length pre) msk 2 = pre @ (x XOR msk ! 0) # (y XOR msk ! 1) # post"
  by (simp add: xor_mask_def numeral_2_eq_2 nth_append list_update_append)

lemma xor_mask_2:
  "xor_mask (pre @ be_enc 2 v @ post) (length pre) msk 2 =
   pre @ [of_nat (v div 256) XOR msk ! 0, of_nat v XOR msk ! 1] @ post"
  using xor_mask_pair by (simp add: be_enc_2)

lemma and_3_cases: "(x :: u64) AND 3 \<in> {0, 1, 2, 3}"
proof -
  have "x AND 3 = take_bit 2 x" by (simp add: take_bit_eq_mask mask_eq_exp_minus_1)
  then have "unat (x AND 3) < 4" by (simp add: unsigned_take_bit_eq take_bit_nat_def)
  then have "unat (x AND 3) \<in> {0, 1, 2, 3}" by auto
  then show ?thesis by (auto simp: word_unat_eq_iff)
qed

lemma inner_end_zeros: "\<forall>i. m \<le> i \<and> i < n \<longrightarrow> xs ! i = 0 \<Longrightarrow> m \<le> n \<Longrightarrow> inner_end xs n = inner_end xs m"
proof (induction n)
  case (Suc n)
  show ?case
  proof (cases "m = Suc n")
    case False
    with Suc.prems have "xs ! n = 0" by simp
    with Suc False show ?thesis by simp
  qed simp
qed simp

lemma inner_end_padding:
  assumes "b \<noteq> 0"
  shows "inner_end (xs @ b # replicate m 0) (length xs + 1 + m) = length xs + 1"
proof -
  have "\<forall>i. length xs + 1 \<le> i \<and> i < length xs + 1 + m \<longrightarrow> (xs @ b # replicate m 0) ! i = 0"
    by (auto simp: nth_append nth_Cons')
  from inner_end_zeros [OF this] have
    "inner_end (xs @ b # replicate m 0) (length xs + 1 + m) = inner_end (xs @ b # replicate m 0) (length xs + 1)"
    by simp
  also have "\<dots> = length xs + 1" using assms by (simp add: nth_append)
  finally show ?thesis .
qed

lemma encodeRecord_ok:
  assumes "encodeRecord k num cid t content pad = Inr pkt"
  obtains first header sealed msk where
    "2 \<le> epoch num" "length cid \<le> 255" "validContentType t" "length content + nat pad \<le> maxContent"
    "length content + 1 + nat pad + aead_Overhead k \<le> maxCiphertext"
    "first = (0x2c OR ucast (epoch num AND 3)) OR (if length cid \<noteq> 0 then 0x10 else 0)"
    "header = first # cid @ be_enc 2 (unat (sequence num AND 0xffff)) @
       be_enc 2 (length content + 1 + nat pad + aead_Overhead k)"
    "sealed = tk_seal k header (sequence num) (content @ t # replicate (nat pad) 0)"
    "tk_mask k sealed = Inr msk" "16 \<le> length sealed"
    "pkt = xor_mask (header @ sealed) (1 + length cid) msk 2"
  using assms
  by (auto simp: encodeRecord_def Let_def bind_ok_eq_Inr tk_mask_def record_consts split: if_splits)

lemma parse_protected:
  fixes first :: byte and cid :: "byte list"
  assumes flags: "first AND 0xe0 = 0x20" "first AND 0x08 \<noteq> 0" "first AND 0x04 \<noteq> 0"
      "first AND 0x10 \<noteq> 0 \<longleftrightarrow> cid \<noteq> []"
    and cid: "length cid \<le> 255" and body: "16 \<le> length body" "length body \<le> maxCiphertext"
  shows "parseRecord (first # cid @ [a, b] @ be_enc 2 (length body) @ body @ rest) (int (length cid)) =
    Inr (\<lparr>rec_header = first # cid @ [a, b] @ be_enc 2 (length body), rec_body = body, rec_cid = cid,
          rec_number = \<lparr>epoch = ucast (first AND 3), sequence = 0\<rparr>, rec_typ = first,
          rec_encrypted = True, rec_seqOffset = 1 + length cid, rec_seqLen = 2\<rparr>, rest)"
    (is "parseRecord ?d _ = _")
proof -
  have off: "(if first AND 0x10 \<noteq> 0 then 1 + nat (int (length cid)) else 1) = 1 + length cid"
    "(if first AND 0x10 \<noteq> 0 then segment ?d 1 (1 + nat (int (length cid))) else []) = cid"
    using flags(4) by (auto simp: segment_def)
  have bl: "length body < 256 ^ 2" using body(2) by (simp add: record_consts)
  define pre where "pre = first # cid @ [a, b]"
  have d: "?d = pre @ be_enc 2 (length body) @ body @ rest" and lp: "length pre = 3 + length cid"
    by (simp_all add: pre_def)
  have pieces: "length ?d = 5 + length cid + length body + length rest"
    "?d ! 0 = first"
    "be_dec (segment ?d (1 + length cid + 2 + 2 - 2) (1 + length cid + 2 + 2)) = length body"
    "take (1 + length cid + 2 + 2) ?d = first # cid @ [a, b] @ be_enc 2 (length body)"
    "segment ?d (1 + length cid + 2 + 2) (1 + length cid + 2 + 2 + length body) = body"
    "drop (1 + length cid + 2 + 2 + length body) ?d = rest"
    subgoal by simp
    subgoal by simp
    subgoal unfolding d using be_dec_enc [OF bl] lp by (simp add: segment_def del: be_dec_enc)
    subgoal unfolding d using lp by (simp add: pre_def)
    subgoal unfolding d using lp by (simp add: segment_def)
    subgoal unfolding d using lp by simp
    done
  have "parseRecord ?d (int (length cid)) = parse_unified ?d (int (length cid))"
    using cid flags(1) by (simp add: parseRecord_def maxCIDLen_def)
  also have "\<dots> = Inr (\<lparr>rec_header = first # cid @ [a, b] @ be_enc 2 (length body), rec_body = body,
          rec_cid = cid, rec_number = \<lparr>epoch = ucast (first AND 3), sequence = 0\<rparr>, rec_typ = first,
          rec_encrypted = True, rec_seqOffset = 1 + length cid, rec_seqLen = 2\<rparr>, rest)"
    unfolding parse_unified_def Let_def pieces(2) off unifiedSeqLen_def unifiedLengthLen_def seqNumMaskLen_def
    using flags body pieces by simp
  finally show ?thesis .
qed

text \<open>What the documentation of \<open>cipher.AEAD\<close> promises: \<open>Seal\<close> adds \<open>Overhead\<close> bytes, and \<open>Open\<close>
  inverts \<open>Seal\<close> under the same nonce and additional data.\<close>

definition keys_ok :: "trafficKeys \<Rightarrow> bool" where
  "keys_ok k \<longleftrightarrow>
     (\<forall>n p h. length (aead_Seal k n p h) = length p + aead_Overhead k) \<and>
     (\<forall>n p h. aead_Open k n (aead_Seal k n p h) h = Some p)"

lemma first_byte_flags:
  fixes ep :: u64 and c :: bool
  defines "first \<equiv> (0x2c OR ucast (ep AND 3)) OR (if c then 0x10 else 0) :: byte"
  shows "first AND 0xe0 = 0x20" "first AND 0x08 \<noteq> 0" "first AND 0x04 \<noteq> 0" "first AND 0x10 \<noteq> 0 \<longleftrightarrow> c"
    "ucast (first AND 3) = ep AND 3"
proof -
  consider "ep AND 3 = 0" | "ep AND 3 = 1" | "ep AND 3 = 2" | "ep AND 3 = 3" using and_3_cases [of ep] by auto
  then have "first AND 0xe0 = 0x20 \<and> first AND 0x08 \<noteq> 0 \<and> first AND 0x04 \<noteq> 0 \<and>
      (first AND 0x10 \<noteq> 0 \<longleftrightarrow> c) \<and> ucast (first AND 3) = ep AND 3"
    by cases (cases c; simp add: first_def)+
  then show "first AND 0xe0 = 0x20" "first AND 0x08 \<noteq> 0" "first AND 0x04 \<noteq> 0" "first AND 0x10 \<noteq> 0 \<longleftrightarrow> c"
    "ucast (first AND 3) = ep AND 3" by blast+
qed

lemma protected_roundtrip:
  assumes ok: "keys_ok k" and enc: "encodeRecord k num cid t content pad = Inr pkt"
    and close: "unat (sequence num) \<le> unat (rw_next w) + 2 ^ 15" "unat (rw_next w) < unat (sequence num) + 2 ^ 15"
    and fresh: "fst (rw_accept w (sequence num))"
  shows "\<exists>r. parseRecord (pkt @ rest) (int (length cid)) = Inr (r, rest) \<and>
    decodeRecord k r (epoch num) cid w = (Inr (num, t, content), snd (rw_accept w (sequence num)))"
proof -
  from enc obtain first header sealed msk where e:
    "2 \<le> epoch num" "length cid \<le> 255" "validContentType t" "length content + nat pad \<le> maxContent"
    "length content + 1 + nat pad + aead_Overhead k \<le> maxCiphertext"
    "first = (0x2c OR ucast (epoch num AND 3)) OR (if length cid \<noteq> 0 then 0x10 else 0)"
    "header = first # cid @ be_enc 2 (unat (sequence num AND 0xffff)) @
       be_enc 2 (length content + 1 + nat pad + aead_Overhead k)"
    "sealed = tk_seal k header (sequence num) (content @ t # replicate (nat pad) 0)"
    "tk_mask k sealed = Inr msk" "16 \<le> length sealed"
    "pkt = xor_mask (header @ sealed) (1 + length cid) msk 2"
    by (rule encodeRecord_ok)
  define v where "v = unat (sequence num AND 0xffff)"
  define inner where "inner = content @ t # replicate (nat pad) 0"
  have ls: "length content + 1 + nat pad + aead_Overhead k = length sealed"
    using ok by (simp add: e(8) tk_seal_def keys_ok_def)
  have h: "header = (first # cid) @ be_enc 2 v @ be_enc 2 (length sealed)"
    using e(7) unfolding ls by (simp add: v_def)
  define a where "a = of_nat (v div 256) XOR msk ! 0"
  define b where "b = of_nat v XOR msk ! 1"
  have pkt: "pkt @ rest = first # cid @ [a, b] @ be_enc 2 (length sealed) @ sealed @ rest"
    using xor_mask_2 [of "first # cid" v "be_enc 2 (length sealed) @ sealed" msk]
    by (simp add: e(11) h a_def b_def)
  note flags = first_byte_flags [of "epoch num" "length cid \<noteq> 0", folded e(6)]
  define r where "r = \<lparr>rec_header = first # cid @ [a, b] @ be_enc 2 (length sealed), rec_body = sealed,
    rec_cid = cid, rec_number = \<lparr>epoch = ucast (first AND 3), sequence = 0\<rparr>, rec_typ = first,
    rec_encrypted = True, rec_seqOffset = 1 + length cid, rec_seqLen = 2\<rparr>"
  have parse: "parseRecord (pkt @ rest) (int (length cid)) = Inr (r, rest)"
    unfolding pkt r_def using flags e(2,5,10) ls by (intro parse_protected) auto
  have hdr: "xor_mask (rec_header r) (rec_seqOffset r) msk (rec_seqLen r) = header"
    using xor_mask_pair [of "first # cid" a b "be_enc 2 (length sealed)" msk]
    by (simp add: r_def h a_def b_def be_enc_2 xor.assoc)
  have t16: "sequence num AND 0xffff = take_bit 16 (sequence num)"
    by (simp add: take_bit_eq_mask mask_eq_exp_minus_1)
  have v16: "v < 256 ^ 2" by (simp add: v_def t16 unsigned_take_bit_eq take_bit_nat_def)
  have seg: "segment header (rec_seqOffset r) (rec_seqOffset r + rec_seqLen r) = be_enc 2 v"
    by (simp add: r_def h segment_def)
  have tr: "of_nat v = take_bit (8 * 2) (sequence num)" by (simp add: v_def t16)
  have rs: "reconstructSequence (of_nat v) 2 (rw_next w) = sequence num"
    unfolding tr using close by (intro reconstructSequence_close) simp_all
  have op: "tk_open k header (sequence num) sealed = Inr inner"
    using ok by (simp add: tk_open_def e(8) tk_seal_def keys_ok_def inner_def)
  have t0: "t \<noteq> 0" using e(3) by (auto simp: validContentType_def record_consts)
  have ie: "inner_end inner (length inner) = length content + 1"
    using inner_end_padding [OF t0, of content "nat pad"] by (simp add: inner_def)
  have mk: "tk_mask k (rec_body r) = Inr msk" using e(9) by (simp add: r_def)
  have rs': "reconstructSequence (of_nat (be_dec (be_enc 2 v))) (rec_seqLen r) (rw_next w) = sequence num"
    using rs be_dec_enc [OF v16] by (simp add: r_def)
  have op': "tk_open k header (sequence num) (rec_body r) = Inr inner" using op by (simp add: r_def)
  have auth: "rec_encrypted r" "epoch (rec_number r) = epoch num AND 3" "rec_cid r = cid"
    using flags(5) by (simp_all add: r_def)
  have hl: "length (rec_header r) \<le> maxUnifiedHeader" using e(2) by (simp add: r_def record_consts)
  have inn: "length inner \<le> maxContent + 1" "inner ! length content = t" "take (length content) inner = content"
    using e(4) by (simp_all add: inner_def nth_append)
  have "decodeRecord k r (epoch num) cid w = (Inr (num, t, content), snd (rw_accept w (sequence num)))"
    using mk hdr seg rs' op' ie auth fresh hl e(3) inn
    by (simp add: decodeRecord_def Let_def case_prod_unfold)
  then show ?thesis using parse by blast
qed
end
