(* ===== verification/RecordProps.thy ===== *)
theory RecordProps
  imports RecordLemmas
begin

unbundle bit_operations_syntax

text \<open>
  The properties of the record layer, with a concrete pair of ciphers (\<open>demo_keys\<close>: a
  16-byte tag of zeros, the sample as its own mask) on which their hypotheses hold.
\<close>

definition demo_keys :: trafficKeys where
  "demo_keys = \<lparr>aead_Seal = (\<lambda>n p h. p @ replicate 16 0),
                aead_Open = (\<lambda>n c h. Some (take (length c - 16) c)),
                aead_Overhead = 16, tk_sn = SnBlock (\<lambda>b. b), recordLimit = 2 ^ 24, tk_iv = replicate 12 0\<rparr>"

definition empty_window :: replayWindow where
  "empty_window = \<lparr>highest = 0, bits = 0\<rparr>"

text \<open>The specification of the window over a list of arrivals: keep what is fresh with respect
  to the set kept so far.\<close>

fun fresh_run :: "u64 set \<Rightarrow> u64 list \<Rightarrow> u64 list" where
  "fresh_run H [] = []"
| "fresh_run H (s # ss) = (if fresh_in H s then s # fresh_run (insert s H) ss else fresh_run H ss)"

lemma demo_keys_ok: "keys_ok demo_keys"
  by (simp add: keys_ok_def demo_keys_def)

lemma empty_window_remembers: "remembers empty_window {}"
  by (simp add: remembers_empty empty_window_def)

lemma accept_run: "remembers w H \<Longrightarrow> delivered accept_step w ss = fresh_run H ss"
proof (induction ss arbitrary: w H)
  case (Cons s ss)
  note r = rw_accept_refines [OF Cons.prems, of s]
  show ?case
  proof (cases "fresh_in H s")
    case True
    with r have "fst (rw_accept w s)" "remembers (snd (rw_accept w s)) (insert s H)" by simp_all
    then show ?thesis using Cons.IH True by (simp add: accept_step_def case_prod_unfold)
  next
    case False
    with r have "\<not> fst (rw_accept w s)" "remembers (snd (rw_accept w s)) H" by simp_all
    then show ?thesis using Cons.IH False by (simp add: accept_step_def case_prod_unfold)
  qed
qed simp

text \<open>C3: a protected record survives the wire.  Whatever \<open>encodeRecord\<close> produces, followed by any
  other bytes of the datagram, \<open>parseRecord\<close> splits off exactly; \<open>decodeRecord\<close> then returns
  the record number with its full 64-bit sequence, the content type and the content without its
  padding, and records the number in the replay window.  Hypotheses: the AEAD is as documented,
  the sequence number is within half a 16-bit window of the expected one, and it is fresh.\<close>

theorem protected_record_roundtrip:
  assumes "keys_ok k" "encodeRecord k num cid t content pad = Inr pkt"
    "unat (sequence num) \<le> unat (rw_next w) + 2 ^ 15" "unat (rw_next w) < unat (sequence num) + 2 ^ 15"
    "fst (rw_accept w (sequence num))"
  shows "\<exists>r. parseRecord (pkt @ rest) (int (length cid)) = Inr (r, rest) \<and>
    decodeRecord k r (epoch num) cid w = (Inr (num, t, content), snd (rw_accept w (sequence num)))"
  using assms by (rule protected_roundtrip)

theorem protected_record_roundtrip_witness:
  "\<exists>pkt r. encodeRecord demo_keys \<lparr>epoch = 3, sequence = 5\<rparr> [7] contentData [1, 2, 0] 4 = Inr pkt \<and>
     parseRecord (pkt @ [9]) 1 = Inr (r, [9]) \<and>
     fst (decodeRecord demo_keys r 3 [7] empty_window) = Inr (\<lparr>epoch = 3, sequence = 5\<rparr>, contentData, [1, 2, 0])"
proof -
  obtain pkt where e: "encodeRecord demo_keys \<lparr>epoch = 3, sequence = 5\<rparr> [7] contentData [1, 2, 0] 4 = Inr pkt"
    by (simp add: encodeRecord_def demo_keys_def tk_seal_def tk_mask_def record_consts validContentType_def Let_def)
  from protected_record_roundtrip [OF demo_keys_ok e, of empty_window "[9]"] obtain r where
    "parseRecord (pkt @ [9]) 1 = Inr (r, [9])"
    "fst (decodeRecord demo_keys r 3 [7] empty_window) = Inr (\<lparr>epoch = 3, sequence = 5\<rparr>, contentData, [1, 2, 0])"
    by (auto simp: rw_next_def rw_accept_def empty_window_def)
  with e show ?thesis by blast
qed

text \<open>C7: however records are replayed, reordered or forged, \<open>decodeRecord\<close> never delivers the same
  sequence number twice under one replay window.\<close>

theorem decodeRecord_no_replay: "distinct (delivered (decode_step k ep cid) empty_window rs)"
  using decoder.delivered_new [OF empty_window_remembers] by blast

text \<open>C18: the 64-bit window implements its specification over the set of accepted numbers: in any
  order of arrival it accepts exactly the numbers that are new and less than 64 below every
  number accepted before, and so never refuses a record within that distance.\<close>

theorem replay_window_refines_set: "delivered accept_step empty_window ss = fresh_run {} ss"
  by (rule accept_run [OF empty_window_remembers])

text \<open>C19: reconstruction of a truncated sequence number is exact whenever the sender's number lies
  within half a window of the expected one, at both ends of the 64-bit range too.\<close>

theorem reconstructSequence_exact:
  assumes "sz \<in> {1, 2}" "unat s \<le> unat e + 2 ^ (8 * sz) div 2" "unat e < unat s + 2 ^ (8 * sz) div 2"
  shows "reconstructSequence (take_bit (8 * sz) s) sz e = s"
  using assms by (intro reconstructSequence_close) auto

theorem reconstructSequence_exact_witness:
  "reconstructSequence (take_bit 16 0x12fff0) 2 0x130010 = 0x12fff0"
  using reconstructSequence_exact [of 2 "0x12fff0" "0x130010"] by simp

text \<open>C20: a plain record round trips, and the bytes after it are returned untouched.\<close>

theorem plain_record_roundtrip:
  assumes "encodePlainRecord t s content = Inr pkt" "0 \<le> n" "n \<le> 255"
  shows "parseRecord (pkt @ rest) n =
    Inr (\<lparr>rec_header = take plainHeader pkt, rec_body = content, rec_cid = [],
          rec_number = \<lparr>epoch = 0, sequence = s\<rparr>, rec_typ = t, rec_encrypted = False,
          rec_seqOffset = 0, rec_seqLen = 0\<rparr>, rest)"
  using assms by (rule plain_roundtrip)

theorem plain_record_roundtrip_witness:
  "\<exists>pkt. encodePlainRecord contentHandshake 3 [1, 2] = Inr pkt \<and>
     map_sum id (\<lambda>(r, rest). (rec_body r, sequence (rec_number r), rest)) (parseRecord (pkt @ [8]) 4) =
     (Inr ([1, 2], 3, [8]) :: dtls_error + _)"
proof -
  obtain pkt where e: "encodePlainRecord contentHandshake 3 [1, 2] = Inr pkt"
    by (simp add: encodePlainRecord_def record_consts)
  with plain_record_roundtrip [OF e, of 4 "[8]"] show ?thesis by simp
qed

text \<open>C21: under one traffic key every sequence number has its own nonce.\<close>

theorem tk_nonce_unique: "s \<noteq> t \<Longrightarrow> tk_nonce k s \<noteq> tk_nonce k t"
  using tk_nonce_inj by blast

theorem tk_nonce_unique_witness: "tk_nonce demo_keys 1 \<noteq> tk_nonce demo_keys 2"
  using tk_nonce_unique [of 1 2 demo_keys] by simp

text \<open>C22: a record that is refused for any reason leaves the replay window unchanged, so a forgery
  cannot move it.\<close>

theorem decodeRecord_error_keeps_window:
  assumes "fst (decodeRecord k r ep cid w) = Inl e"
  shows "snd (decodeRecord k r ep cid w) = w"
  using decodeRecord_outcome [where k = k and r = r and ep = ep and cid = cid and w = w] assms
  by (auto split: prod.splits sum.splits)

theorem decodeRecord_error_keeps_window_witness:
  "snd (decodeRecord demo_keys \<lparr>rec_header = [], rec_body = [], rec_cid = [],
      rec_number = \<lparr>epoch = 0, sequence = 0\<rparr>, rec_typ = 22, rec_encrypted = False,
      rec_seqOffset = 0, rec_seqLen = 0\<rparr> 3 [] empty_window) = empty_window"
  by (rule decodeRecord_error_keeps_window) (simp add: decodeRecord_def)

end
