(* ===== verification/MtuProps.thy ===== *)
theory MtuProps
  imports SessionDemo RecordProps
begin

text \<open>
  Sizes.  \<open>sizes_ok\<close> is the invariant that bounds every datagram of a connection by its configured MTU;
  the other properties are about the arithmetic of single records, of probes and of the search.
\<close>

subsection \<open>The size of a record\<close>

text \<open>\<open>masks k\<close>: the sequence number of a ciphertext of at least 16 bytes can be masked.\<close>

definition masks :: "trafficKeys \<Rightarrow> bool" where
  "masks k \<longleftrightarrow> (\<forall>sealed. 16 \<le> length sealed \<longrightarrow> (\<exists>m. tk_mask k sealed = Inr m))"

lemma demo_keys_sel: "aead_Overhead demo_keys = 16" "recordLimit demo_keys = 2 ^ 24"
  by (simp_all add: demo_keys_def)

lemma demo_masks: "masks demo_keys"
  by (simp add: masks_def demo_keys_def tk_mask_def record_consts)

lemma length_xor_mask [simp]: "length (xor_mask h i m n) = length h"
proof -
  have "length (foldl (\<lambda>h j. h[i + j := h ! (i + j) XOR m ! j]) h js) = length h" for js
    by (induction js arbitrary: h) simp_all
  then show ?thesis by (simp add: xor_mask_def)
qed

lemma encodeRecord_length:
  assumes "keys_ok k" "encodeRecord k n c ty body pad = Inr packet"
  shows "int (length packet) = datagramOverhead (int (length c)) (int (aead_Overhead k)) + int (length body) + int (nat pad)"
  using assms(2)
  by (rule encodeRecord_ok)
     (use assms(1) in \<open>auto simp: keys_ok_def tk_seal_def datagramOverhead_def unifiedSeqLen_def unifiedLengthLen_def\<close>)

lemma encodeRecord_total:
  assumes "keys_ok k" "masks k" "15 \<le> length body + aead_Overhead k" "2 \<le> epoch n" "length c \<le> 255" "validContentType ty"
    and "0 \<le> pad" "int (length body) + pad \<le> int maxContent" "length body + 1 + nat pad + aead_Overhead k \<le> maxCiphertext"
  shows "\<exists>packet. encodeRecord k n c ty body pad = Inr packet"
proof -
  have "16 \<le> length (tk_seal k h q (body @ ty # replicate (nat pad) 0))" for h q
    using assms(1,3) by (simp add: keys_ok_def tk_seal_def)
  then have "\<exists>m. tk_mask k (tk_seal k h q (body @ ty # replicate (nat pad) 0)) = Inr m" for h q
    using assms(2) unfolding masks_def by blast
  then show ?thesis
    using assms(4-9) unfolding encodeRecord_def Let_def
    by (auto simp: bind_ok_eq_Inr maxCIDLen_def not_less)
qed

subsection \<open>Probes and writes\<close>

text \<open>C32: A probe has exactly the size it announces.  Whenever the padding of a probe of \<open>d\<close> bytes is
  granted for a connection identifier and the overhead of the cipher, the padded challenge encodes,
  and its record is \<open>d\<close> bytes long.\<close>

theorem probe_size_exact:
  assumes "keys_ok k" "masks k" "6 \<le> aead_Overhead k" "2 \<le> epoch n" "length c \<le> 255" "length cookie = 8"
    and "rrcProbePadding d (int (length c)) (int (aead_Overhead k)) = Inr pad"
  shows "\<exists>packet. encodeRecord k n c contentRRC (pathChallenge # cookie) pad = Inr packet \<and> int (length packet) = d"
proof -
  have pad: "0 \<le> pad" "9 + pad \<le> int maxContent" "10 + pad + int (aead_Overhead k) \<le> int maxCiphertext"
      "d = datagramOverhead (int (length c)) (int (aead_Overhead k)) + 9 + pad"
    using assms(7) by (auto simp: rrcProbePadding_def rrcProbeOverhead_def rrcMessageLen_def rrcCookieLen_def Let_def split: if_splits)
  then have "10 + nat pad + aead_Overhead k \<le> maxCiphertext" by linarith
  with pad obtain packet where p: "encodeRecord k n c contentRRC (pathChallenge # cookie) pad = Inr packet"
    using encodeRecord_total [OF assms(1,2), of "pathChallenge # cookie" n c contentRRC pad] assms(3-6)
    by (auto simp: validContentType_def)
  then show ?thesis using encodeRecord_length [OF assms(1) p] pad assms(6) by simp
qed

theorem probe_size_exact_witness:
  "\<exists>packet. encodeRecord demo_keys \<lparr>epoch = 3, sequence = 0\<rparr> [7] contentRRC (pathChallenge # replicate 8 1) 1368 = Inr packet \<and>
     length packet = 1400"
  using probe_size_exact [of demo_keys "\<lparr>epoch = 3, sequence = 0\<rparr>" "[7]" "replicate 8 1" 1400 1368] demo_keys_ok demo_masks
  by (auto simp: demo_keys_def rrcProbePadding_def rrcProbeOverhead_def datagramOverhead_def rrcMessageLen_def rrcCookieLen_def
      record_consts)

text \<open>C10: The published datagram size is exact.  For a session that writes under a cipher with a 16-byte
  tag, a body the record layer could carry is handed to the transport in one record when it is no longer
  than \<open>datagramBudget\<close>, and is refused with \<open>errRecordOverflow\<close> without being sent when it is longer.\<close>

theorem write_fits:
  assumes "keys_ok k" "masks k" "aead_Overhead k = 16" "2 \<le> ep"
    and "map_of (ep_write (epochs s)) ep = Some w" "wk_keys w = Some k" "wk_sequence w < recordLimit k"
    and "length (peerCID (handshake s)) \<le> 255" "length body \<le> maxContent"
    and "datagramOverhead (int (if cidNegotiated (handshake s) then length (peerCID (handshake s)) else 0)) 16 \<le> effectiveMTU s"
  shows "if int (length body) \<le> datagramBudget s
    then \<exists>packet. tx_log (world (snd (sendRecord ep contentData body s))) = (None, packet) # tx_log (world s)
    else sendRecord ep contentData body s = (Inl errRecordOverflow, s)"
proof -
  define c where "c = (if cidNegotiated (handshake s) then peerCID (handshake s) else [])"
  have c: "length c \<le> 255" "int (length c) = int (if cidNegotiated (handshake s) then length (peerCID (handshake s)) else 0)"
    using assms(8) by (auto simp: c_def)
  obtain packet where p: "encodeRecord k \<lparr>epoch = ep, sequence = wk_sequence w\<rparr> c contentData body 0 = Inr packet"
    using encodeRecord_total [OF assms(1,2), of body "\<lparr>epoch = ep, sequence = wk_sequence w\<rparr>" c contentData 0] assms(3,4,9) c(1)
    by (auto simp: validContentType_def maxCiphertext_def)
  have len: "int (length packet) = datagramOverhead (int (length c)) 16 + int (length body)"
    using encodeRecord_length [OF assms(1) p] assms(3) by simp
  have ep: "ep \<noteq> 0" using assms(4) by auto
  have "int (length body) \<le> datagramBudget s \<longleftrightarrow> int (length packet) \<le> effectiveMTU s"
    using assms(9,10) unfolding len datagramBudget_def Let_def defaultAEADTag_def c(2) by auto
  moreover have "sendRecord ep contentData body s =
      (if effectiveMTU s < int (length packet) then (Inl errRecordOverflow, s)
       else andthen (transport_send None packet) (\<lambda>_. ok \<lparr>epoch = ep, sequence = wk_sequence w\<rparr>) (note_write ep w packet s))"
    using assms(5,6) assms(7) [folded not_le] p ep
    by (simp add: sendRecord_def sendRecordWith_def sendRecordLimited_def c_def Let_def)
  moreover have "tx_log (world (snd (andthen (transport_send None packet) (\<lambda>_. ok v) (note_write ep w packet s)))) =
      (None, packet) # tx_log (world s)" for v :: recordNumber
    by (auto simp: andthen_state transport_send_def ok_def note_write_def Let_def split: prod.split sum.split option.split)
  ultimately show ?thesis by (simp add: not_less)
qed

definition demo_writer :: "unit session" where
  "demo_writer = demo_admitted\<lparr>epochs := (epochs demo_admitted)
     \<lparr>ep_write := [(3, \<lparr>wk_keys = Some demo_keys, wk_secret = [], wk_sequence = 0\<rparr>)]\<rparr>\<rparr>"

lemma demo_writer_sel:
  "ep_write (epochs demo_writer) = [(3, \<lparr>wk_keys = Some demo_keys, wk_secret = [], wk_sequence = 0\<rparr>)]"
  "handshake demo_writer = demo_handshake" "effectiveMTU demo_writer = 1200" "tx_log (world demo_writer) = []"
  by (simp_all add: demo_writer_def demo_admitted_def demo_admitted_by_def newSession_def effectiveMTU_def mtuCeiling_def demo_handshake_def
      demo_config_def demo_world_def)

theorem write_fits_witness:
  "(\<exists>packet. tx_log (world (snd (sendRecord 3 contentData (replicate 1178 0) demo_writer))) = [(None, packet)]) \<and>
   sendRecord 3 contentData (replicate 1179 0) demo_writer = (Inl errRecordOverflow, demo_writer)"
proof -
  have b: "datagramBudget demo_writer = 1178"
    by (simp add: datagramBudget_def demo_writer_sel demo_handshake_def datagramOverhead_def record_consts Let_def defaultAEADTag_def)
  have "if int (length (replicate n (0::byte))) \<le> datagramBudget demo_writer
    then \<exists>packet. tx_log (world (snd (sendRecord 3 contentData (replicate n 0) demo_writer))) = (None, packet) # tx_log (world demo_writer)
    else sendRecord 3 contentData (replicate n 0) demo_writer = (Inl errRecordOverflow, demo_writer)" if "n \<le> 1200" for n
    by (rule write_fits [of demo_keys _ _ "\<lparr>wk_keys = Some demo_keys, wk_secret = [], wk_sequence = 0\<rparr>"])
       (use that in \<open>simp_all add: demo_writer_sel demo_keys_ok demo_masks demo_keys_sel demo_handshake_def datagramOverhead_def
          record_consts\<close>)
  from this [of 1178] this [of 1179] show ?thesis by (simp add: b demo_writer_sel)
qed

subsection \<open>The search\<close>

text \<open>C31: The search for a larger MTU is sound and ends.  On a path that carries exactly the datagrams of
  at most \<open>P\<close> bytes, the search from a working size ends after at most 24 probes with a size that the path
  carries and that is not below the working size; unless it used all its probes, it is
  within 20 bytes of \<open>P\<close>, or within 21 bytes of the ceiling it was given.\<close>

theorem mtu_search_sound:
  assumes "start \<le> P" "1 \<le> P" "f = search P (finder_init start ceil)"
  shows "max 1 start \<le> floor f \<and> floor f \<le> P \<and> nextSize f = 0 \<and> probes f \<le> 24 \<and>
    (probes f < 24 \<longrightarrow> P \<le> floor f + 20 \<or> max (max 1 start) ceil \<le> floor f + 21)"
proof -
  define c where "c = max (max 1 start) ceil"
  have i: "finder_ok P c (finder_init start ceil)" "probes (finder_init start ceil) = 0" "floor (finder_init start ceil) = max 1 start"
    using finder_init_ok [OF assms(1,2)] by (auto simp: c_def finder_init_def Let_def)
  have s: "finder_ok P c f" "max 1 start \<le> floor f" "finder_done f" "probes f \<le> 24"
    using search_spec [OF i(1)] i by (auto simp: assms(3) maxSearchProbes_def)
  then have "nextSize f = 0" using nextSize_zero by (simp add: finder_ok_def)
  moreover have "P \<le> floor f + 20 \<or> c \<le> floor f + 21" if "probes f < 24"
    using s(3) that finder_ok_ceiling [OF s(1)] by (auto simp: finder_done_def maxMTUDiff_def maxSearchProbes_def)
  ultimately show ?thesis using s by (auto simp: finder_ok_def c_def)
qed

theorem mtu_search_sound_witness:
  "floor (search 1300 (finder_init 1280 1340)) \<le> 1300 \<and> probes (search 1300 (finder_init 1280 1340)) < 24 \<and>
   1300 \<le> floor (search 1300 (finder_init 1280 1340)) + 20"
proof -
  have "probes (search 1300 (finder_init 1280 1340)) < 24" "\<not> 1340 \<le> floor (search 1300 (finder_init 1280 1340)) + 21"
    by code_simp+
  then show ?thesis using mtu_search_sound [of 1280 1300 _ 1340] by auto
qed

subsection \<open>Sizes along a run\<close>

definition keeps_config :: "'h session \<Rightarrow> bool" where
  "keeps_config s \<longleftrightarrow>
     (\<forall>handle. handleHandshake s = Some handle \<longrightarrow> (\<forall>m x. hs_config (snd (snd (handle m x))) = hs_config (snd x)))"

definition sizes_ok :: "int \<Rightarrow> 'h session \<Rightarrow> bool" where
  "sizes_ok M s \<longleftrightarrow>
     keeps_config s \<and> mtuCeiling s = M \<and> (pathMTU (working s) = 0 \<or> minPathMTU \<le> pathMTU (working s)) \<and>
     0 \<le> reductions (working s) \<and> reductions (working s) \<le> maxMTUReductions \<and>
     (\<forall>(d, p)\<in>set (tx_log (world s)). int (length p) \<le> M)"

definition sizes_kept :: "int \<Rightarrow> 'h session \<Rightarrow> 'h session \<Rightarrow> bool" where
  "sizes_kept M s s' \<longleftrightarrow> (sizes_ok M s \<longrightarrow> sizes_ok M s')"

definition same_sizes :: "'h session \<Rightarrow> 'h session \<Rightarrow> bool" where
  "same_sizes s s' \<longleftrightarrow>
     handleHandshake s' = handleHandshake s \<and> hs_config (handshake s') = hs_config (handshake s) \<and>
     pathMTU (working s') = pathMTU (working s) \<and> reductions (working s') = reductions (working s) \<and>
     tx_log (world s') = tx_log (world s)"

lemma sizes_kept_same: "same_sizes s s' \<Longrightarrow> sizes_kept M s s'"
  by (simp add: same_sizes_def sizes_kept_def sizes_ok_def keeps_config_def mtuCeiling_def)

lemma sizes_kept_trans: "sizes_kept M s t \<Longrightarrow> sizes_kept M t u \<Longrightarrow> sizes_kept M s u"
  by (simp add: sizes_kept_def)

lemma effectiveMTU_ceiling: "effectiveMTU s \<le> mtuCeiling s"
  by (simp add: effectiveMTU_def)

lemma sizes_kept_sendRecordLimited:
  assumes "hands_over send" "lim \<le> mtuCeiling s"
  shows "sizes_kept M s (snd (sendRecordLimited ep ty body c pad lim send s))"
proof (cases rule: sendRecordLimited_cases [of ep ty body c pad lim send s])
  case (refused e)
  then show ?thesis by (simp add: sizes_kept_def)
next
  case (sent w packet)
  define u where "u = note_write ep w packet s"
  define s' where "s' = snd (send packet u)"
  have st: "snd (sendRecordLimited ep ty body c pad lim send s) = s'"
    unfolding sent(5) s'_def u_def by (simp add: andthen_ok_state)
  have k: "handleHandshake s' = handleHandshake s" "hs_config (handshake s') = hs_config (handshake s)"
      "pathMTU (working s') = pathMTU (working s)" "reductions (working s') = reductions (working s)"
    using hands_over_keeps [OF assms(1), of packet u] by (simp_all add: s'_def u_def note_write_def)
  have "tx_log (world s') = tx_log (world s) \<or> (\<exists>d. tx_log (world s') = (d, packet) # tx_log (world s))"
    using hands_over_log [OF assms(1), of packet u] by (simp add: s'_def u_def note_write_def)
  then show ?thesis
    unfolding st using k sent(4) assms(2)
    by (auto simp: sizes_kept_def sizes_ok_def keeps_config_def mtuCeiling_def)
qed

lemma sizes_kept_reduce: "sizes_kept M s (snd (reduceHandshakeMTU n s))"
  by (auto simp: sizes_kept_def sizes_ok_def keeps_config_def reduceHandshakeMTU_def Let_def mtuCeiling_def
      minPathMTU_def)

lemma sizes_kept_working: "sizes_kept M s (setWorkingMTU n s)"
  by (auto simp: sizes_kept_def sizes_ok_def keeps_config_def setWorkingMTU_def Let_def mtuCeiling_def
      minPathMTU_def maxMTUReductions_def)

lemma hs_message_config: "hs_config (snd (hs_message ty ep body h)) = hs_config h"
  by (simp add: hs_message_def Let_def split: option.split sum.split)

interpretation siz: start_frame "sizes_kept M" for M
proof unfold_locales
  show "sizes_kept M s (snd (sendRecord ep ty body s))" for s :: "'h session" and ep ty body
    unfolding sendRecord_def sendRecordWith_def
    by (rule sizes_kept_sendRecordLimited [OF hands_over_transport effectiveMTU_ceiling])
  show "sizes_kept M s (snd (install_pair e c sv s))" if "e \<in> {2, 3}" for s :: "'h session" and e c sv
    by (rule sizes_kept_same) (simp add: same_sizes_def install_pair_def Let_def split: sum.split prod.split)
qed (rule sizes_kept_reduce | erule (1) sizes_kept_trans | rule sizes_kept_same, simp add: same_sizes_def hs_message_config)+

interpretation siz: full_frame "sizes_kept M" for M
proof unfold_locales
  fix s :: "'h session"
  show "sizes_kept M s (retire_handshake now s)" for now
    by (auto simp: sizes_kept_def sizes_ok_def keeps_config_def mtuCeiling_def retire_handshake_def
        discardHandshakeRead_def Let_def)
  have "sizes_kept M s (snd (switch_epoch s))" for s :: "'h session"
    by (rule sizes_kept_same) (simp add: same_sizes_def switch_epoch_def Let_def split: option.split sum.split)
  then show "sizes_kept M s (snd (rotate_keys now s))" for now
    by (rule siz.R_rotate_keys [rotated]) (rule sizes_kept_same, simp add: same_sizes_def)
  show "sizes_kept M s (snd (sendRecordLimited ep ty body c pad (mtuCeiling s) (exact_send sz) s))" for ep ty body c pad sz
    by (rule sizes_kept_sendRecordLimited [OF hands_over_exact order_refl])
  show "sizes_kept M s (snd (sendRecordWith ep contentRRC body c (send_limited d n) s))" for ep body c d n
    unfolding sendRecordWith_def by (rule sizes_kept_sendRecordLimited [OF hands_over_limited effectiveMTU_ceiling])
  show "sizes_kept M s (snd (call_setLocal ids s))" for ids
    by (rule sizes_kept_same) (auto simp: same_sizes_def call_setLocal_def Let_def split: prod.split option.split)
  show "sizes_kept M s (snd (run_handler m s))" for m
    by (auto simp: sizes_kept_def sizes_ok_def keeps_config_def mtuCeiling_def run_handler_def case_prod_unfold Let_def
        split: option.split)
qed (rule sizes_kept_reduce | rule sizes_kept_working | rule sizes_kept_same,
     simp add: same_sizes_def set_probe_def rand_Read_def discardHandshakeRead_def next_read_epoch_def
      move_peer_def restartMTUConfirm_def Let_def)+

interpretation siz: run_frame "sizes_kept M" for M
proof unfold_locales
  show "sizes_kept M s (snd (sendRecordWith ep contentAlert body c (transport_send (Some (peer (path_of s)))) s))"
    for s :: "'h session" and ep body c
    unfolding sendRecordWith_def by (rule sizes_kept_sendRecordLimited [OF hands_over_transport effectiveMTU_ceiling])
qed (rule sizes_kept_same, simp add: same_sizes_def)+

lemma sizes_ok_new:
  assumes "tx_log w = []" "\<forall>m x. hs_config (snd (snd (handle m x))) = hs_config (snd x)" "hs_config h = Some c"
  shows "sizes_ok (cfg_MTU c) (newSession h private handle C w)"
  using assms by (simp add: sizes_ok_def newSession_def keeps_config_def mtuCeiling_def maxMTUReductions_def)

lemma sizes_ok_initial:
  fixes s :: "'h session"
  assumes "initial_session h handle w s" "tx_log w = []"
    and "\<forall>m x. hs_config (snd (snd (handle m x))) = hs_config (snd x)" "hs_config h = Some c"
  shows "sizes_ok (cfg_MTU c) s"
  using assms(1)
proof cases
  case (client p C ms now)
  have "sizes_kept (cfg_MTU c) u (snd (startFlight ms now u))" for u :: "'h session" by (rule siz.R_startFlight)
  with sizes_ok_new [OF assms(2-4), of p C] client show ?thesis
    unfolding newClientSession_def sizes_kept_def by (metis snd_conv)
next
  case (server p C b m q)
  then show ?thesis
    using sizes_ok_new [OF assms(2-4), of p C]
    by (auto simp: admit_session_def newSession_def Let_def sizes_ok_def keeps_config_def mtuCeiling_def
        split: sum.splits prod.splits bool.splits)
qed

lemma sizes_ok_attach: "sizes_ok M (dr_session (attach s d)) = sizes_ok M s"
  by (simp add: sizes_ok_def attach_def keeps_config_def mtuCeiling_def)

lemma effectiveMTU_bounds:
  assumes "sizes_ok M s" "minPathMTU \<le> M"
  shows "minPathMTU \<le> effectiveMTU s" "effectiveMTU s \<le> M"
  using assms by (auto simp: sizes_ok_def effectiveMTU_def minPathMTU_def)

text \<open>C5: Datagrams respect the configured MTU.  With a handshake handler that leaves the configuration
  alone, no run of a connection hands the transport a datagram larger than the configured MTU, and its
  effective MTU stays between 256 bytes and that MTU whatever is acknowledged, lost or refused.\<close>

theorem mtu_respected:
  assumes "initial_session h handle w s" "tx_log w = []"
    and "\<forall>m x. hs_config (snd (snd (handle m x))) = hs_config (snd x)"
    and "hs_config h = Some c" "256 \<le> cfg_MTU c"
    and "driver_step\<^sup>*\<^sup>* (run_start now (attach s d)) (fl, d')"
  shows "(\<forall>(dest, packet)\<in>set (tx_log (world (dr_session d'))). int (length packet) \<le> cfg_MTU c) \<and>
    256 \<le> effectiveMTU (dr_session d') \<and> effectiveMTU (dr_session d') \<le> cfg_MTU c"
proof -
  have "sizes_kept (cfg_MTU c) (dr_session (attach s d)) (dr_session d')"
    using siz.R_trans [OF siz.R_run_start siz.R_driver [OF assms(6)]] by simp
  then have ok: "sizes_ok (cfg_MTU c) (dr_session d')"
    using sizes_ok_initial [OF assms(1-4)] by (simp add: sizes_kept_def sizes_ok_attach)
  then show ?thesis
    using effectiveMTU_bounds [OF ok] assms(5) by (simp add: sizes_ok_def minPathMTU_def)
qed

theorem mtu_respected_witness:
  "256 \<le> effectiveMTU (dr_session (snd (run_start 0 (attach demo_admitted demo_driver)))) \<and>
   list_all (\<lambda>(dest, packet). length packet \<le> 1200)
     (tx_log (world (dr_session (snd (run_start 0 (attach demo_admitted demo_driver))))))"
  using mtu_respected [OF demo_admitted_initial demo_world_log, of demo_config 0 demo_driver
      "fst (run_start 0 (attach demo_admitted demo_driver))" "snd (run_start 0 (attach demo_admitted demo_driver))"]
  by (auto simp: demo_handshake_def demo_reject_def demo_config_def list_all_iff)

end
