(* ===== verification/PathProps.thy ===== *)
theory PathProps
  imports SessionDemo
begin

text \<open>
  What path validation (\<open>path.go\<close>) guarantees in every run of a connection: an address that was never
  validated is sent at most three times what arrived from it, and the address the connection writes to
  is the validated peer.  The first is a potential argument: what was sent to the address, the credit
  of its probe and three times the bytes queued from it grow only with an arrival.
\<close>

subsection \<open>What an address was sent and is owed\<close>

definition sent_to :: "addrPort \<Rightarrow> 'h session \<Rightarrow> nat" where
  "sent_to a s =
     sum_list (map (\<lambda>(d, p). case d of Some q \<Rightarrow> if remote q = a then length p else 0 | None \<Rightarrow> 0) (tx_log (world s)))"

definition owed :: "addrPort \<Rightarrow> 'h session \<Rightarrow> nat" where
  "owed a s =
     (case path s of
        Some p \<Rightarrow> (case probe p of Some pr \<Rightarrow> if remote (candidate pr) = a then credit pr else 0 | None \<Rightarrow> 0)
      | None \<Rightarrow> 0)"

definition unvalidated :: "addrPort \<Rightarrow> 'h session \<Rightarrow> bool" where
  "unvalidated a s = (case path s of Some p \<Rightarrow> remote (peer p) \<noteq> a | None \<Rightarrow> False)"

definition silent :: "addrPort \<Rightarrow> 'h session \<Rightarrow> 'h session \<Rightarrow> bool" where
  "silent a s s' \<longleftrightarrow> path s' = path s \<and> sent_to a s' = sent_to a s"

definition spends :: "addrPort \<Rightarrow> nat \<Rightarrow> 'h session \<Rightarrow> 'h session \<Rightarrow> bool" where
  "spends a k s s' \<longleftrightarrow>
     (unvalidated a s' \<longleftrightarrow> unvalidated a s) \<and> (unvalidated a s \<longrightarrow> sent_to a s' + owed a s' \<le> sent_to a s + owed a s + k)"

abbreviation quiet :: "addrPort \<Rightarrow> 'h session \<Rightarrow> 'h session \<Rightarrow> bool" where
  "quiet a \<equiv> spends a 0"

lemma silent_quiet: "silent a s s' \<Longrightarrow> quiet a s s'"
  by (simp add: silent_def spends_def owed_def unvalidated_def)

lemma spends_trans: "spends a k s t \<Longrightarrow> spends a l t u \<Longrightarrow> spends a (k + l) s u"
  by (auto simp: spends_def)

lemma spends_refl: "spends a k s s"
  by (simp add: spends_def)

lemma silent_log: "path s' = path s \<and> tx_log (world s') = tx_log (world s) \<Longrightarrow> silent a s s'"
  by (simp add: silent_def sent_to_def)

lemmas quiet_log = silent_quiet [OF silent_log]

lemma silent_transport: "silent a s (snd (transport_send None p s))"
  by (simp add: silent_def sent_to_def transport_send_def Let_def split: prod.split)

lemma silent_note: "silent a s (note_write ep w packet s)"
  by (rule silent_log) (simp add: note_write_def)

lemma silent_preorder: "reflp (silent a)" "transp (silent a)"
  by (auto simp: silent_def reflp_def transp_def)

lemma silent_sendRecord: "silent a s (snd (sendRecord ep ty body s))"
  by (rule sendRecord_within [OF silent_preorder silent_note silent_transport])

interpretation qu: start_frame "quiet a" for a
proof unfold_locales
  fix s :: "'h session"
  show "quiet a s (snd (sendRecord ep ty body s))" for ep ty body
    by (rule silent_quiet [OF silent_sendRecord])
  show "quiet a s (snd (install_pair e c sv s))" if "e \<in> {2, 3}" for e c sv
    by (rule quiet_log) (simp add: install_pair_def Let_def split: sum.split prod.split)
  show "quiet a s u" if "quiet a s t" "quiet a t u" for t u
    using spends_trans [OF that] by simp
qed (rule spends_refl | rule quiet_log, simp add: reduceHandshakeMTU_def Let_def)+

interpretation qu: record_frame "quiet a" for a
proof unfold_locales
  fix s :: "'h session"
  have "quiet a s (snd (switch_epoch s))" for s :: "'h session"
    by (rule quiet_log) (simp add: switch_epoch_def Let_def split: option.split sum.split)
  then show "quiet a s (snd (rotate_keys now s))" for now
    by (rule qu.R_rotate_keys [rotated]) (rule quiet_log, simp)
  show "quiet a s (retire_handshake now s)" for now
    by (rule quiet_log) (simp add: retire_handshake_def discardHandshakeRead_def Let_def)
  show "quiet a s (snd (call_setLocal ids s))" for ids
    by (rule quiet_log) (simp add: call_setLocal_def Let_def split: prod.split option.split)
  show "quiet a s (snd (run_handler m s))" for m
    by (rule quiet_log) (simp add: run_handler_def case_prod_unfold Let_def split: option.split)
  show "quiet a s (set_probe (Some (pr\<lparr>pp_cid := c\<rparr>)) s)" if "path s = Some p" "probe p = Some pr" for p pr c
    using that by (simp add: spends_def set_probe_def owed_def unvalidated_def sent_to_def)
qed (rule quiet_log,
     simp add: rand_Read_def discardHandshakeRead_def next_read_epoch_def noteMTUActivity_def Let_def)+

interpretation si: mtu_frame "silent a" for a
proof unfold_locales
  fix s :: "'h session"
  show "silent a s (snd (sendRecordLimited ep ty body c pad (mtuCeiling s) (exact_send sz) s))" for ep ty body c pad sz
    by (rule sendRecordLimited_within [OF silent_preorder silent_note])
       (auto simp: exact_send_def fail_def silent_transport silent_log)
  show "silent a s u" if "silent a s t" "silent a t u" for t u
    using that by (simp add: silent_def)
qed (rule silent_log, simp add: reduceHandshakeMTU_def setWorkingMTU_def rand_Read_def Let_def)+

subsection \<open>Path validation\<close>

text \<open>A message to \<open>a\<close> is paid from the credit of the probe, or is covered by the limit given.\<close>

lemma spends_mono: "spends a k s s' \<Longrightarrow> k \<le> l \<Longrightarrow> spends a l s s'"
  by (auto simp: spends_def)

definition paid_by :: "addrPort \<Rightarrow> packetPath \<Rightarrow> nat \<Rightarrow> 'h session \<Rightarrow> nat" where
  "paid_by a d n s =
     (if remote d = a \<and> (case probe (path_of s) of Some pr \<Rightarrow> d \<noteq> candidate pr | None \<Rightarrow> True) then n else 0)"

lemma spends_transport: "remote d \<noteq> a \<or> \<not> unvalidated a s \<Longrightarrow> quiet a s (snd (transport_send (Some d) p s))"
  by (auto simp: spends_def sent_to_def owed_def unvalidated_def transport_send_def Let_def split: prod.split)

lemma spends_transport_limit: "length p \<le> k \<Longrightarrow> spends a k s (snd (transport_send (Some d) p s))"
  by (auto simp: spends_def sent_to_def owed_def unvalidated_def transport_send_def Let_def split: prod.split)

lemma spends_send_limited:
  assumes "path s = Some p" shows "spends a (paid_by a d n s) s (snd (send_limited d n packet s))"
proof (cases "remote d = remote (peer p)")
  case True
  then have "remote d \<noteq> a \<or> \<not> unvalidated a s" using assms by (auto simp: unvalidated_def)
  then have "quiet a s (snd (transport_send (Some d) packet s))" by (rule spends_transport)
  then show ?thesis using True assms by (auto simp: send_limited_def intro: spends_mono)
next
  case other: False
  show ?thesis
  proof (cases "\<exists>pr. probe p = Some pr \<and> d = candidate pr")
    case True
    then obtain pr where pr: "probe p = Some pr" "d = candidate pr" by blast
    define u where "u = set_probe (Some (pr\<lparr>credit := credit pr - length packet\<rparr>)) s"
    have "quiet a s (snd (transport_send (Some d) packet u))" if "length packet \<le> credit pr"
      using assms pr that
      by (auto simp: u_def set_probe_def spends_def sent_to_def owed_def unvalidated_def transport_send_def Let_def split: prod.split)
    then have "quiet a s (snd (send_limited d n packet s))"
      using other assms pr by (auto simp: send_limited_def spends_refl u_def not_less)
    then show ?thesis by (rule spends_mono) simp
  next
    case False
    have "spends a (paid_by a d n s) s (snd (transport_send (Some d) packet s))" if "length packet \<le> n"
    proof (cases "remote d = a")
      case True
      then have "paid_by a d n s = n" using False assms by (auto simp: paid_by_def split: option.split)
      then show ?thesis using spends_transport_limit [OF that] by simp
    next
      case ne: False
      then show ?thesis using spends_mono [OF spends_transport] by blast
    qed
    then show ?thesis
      using other False assms by (auto simp: send_limited_def spends_refl not_less split: option.split)
  qed
qed

lemma spends_sendRecordLimited:
  assumes "\<And>packet u. path u = path s \<Longrightarrow> spends a k u (snd (send packet u))"
  shows "spends a k s (snd (sendRecordLimited ep t body c pad lim send s))"
proof (cases rule: sendRecordLimited_cases [of ep t body c pad lim send s])
  case (refused e)
  then show ?thesis by (simp add: spends_refl)
next
  case (sent w packet)
  have "spends a (0 + k) s (snd (send packet (note_write ep w packet s)))"
    by (rule spends_trans [OF silent_quiet [OF silent_note] assms]) (simp add: note_write_def)
  then show ?thesis unfolding sent(5) by (simp add: andthen_ok_state)
qed

lemma spends_sendMessage:
  fixes s :: "'h session"
  assumes "path s = Some p" shows "spends a (paid_by a d n s) s (snd (sendMessage d ty cookie n s))"
proof -
  have "spends a (paid_by a d n s) u (snd (send_limited d n packet u))" if "path u = path s" for u :: "'h session" and packet
    using spends_send_limited [of u p a d n packet] that assms by (simp add: paid_by_def)
  then show ?thesis
    unfolding sendMessage_def sendRecordWith_def Let_def by (simp add: andthen_ok_state spends_sendRecordLimited)
qed

lemma quiet_set_probe:
  assumes "path s = Some p" "probe p = Some pr" "candidate pr' = candidate pr" "credit pr' = credit pr"
  shows "quiet a s (set_probe (Some pr') s)"
  using assms by (simp add: spends_def set_probe_def owed_def unvalidated_def sent_to_def)

lemma quiet_drop_probe: "path s \<noteq> None \<Longrightarrow> quiet a s (set_probe None s)"
  by (auto simp: spends_def set_probe_def owed_def unvalidated_def sent_to_def)

lemma rand_Read_path: "path (snd (rand_Read n s)) = path s"
  by (simp add: rand_Read_def Let_def)

lemma quiet_challenge:
  fixes s :: "'h session"
  assumes "path s = Some p" "probe p = Some pr"
  shows "quiet a s (snd (challenge now s))"
  unfolding challenge_def
proof (rule qu.R_andthen_at)
  show "quiet a s (snd (rand_Read 8 s))" by (rule quiet_log) (simp add: rand_Read_def Let_def)
  fix cookie and u :: "'h session" assume "rand_Read 8 s = (Inr cookie, u)"
  then have u: "path u = Some p" using rand_Read_path [of 8 s] assms(1) by simp
  have "quiet a u (snd (sendMessage d ty cookie 0 (set_probe (Some pr') u)))"
    if "candidate pr' = candidate pr" "credit pr' = credit pr" for d ty pr'
  proof -
    have "path (set_probe (Some pr') u) = Some (p\<lparr>probe := Some pr'\<rparr>)" using u by (simp add: set_probe_def)
    from spends_trans [OF quiet_set_probe [OF u assms(2) that] spends_sendMessage [OF this, of a d 0 ty cookie]]
    show ?thesis by (simp add: paid_by_def)
  qed
  then show "quiet a u (snd (let p = path_of u; pr = (the (probe p))\<lparr>pp_cookie := cookie\<rparr>;
           timeout0 = pathChallengeTimer (rtt u);
           (timeout, destination) =
             (if pp_phase pr = pathValidateCandidate then (max timeout0 initialPathChallenge, candidate pr)
              else (timeout0, peer p))
       in sendMessage destination pathChallenge cookie 0
            (set_probe (Some (pr\<lparr>pp_deadline := Some (now + timeout)\<rparr>)) u)))"
    by (simp add: Let_def u assms(2))
qed

lemma quiet_startBasic:
  assumes "path s = Some p" "probe p = Some pr"
  shows "quiet a s (snd (startBasic now s))"
proof -
  have "quiet a s (snd (challenge now ((set_probe (Some pr') s)\<lparr>cid := cs\<rparr>)))"
    if "candidate pr' = candidate pr" "credit pr' = credit pr" for pr' cs
  proof -
    have q: "quiet a s ((set_probe (Some pr') s)\<lparr>cid := cs\<rparr>)"
      using qu.R_trans [OF quiet_set_probe [OF assms that] qu.R_cid] .
    have "path ((set_probe (Some pr') s)\<lparr>cid := cs\<rparr>) = Some (p\<lparr>probe := Some pr'\<rparr>)" using assms(1) by (simp add: set_probe_def)
    from qu.R_trans [OF q quiet_challenge [OF this]] show ?thesis by simp
  qed
  note step = this
  have id: "set_probe x s = (set_probe x s)\<lparr>cid := cid s\<rparr>" for x by (simp add: set_probe_def)
  show ?thesis
    unfolding startBasic_def Let_def assms(1) option.sel assms(2)
    by (cases "peerSpare (cid s)") (simp_all add: step, subst id, simp add: step)
qed

lemma quiet_path_tick: "path s \<noteq> None \<Longrightarrow> quiet a s (snd (path_tick now s))"
  by (auto simp: path_tick_def spends_refl quiet_drop_probe quiet_startBasic split: option.split)

lemma spends_observe:
  assumes "path s = Some p"
  shows "spends a (if remote from = a \<and> ty \<noteq> contentRRC then 3 * n else 0) s (snd (observe from number ty n now s))"
proof -
  define newest where "newest \<longleftrightarrow> \<not> path_seen p \<or> recordAfter number (path_highest p)"
  define q where "q = (if newest then p\<lparr>path_highest := number, path_seen := True\<rparr> else p)"
  define u where "u = s\<lparr>path := Some q\<rparr>"
  have q: "peer q = peer p" "probe q = probe p" by (simp_all add: q_def)
  have u: "quiet a s u" "path u = Some q"
    using assms q by (simp_all add: u_def spends_def sent_to_def owed_def unvalidated_def)
  have s1: "(if newest then s\<lparr>path := Some (p\<lparr>path_highest := number, path_seen := True\<rparr>)\<rparr> else s) = u"
    using assms by (simp add: u_def q_def)
  have cr: "spends a (if remote from = a then 3 * n else 0) u
      (set_probe (Some (pr\<lparr>credit := min maxCredit (credit pr + 3 * n)\<rparr>)) u)" if "probe p = Some pr" "from = candidate pr" for pr
    using that q u(2) by (auto simp: spends_def set_probe_def owed_def unvalidated_def sent_to_def)
  have nw: "spends a (if remote from = a then 3 * n else 0) u (snd (challenge now (set_probe (Some (new_probe from (3 * n))) u)))"
    if "probe p = None"
  proof -
    have "spends a (if remote from = a then 3 * n else 0) u (set_probe (Some (new_probe from (3 * n))) u)"
      using that q u(2) by (simp add: spends_def set_probe_def owed_def unvalidated_def sent_to_def new_probe_def)
    moreover have "path (set_probe (Some (new_probe from (3 * n))) u) = Some (q\<lparr>probe := Some (new_probe from (3 * n))\<rparr>)"
      using u(2) by (simp add: set_probe_def)
    ultimately show ?thesis using spends_trans [OF _ quiet_challenge] by fastforce
  qed
  show ?thesis
    using spends_trans [OF u(1) cr] spends_trans [OF u(1) nw] u(1)
    unfolding observe_def Let_def assms option.sel newest_def [symmetric] s1
    by (auto intro: spends_mono split: option.split)
qed

text \<open>The peer moves only to the address a response came from, and the move sends nothing.\<close>

definition moves :: "packetPath \<Rightarrow> addrPort \<Rightarrow> 'h session \<Rightarrow> 'h session \<Rightarrow> bool" where
  "moves from a s s' \<longleftrightarrow> (unvalidated a s' \<longleftrightarrow> remote from \<noteq> a) \<and> sent_to a s' = sent_to a s \<and> owed a s' = 0"

lemma path_receive_spends:
  fixes s :: "'h session"
  assumes "path s = Some p" "k = (if remote from = a then 3 * n else 0)"
  shows "spends a k s (snd (path_receive from body n now s)) \<or> moves from a s (snd (path_receive from body n now s))"
proof (cases "length body = 9 \<and> hd body \<le> pathDrop")
  case False
  then have "snd (path_receive from body n now s) = s" by (auto simp: path_receive_def not_le)
  then show ?thesis by (simp add: spends_refl)
next
  case ok: True
  show ?thesis
  proof (cases "hd body = pathChallenge")
    case True
    define s1 where "s1 = (case probe p of
        Some pr \<Rightarrow> if from = candidate pr then set_probe (Some (pr\<lparr>credit := min maxCredit (credit pr + 3 * n)\<rparr>)) s else s
      | None \<Rightarrow> s)"
    define b where "b \<longleftrightarrow> (\<exists>pr. probe p = Some pr \<and> from = candidate pr)"
    have s1: "spends a (if b then k else 0) s s1"
      using assms(1) by (auto simp: s1_def b_def assms(2) spends_def set_probe_def owed_def unvalidated_def sent_to_def split: option.split)
    have "\<exists>p1. path s1 = Some p1 \<and> (b \<longleftrightarrow> (\<exists>pr. probe p1 = Some pr \<and> from = candidate pr))"
      using assms(1) by (cases "probe p") (simp_all add: s1_def b_def set_probe_def)
    then obtain p1 where p1: "path s1 = Some p1" "b \<longleftrightarrow> (\<exists>pr. probe p1 = Some pr \<and> from = candidate pr)" by blast
    have pay: "paid_by a from (3 * n) s1 = (if b then 0 else k)"
      using p1 by (auto simp: paid_by_def assms(2) split: option.split)
    have "spends a k s (snd (sendMessage from ty cookie (3 * n) s1))" for ty cookie
      using spends_trans [OF s1 spends_sendMessage [OF p1(1), of a "from" "3 * n" ty cookie]] unfolding pay by (cases b) simp_all
    then show ?thesis
      using ok True assms(1) unfolding path_receive_def Let_def by (simp add: s1_def [symmetric] not_less spends_refl)
  next
    case reply: False
    show ?thesis
    proof (cases "probe p")
      case None
      then show ?thesis using ok reply assms(1) by (simp add: path_receive_def spends_refl not_less)
    next
      case (Some pr)
      note quiet = quiet_startBasic [OF assms(1) Some, of a now] quiet_drop_probe [of s a]
      note sp = spends_mono [OF quiet(1), of "k"] spends_mono [OF quiet(2), of "k"]
      have "moves from a s (set_probe None (move_peer pr s))" if "from = candidate pr"
        using assms(1) that by (simp add: moves_def set_probe_def unvalidated_def sent_to_def owed_def move_peer_def restartMTUConfirm_def Let_def)
      then show ?thesis
        using ok reply assms(1) Some sp unfolding path_receive_def
        by (simp add: spends_refl not_less Let_def)
    qed
  qed
qed

subsection \<open>Datagrams from elsewhere and from the address itself\<close>

definition guarded :: "addrPort \<Rightarrow> 'h session \<Rightarrow> 'h session \<Rightarrow> bool" where
  "guarded a s s' \<longleftrightarrow> (unvalidated a s \<longrightarrow> unvalidated a s' \<and> sent_to a s' + owed a s' \<le> sent_to a s + owed a s)"

definition granted :: "addrPort \<Rightarrow> nat \<Rightarrow> 'h session \<Rightarrow> 'h session \<Rightarrow> bool" where
  "granted a k s s' \<longleftrightarrow> (unvalidated a s' \<longrightarrow> unvalidated a s \<and> sent_to a s' + owed a s' \<le> sent_to a s + owed a s + k)"

lemma quiet_guarded: "quiet a s s' \<Longrightarrow> guarded a s s'"
  by (simp add: spends_def guarded_def)

lemma spends_granted: "spends a k s s' \<Longrightarrow> granted a k s s'"
  by (simp add: spends_def granted_def)

lemma granted_trans: "granted a k s t \<Longrightarrow> granted a l t u \<Longrightarrow> granted a (k + l) s u"
  by (auto simp: granted_def)

lemma granted_mono: "granted a k s s' \<Longrightarrow> k \<le> l \<Longrightarrow> granted a l s s'"
  by (auto simp: granted_def)

lemma path_receive_guarded:
  assumes "path s \<noteq> None" "remote from \<noteq> a" shows "guarded a s (snd (path_receive from body n now s))"
  using assms path_receive_spends [OF _ refl, of s _ a "from" n body now]
  by (auto simp: spends_def moves_def guarded_def)

lemma path_receive_granted:
  assumes "path s \<noteq> None" "remote from = a" shows "granted a (3 * n) s (snd (path_receive from body n now s))"
  using assms path_receive_spends [OF _ refl, of s _ a "from" n body now]
  by (auto simp: spends_def moves_def granted_def)

lemmas quiet_steps = qu.R_refl qu.R_sendRecord qu.R_ack qu.R_reduce qu.R_outbound qu.R_post qu.R_rtt qu.R_install
  qu.R_message qu.R_hs_sequence qu.R_cid qu.R_keyUpdate qu.R_peerCID qu.R_probe_cid qu.R_rand qu.R_hook qu.R_discard
  qu.R_retire qu.R_rotate qu.R_next_read qu.R_reassembly qu.R_handler qu.R_read qu.R_closed qu.R_received qu.R_activity
  silent_quiet [OF si.R_onApplicationTooBig] silent_quiet [OF si.R_receiveMTUProbe] silent_quiet [OF si.R_tickMTUProbe]
  quiet_path_tick

interpretation gu: driver_frame "guarded a" "\<lambda>from. remote from \<noteq> a" for a
proof unfold_locales
  fix s :: "'h session"
  show "guarded a s u" if "guarded a s t" "guarded a t u" for t u
    using that by (auto simp: guarded_def)
  show "guarded a s (snd (observe from number ty n now s))" if "path s \<noteq> None" "remote from \<noteq> a" for "from" number ty n now
  proof -
    from that(1) obtain p where "path s = Some p" by blast
    from spends_observe [OF this, of a "from" ty n number now] that(2) show ?thesis by (simp add: quiet_guarded)
  qed
  show "guarded a s (snd (path_receive from body n now s))" if "path s \<noteq> None" "remote from \<noteq> a" for "from" body n now
    by (rule path_receive_guarded [OF that])
  show "guarded a s (snd (sendRecordWith ep contentAlert body c (transport_send (Some (peer (path_of s)))) s))" for ep body c
    unfolding sendRecordWith_def
    by (rule quiet_guarded, rule spends_sendRecordLimited, rule spends_transport) (auto simp: unvalidated_def split: option.splits)
qed (rule quiet_guarded, (erule quiet_steps, assumption | erule quiet_steps | rule quiet_steps | rule quiet_log, simp))+

lemma granted_andthen:
  assumes "granted a k s (snd (m s))" "\<And>x s'. m s = (Inr x, s') \<Longrightarrow> granted a l s' (snd (f x s'))"
  shows "granted a (k + l) s (snd (andthen m f s))"
proof -
  obtain r u where m: "m s = (r, u)" by fastforce
  show ?thesis
  proof (cases r)
    case (Inl e)
    then show ?thesis using assms(1) m granted_mono [of a k s u "k + l"] by (simp add: andthen_def)
  next
    case (Inr x)
    then have "granted a l u (snd (f x u))" using assms(2) m by blast
    then show ?thesis using granted_trans assms(1) m Inr by (fastforce simp: andthen_def)
  qed
qed

lemma granted_receive_record:
  fixes s :: "'h session"
  assumes "remote from = a"
  shows "granted a (3 * (length (rec_header r) + length (rec_body r))) s (snd (receive_record from now hasCID r s))"
proof -
  define n where "n = length (rec_header r) + length (rec_body r)"
  have rrc: "granted a (3 * n) u (snd (dispatch from now r number contentRRC body u))" for u :: "'h session" and number body
  proof -
    have "granted a (3 * n + 0) u (snd (andthen (path_receive from body n now)
        (\<lambda>_ s1. (Inr ([] :: byte list list), receiveMTUProbe from body now s1)) u))" if "path u \<noteq> None"
      using path_receive_granted [OF that assms]
      by (rule granted_andthen) (simp add: spends_granted [OF silent_quiet [OF si.R_receiveMTUProbe]])
    then show ?thesis by (simp add: dispatch_def record_consts n_def [symmetric] spends_granted spends_refl)
  qed
  have other: "granted a 0 u (snd (dispatch from now r number ty body u))" if "ty \<noteq> contentRRC"
    for u :: "'h session" and number ty body
    by (rule spends_granted [OF qu.R_dispatch_other [OF that]])
  have obs: "granted a (if ty = contentRRC then 0 else 3 * n) u (snd (if path u \<noteq> None \<and> hs_complete (handshake u) \<and> rec_encrypted r
      then observe from number ty n now u else (Inr (), u)))" for u :: "'h session" and number ty
    using spends_granted [OF spends_observe, of u _ a "from" ty n number now] assms
    by (auto simp: spends_granted spends_refl)
  have "granted a (3 * n) u (snd (andthen (\<lambda>s. if path s \<noteq> None \<and> hs_complete (handshake s) \<and> rec_encrypted r
      then observe from number ty n now s else (Inr (), s)) (\<lambda>_. dispatch from now r number ty body) u))"
    for u :: "'h session" and number ty body
  proof -
    define k l where "k = (if ty = contentRRC then 0 else 3 * n)" and "l = (if ty = contentRRC then 3 * n else 0)"
    have "granted a l v (snd (dispatch from now r number ty body v))" for v :: "'h session"
      using rrc [of v number body] other [of ty v number body] by (simp add: l_def)
    then have "granted a (k + l) u (snd (andthen (\<lambda>s. if path s \<noteq> None \<and> hs_complete (handshake s) \<and> rec_encrypted r
      then observe from number ty n now s else (Inr (), s)) (\<lambda>_. dispatch from now r number ty body) u))"
      using obs [of ty u number, folded k_def] by (intro granted_andthen)
    then show ?thesis by (simp add: k_def l_def split: if_splits)
  qed
  then have "granted a (0 + 3 * n) s (snd (receive_record from now hasCID r s))"
    unfolding receive_record_def n_def [symmetric]
    by (intro granted_andthen spends_granted [OF qu.R_openRecord]) (simp add: spends_granted spends_refl split: option.split prod.split)
  then show ?thesis by (simp add: n_def)
qed

definition record_bytes :: "dtls_record list \<Rightarrow> nat" where
  "record_bytes rs = sum_list (map (\<lambda>r. length (rec_header r) + length (rec_body r)) rs)"

lemma granted_receive_records:
  fixes s :: "'h session"
  shows "remote from = a \<Longrightarrow> granted a (3 * record_bytes rs) s (snd (receive_records from now hasCID rs s))"
proof (induction rs arbitrary: s)
  case (Cons r rs)
  have "granted a (3 * record_bytes rs + 0) u (snd (andthen (receive_records from now hasCID rs) (\<lambda>b. ok (x @ b)) u))"
    for u :: "'h session" and x
    using Cons by (intro granted_andthen) (simp_all add: ok_def spends_granted spends_refl)
  then have "granted a (3 * (length (rec_header r) + length (rec_body r)) + 3 * record_bytes rs) s
      (snd (receive_records from now hasCID (r # rs) s))"
    unfolding receive_records.simps by (intro granted_andthen granted_receive_record Cons.prems) simp
  then show ?case by (simp add: record_bytes_def algebra_simps)
qed (simp add: record_bytes_def spends_granted spends_refl)

lemma parseRecord_bytes:
  assumes "parseRecord d n = Inr (r, rest)"
  shows "length (rec_header r) + length (rec_body r) + length rest = length d"
  using assms
  by (auto simp: parseRecord_def parse_unified_def parse_plain_def Let_def segment_def split: if_splits)

lemma split_records_bytes: "split_records s d = Some (rs, b) \<Longrightarrow> record_bytes rs \<le> length d"
proof (induction s d arbitrary: rs b rule: split_records.induct)
  case (1 s d)
  show ?case
  proof (cases "d = []")
    case True
    then show ?thesis using 1(2) by (simp add: split_records.simps record_bytes_def)
  next
    case False
    then obtain r rest where p: "parseRecord d (int (length (localCID (handshake s)))) = Inr (r, rest)"
      "\<not> (rec_cid r \<noteq> [] \<and> \<not> acceptCID s (rec_cid r))"
      using 1(2) by (auto simp: split_records.simps [of s d] split: sum.splits if_splits)
    obtain rs' b' where q: "split_records s rest = Some (rs', b')" "rs = r # rs'"
      using 1(2) False p by (auto simp: split_records.simps [of s d] split: option.splits)
    show ?thesis
      using 1(1) [OF False p(1) refl p(2) q(1)] parseRecord_bytes [OF p(1)] q(2) by (simp add: record_bytes_def)
  qed
qed

lemma granted_receiveFrom:
  fixes s :: "'h session"
  assumes "remote from = a" shows "granted a (3 * length d) s (snd (receiveFrom d from now s))"
proof -
  define u where "u = expireHandshakeRead now s"
  have u: "quiet a s u" by (simp add: u_def qu.R_expireHandshakeRead)
  have u0: "granted a (3 * length d) s u" by (rule spends_granted [OF spends_mono [OF u]]) simp
  have fin: "granted a (3 * length d) s (snd (andthen (receive_records from now b rs) (\<lambda>application.
      andthen (advancePost now) (\<lambda>_.
      andthen (\<lambda>s. if hs_complete (handshake s) \<and> \<not> hs_client (handshake s) \<and> ack_pending (ack s) \<noteq> []
                    then sendACK s else (Inr (), s)) (\<lambda>_. ok application))) v))"
    if "quiet a s v" "record_bytes rs \<le> length d" for v b rs
  proof (rule granted_mono)
    show "granted a (0 + (3 * record_bytes rs + 0)) s (snd (andthen (receive_records from now b rs) (\<lambda>application.
      andthen (advancePost now) (\<lambda>_.
      andthen (\<lambda>s. if hs_complete (handshake s) \<and> \<not> hs_client (handshake s) \<and> ack_pending (ack s) \<noteq> []
                    then sendACK s else (Inr (), s)) (\<lambda>_. ok application))) v))"
      by (rule granted_trans [OF spends_granted [OF that(1)]])
         (rule granted_andthen, rule granted_receive_records [OF assms], rule spends_granted [OF qu.R_after_records])
  qed (use that(2) in simp)
  have st: "quiet a s (u\<lparr>handshakeReceived := t\<rparr>)" for t by (rule qu.R_trans [OF u qu.R_received])
  show ?thesis
    unfolding receiveFrom_def Let_def u_def [symmetric]
    by (auto simp: u0 fin [OF u split_records_bytes] fin [OF st split_records_bytes] split: option.split)
qed

subsection \<open>The driver\<close>

definition queued :: "addrPort \<Rightarrow> 'h driver \<Rightarrow> nat" where
  "queued a d = sum_list (map (\<lambda>(p, f). if f = a then length p else 0) (incoming d))"

definition load :: "addrPort \<Rightarrow> 'h driver \<Rightarrow> nat" where
  "load a d = sent_to a (dr_session d) + owed a (dr_session d) + 3 * queued a d"

text \<open>A run in which the path is never validated for \<open>a\<close>; \<open>n\<close> counts the bytes that arrived from there.\<close>

inductive unvalidated_run :: "addrPort \<Rightarrow> flow \<times> 'h driver \<Rightarrow> nat \<Rightarrow> flow \<times> 'h driver \<Rightarrow> bool" for a x where
  start: "unvalidated a (dr_session (snd x)) \<Longrightarrow> unvalidated_run a x 0 x"
| step: "unvalidated_run a x n y \<Longrightarrow> driver_step y z \<Longrightarrow> unvalidated a (dr_session (snd z)) \<Longrightarrow>
    unvalidated_run a x (n + (queued a (snd z) - queued a (snd y))) z"

text \<open>A packet taken from the queue pays three times its length.\<close>

lemma packet_load:
  assumes "unvalidated a (dr_session d)" "unvalidated a (dr_session (snd (receivePacket p now0 now d)))"
  shows "load a (snd (receivePacket p now0 now d)) \<le> load a d + (if snd p = a then 3 * length (fst p) else 0)"
proof (cases "snd p = a")
  case False
  then have "guarded a (dr_session d) (dr_session (snd (receivePacket p now0 now d)))"
    using gu.R_receivePacket [of p a d now0 now] by simp
  then show ?thesis using assms False by (simp add: guarded_def load_def queued_def)
next
  case True
  define k where "k = 3 * length (fst p)"
  obtain r s where q: "receiveFrom (fst p) \<lparr>remote = snd p, local_id = 1\<rparr> now (dr_session d) = (r, s)" by fastforce
  then have s: "granted a k (dr_session d) s"
    using granted_receiveFrom [of "\<lparr>remote = snd p, local_id = 1\<rparr>" a "fst p" "dr_session d" now] True by (simp add: k_def)
  have alert: "granted a k (dr_session d) (snd (sendRecord ep ty body s))" for ep ty body
    using granted_trans [OF s spends_granted [OF qu.R_sendRecord]] by simp
  have "granted a k (dr_session d) (dr_session d)" by (simp add: granted_def)
  then have "granted a k (dr_session d) (dr_session (snd (receivePacket p now0 now d)))"
    using s alert by (simp add: receivePacket_def Let_def q send_alert_def split: sum.split)
  then show ?thesis using assms True by (simp add: granted_def load_def queued_def k_def)
qed

lemma load_guarded:
  "guarded a (dr_session d) (dr_session d') \<Longrightarrow> unvalidated a (dr_session d) \<Longrightarrow> queued a d' \<le> queued a d \<Longrightarrow> load a d' \<le> load a d"
  by (simp add: guarded_def load_def)

lemma load_take:
  assumes "incoming d = p # rest" "dr_session d1 = dr_session d" "incoming d1 = rest"
  shows "load a d1 + (if snd p = a then 3 * length (fst p) else 0) = load a d"
  using assms by (simp add: load_def queued_def case_prod_unfold)

lemma drain_load:
  assumes "unvalidated a (dr_session d)" "unvalidated a (dr_session (snd (drain_round now0 now since d)))"
  shows "load a (snd (drain_round now0 now since d)) \<le> load a d"
proof -
  define d0 where "d0 = (if queuedBeforeTimeout d < 0 then d\<lparr>queuedBeforeTimeout := int (length (incoming d))\<rparr> else d)"
  have d0: "dr_session d0 = dr_session d" "incoming d0 = incoming d" by (simp_all add: d0_def)
  show ?thesis
  proof (cases "queuedBeforeTimeout d0 = 0 \<or> incoming d = []")
    case True
    then show ?thesis by (auto simp: drain_round_def Let_def d0_def [symmetric] d0 load_def queued_def)
  next
    case False
    then obtain p rest where p: "incoming d = p # rest" by (cases "incoming d") auto
    define d1 where "d1 = d0\<lparr>incoming := rest, queuedBeforeTimeout := queuedBeforeTimeout d0 - 1\<rparr>"
    have d1: "dr_session d1 = dr_session d" "incoming d1 = rest" by (simp_all add: d1_def d0)
    define d2 where "d2 = snd (receivePacket p now0 now d1)"
    have same: "dr_session (snd (drain_round now0 now since d)) = dr_session d2" "incoming (snd (drain_round now0 now since d)) = incoming d2"
      using False p by (auto simp: drain_round_def Let_def d0_def [symmetric] d0 d1_def [symmetric] d2_def case_prod_unfold)
    then have "load a (snd (drain_round now0 now since d)) = load a d2" by (simp add: load_def queued_def)
    also have "\<dots> \<le> load a d"
      using packet_load [of a d1 p now0 now] assms same load_take [OF p d1] by (simp add: d1 d2_def)
    finally show ?thesis .
  qed
qed

lemma step_load:
  "driver_step x y \<Longrightarrow> unvalidated a (dr_session (snd x)) \<Longrightarrow> unvalidated a (dr_session (snd y)) \<Longrightarrow>
   load a (snd y) \<le> load a (snd x) + 3 * (queued a (snd y) - queued a (snd x))"
proof (induction rule: driver_step.induct)
  case (round d now now0 now' configured accept cancelled)
  have t: "load a (snd (tick_round now configured accept cancelled wait d)) \<le> load a d" for wait
    using round by (intro load_guarded [OF gu.R_tick_round]) (simp_all add: queued_def)
  have "load a (snd (run_round now now0 now' configured accept cancelled d)) \<le> load a d"
    using round t drain_load [of a d now0 now'] unfolding run_round_def
    by (auto simp: load_def queued_def split: option.splits if_splits)
  then show ?case by simp
next
  case (packet d p rest now0 now' going d' dl)
  then show ?case
    using packet_load [of a "d\<lparr>incoming := rest\<rparr>" p now0 now'] load_take [OF packet(1), of "d\<lparr>incoming := rest\<rparr>" a] by simp
next
  case (teardown d)
  have "load a (Driver.teardown d) \<le> load a d"
    using teardown by (intro load_guarded [OF gu.R_teardown]) (simp_all add: queued_def Driver.teardown_def Let_def)
  then show ?case by simp
next
  case (arrive fl d data f)
  have "queued a d \<le> queued a (deliver data f d)"
    by (simp add: deliver_def queued_def split: prod.split bool.split)
  then show ?case by (simp add: load_def)
next
  case (outcomes fl d rs bs hs)
  then show ?case by (simp add: load_def queued_def sent_to_def owed_def)
qed (simp_all add: load_def queued_def)

lemma run_load:
  "unvalidated_run a x n y \<Longrightarrow> unvalidated a (dr_session (snd y)) \<and> load a (snd y) \<le> load a (snd x) + 3 * n"
proof (induction rule: unvalidated_run.induct)
  case (step n y z)
  then show ?case using step_load [of y z a] by auto
qed simp

lemma start_load:
  assumes "a \<noteq> remote0 d" shows "load a (snd (run_start now (attach s d))) \<le> sent_to a s + 3 * queued a d"
proof -
  have "incoming (attach s d) = incoming d" by (simp add: attach_def)
  moreover have "unvalidated a (dr_session (attach s d))" "sent_to a (dr_session (attach s d)) = sent_to a s" "owed a (dr_session (attach s d)) = 0"
    using assms by (auto simp: attach_def unvalidated_def sent_to_def owed_def)
  ultimately show ?thesis
    using load_guarded [OF gu.R_run_start, of a "attach s d" now] by (simp add: load_def queued_def)
qed

text \<open>C2: Path validation does not amplify.  In a run of a connection in which the path never moves to the
  address \<open>a\<close>, and whose peer was another address to start with, the bytes sent to \<open>a\<close> are at most three
  times the bytes that arrived from \<open>a\<close>, whatever else arrives, is sent, lost or times out.\<close>

theorem anti_amplification:
  assumes "a \<noteq> remote0 d" "unvalidated_run a (run_start now (attach s d)) n (fl, d')"
  shows "sent_to a (dr_session d') \<le> sent_to a s + 3 * (queued a d + n)"
  using run_load [OF assms(2)] start_load [OF assms(1), of now s] by (simp add: load_def)

theorem anti_amplification_witness:
  "\<exists>d'. unvalidated_run demo_other (run_start 0 (attach demo_idle demo_driver)) 5 (Top, d') \<and>
     queued demo_other d' = 5 \<and> sent_to demo_other (dr_session d') \<le> 15"
proof -
  define x where "x = run_start 0 (attach demo_idle demo_driver)"
  define d' where "d' = deliver [1, 2, 3, 4, 5] demo_other (snd x)"
  have ne: "demo_other \<noteq> remote0 demo_driver" by (simp add: demo_other_def demo_driver_def newConn_def)
  have q: "queued demo_other d' = 5" "queued demo_other (snd x) = 0"
    using demo_idle_start by (simp_all add: d'_def x_def deliver_def reserve_def maxQueuedRecords_def maxIncomingBytes_def flightBurst_def queued_def)
  have u: "unvalidated demo_other (dr_session (snd x))"
    using gu.R_run_start [of demo_other "attach demo_idle demo_driver" 0] ne
    by (auto simp: x_def guarded_def unvalidated_def attach_def)
  have x: "x = (Top, snd x)" using demo_idle_start(1) by (metis x_def prod.collapse)
  have "driver_step x (Top, d')" unfolding d'_def by (subst x) (rule driver_step.arrive)
  then have "unvalidated_run demo_other x (0 + (queued demo_other (snd (Top, d')) - queued demo_other (snd x))) (Top, d')"
    using u by (intro unvalidated_run.step [OF unvalidated_run.start]) (simp_all add: d'_def)
  then have r: "unvalidated_run demo_other x 5 (Top, d')" by (simp add: q)
  have "sent_to demo_other demo_idle = 0" "queued demo_other demo_driver = 0"
    by (simp_all add: sent_to_def demo_idle_def newSession_def demo_world_def queued_def demo_driver_def newConn_def)
  with anti_amplification [OF ne r [unfolded x_def]] r q show ?thesis by (auto simp: x_def)
qed

subsection \<open>The address written to\<close>

definition agreed :: "addrPort \<Rightarrow> 'h session \<Rightarrow> bool" where
  "agreed r s \<longleftrightarrow> (\<exists>p. path s = Some p \<and> has_changed p \<and>
     remote (peer p) = (case path_changes (world s) of [] \<Rightarrow> r | q # _ \<Rightarrow> remote q))"

definition agree_kept :: "addrPort \<Rightarrow> 'h session \<Rightarrow> 'h session \<Rightarrow> bool" where
  "agree_kept r s s' \<longleftrightarrow> (agreed r s \<longrightarrow> agreed r s')"

lemma agree_same: "path s' = path s \<and> path_changes (world s') = path_changes (world s) \<Longrightarrow> agree_kept r s s'"
  by (simp add: agree_kept_def agreed_def)

lemma agree_sendRecordLimited:
  assumes "\<And>u p. path_changes (world (snd (send p u))) = path_changes (world u) \<and>
      (path u \<noteq> None \<longrightarrow> (\<exists>q. path (snd (send p u)) = Some q \<and> peer q = peer (path_of u) \<and> has_changed q = has_changed (path_of u)))"
  shows "agree_kept r s (snd (sendRecordLimited ep ty body c pad lim send s))"
proof (rule sendRecordLimited_within)
  show "agree_kept r u (snd (send p u))" for u p
    using assms [of p u] by (auto simp: agree_kept_def agreed_def)
qed (auto simp: reflp_def transp_def agree_kept_def agreed_def note_write_def)

lemma transport_send_path: "path (snd (transport_send d p u)) = path u \<and> path_changes (world (snd (transport_send d p u))) = path_changes (world u)"
  by (simp add: transport_send_def Let_def split: prod.split)

lemma agree_plain: "agree_kept r s (snd (sendRecordLimited ep ty body c pad lim (transport_send d) s))"
  by (rule agree_sendRecordLimited) (auto simp: transport_send_path)

interpretation agr: start_frame "agree_kept r" for r
proof unfold_locales
  fix s :: "'h session"
  show "agree_kept r s (snd (sendRecord ep ty body s))" for ep ty body
    unfolding sendRecord_def sendRecordWith_def by (rule agree_plain)
  show "agree_kept r s (snd (install_pair e c sv s))" if "e \<in> {2, 3}" for e c sv
    by (rule agree_same) (simp add: install_pair_def Let_def split: sum.split prod.split)
qed (simp_all add: agree_kept_def, (simp_all add: agreed_def reduceHandshakeMTU_def Let_def)?)

interpretation agr: full_frame "agree_kept r" for r
proof unfold_locales
  fix s :: "'h session"
  have "agree_kept r s (snd (switch_epoch s))" for s :: "'h session"
    by (rule agree_same) (simp add: switch_epoch_def Let_def split: option.split sum.split)
  then show "agree_kept r s (snd (rotate_keys now s))" for now
    by (rule agr.R_rotate_keys [rotated]) (rule agree_same, simp)
  show "agree_kept r s (retire_handshake now s)" for now
    by (rule agree_same) (simp add: retire_handshake_def discardHandshakeRead_def Let_def)
  show "agree_kept r s (snd (call_setLocal ids s))" for ids
    by (rule agree_same) (simp add: call_setLocal_def Let_def split: prod.split option.split)
  show "agree_kept r s (snd (run_handler m s))" for m
    by (rule agree_same) (simp add: run_handler_def case_prod_unfold Let_def split: option.split)
  show "agree_kept r s (set_probe (Some (pr\<lparr>pp_cid := c\<rparr>)) s)" for pr c
    by (auto simp: agree_kept_def agreed_def set_probe_def)
  show "agree_kept r s (s\<lparr>path := Some p\<rparr>)" if "peer p = peer (path_of s)" "has_changed p = has_changed (path_of s)" for p
    using that by (auto simp: agree_kept_def agreed_def)
  show "agree_kept r s (move_peer pr s)" for pr
    by (auto simp: agree_kept_def agreed_def move_peer_def restartMTUConfirm_def Let_def)
  show "agree_kept r s (snd (sendRecordLimited ep ty body c pad (mtuCeiling s) (exact_send sz) s))" for ep ty body c pad sz
    by (rule agree_sendRecordLimited) (auto simp: exact_send_def fail_def transport_send_path)
  show "agree_kept r s (snd (sendRecordWith ep contentRRC body c (send_limited d n) s))" for ep body c d n
    unfolding sendRecordWith_def
    by (rule agree_sendRecordLimited) (auto simp: send_limited_def Let_def set_probe_def transport_send_path split: option.split)
qed (rule agree_same, simp add: rand_Read_def discardHandshakeRead_def next_read_epoch_def reduceHandshakeMTU_def
      setWorkingMTU_def Let_def)+

interpretation agr: run_frame "agree_kept r" for r
proof unfold_locales
  show "agree_kept r s (snd (sendRecordWith ep contentAlert body c (transport_send (Some (peer (path_of s)))) s))"
    for s :: "'h session" and ep body c
    unfolding sendRecordWith_def by (rule agree_plain)
qed (rule agree_same, simp)+

definition same_changes :: "'h session \<Rightarrow> 'h session \<Rightarrow> bool" where
  "same_changes s s' \<longleftrightarrow> path_changes (world s') = path_changes (world s)"

interpretation chg: start_frame same_changes
proof unfold_locales
  fix s :: "'h session"
  show "same_changes s (snd (sendRecord ep ty body s))" for ep ty body
    by (rule sendRecord_within) (auto simp: reflp_def transp_def same_changes_def note_write_def transport_send_path)
qed (simp_all add: same_changes_def install_pair_def reduceHandshakeMTU_def Let_def split: sum.split prod.split)

lemma newSession_world: "world (newSession h private handle C w) = w"
  by (simp add: newSession_def)

lemma path_changes_initial:
  assumes "initial_session h handle w s" shows "path_changes (world s) = path_changes w"
  using assms
proof cases
  case (client p C ms now)
  have "same_changes u (snd (startFlight ms now u))" for u :: "'a session" by (rule chg.R_startFlight)
  with client show ?thesis unfolding newClientSession_def same_changes_def by (metis snd_conv newSession_world)
next
  case (server p C b m q)
  then show ?thesis by (auto simp: admit_session_def newSession_def Let_def split: sum.splits prod.splits bool.splits)
qed

text \<open>C9: The address a connection reports and writes its records to is the remote address of the peer of its
  path in every state of every run: it moves exactly when path validation moves the peer.\<close>

theorem remote_is_peer:
  assumes "initial_session h handle w s" "path_changes w = []"
    and "driver_step\<^sup>*\<^sup>* (run_start now (attach s d)) (fl, d')"
  shows "\<exists>p. path (dr_session d') = Some p \<and> shared_remote d' = remote (peer p)"
proof -
  have "path_changes (world s) = []" using path_changes_initial [OF assms(1)] assms(2) by simp
  then have "agreed (remote0 d) (dr_session (attach s d))" by (simp add: agreed_def attach_def)
  moreover have "agree_kept (remote0 d) (dr_session (attach s d)) (dr_session d')"
    using agr.R_trans [OF agr.R_run_start agr.R_driver [OF assms(3)]] by simp
  moreover have "remote0 d' = remote0 d" using keeps_run [OF assms(3)] by (simp add: attach_def)
  ultimately show ?thesis by (auto simp: agree_kept_def agreed_def shared_remote_def split: list.split)
qed

theorem remote_is_peer_witness:
  "\<exists>p. path (dr_session (snd (run_start 0 (attach demo_admitted demo_driver)))) = Some p \<and>
     shared_remote (snd (run_start 0 (attach demo_admitted demo_driver))) = remote (peer p)"
  using remote_is_peer [OF demo_admitted_initial, of 0 demo_driver
      "fst (run_start 0 (attach demo_admitted demo_driver))" "snd (run_start 0 (attach demo_admitted demo_driver))"]
  by (simp add: demo_world_def)

end
