(* ===== verification/NetAddr.thy ===== *)
theory NetAddr
  imports GoStrings
begin

text \<open>
  The part of Go's \<open>net\<close>, \<open>net/netip\<close> and \<open>strconv\<close> that the peer filters call: parsing and printing of IP
  addresses, their conversions and comparison, prefixes, \<open>SplitHostPort\<close> and \<open>Atoi\<close>.  A \<open>net.IP\<close> is a list of
  bytes, \<open>None\<close> for nil; a valid \<open>netip.Addr\<close> is of type \<open>ip_addr\<close>.
\<close>

unbundle bit_operations_syntax

subsection \<open>netip.Addr\<close>

datatype ip_addr = Addr4 "byte list" | Addr6 "byte list" string

definition v4InV6Prefix :: "byte list" where
  "v4InV6Prefix = replicate 10 0 @ [255, 255]"

fun Is6 :: "ip_addr \<Rightarrow> bool" where
  "Is6 (Addr4 b) = False"
| "Is6 (Addr6 b z) = True"

fun Unmap :: "ip_addr \<Rightarrow> ip_addr" where
  "Unmap (Addr4 b) = Addr4 b"
| "Unmap (Addr6 b z) = (if take 12 b = v4InV6Prefix then Addr4 (drop 12 b) else Addr6 b z)"

fun BitLen :: "ip_addr \<Rightarrow> nat" where
  "BitLen (Addr4 b) = 32"
| "BitLen (Addr6 b z) = 128"

fun Zone :: "ip_addr \<Rightarrow> string" where
  "Zone (Addr4 b) = []"
| "Zone (Addr6 b z) = z"

fun WithZone :: "ip_addr \<Rightarrow> string \<Rightarrow> ip_addr" where
  "WithZone (Addr4 b) zone = Addr4 b"
| "WithZone (Addr6 b z) zone = Addr6 b zone"

fun As16 :: "ip_addr \<Rightarrow> byte list" where
  "As16 (Addr4 b) = v4InV6Prefix @ b"
| "As16 (Addr6 b z) = b"

fun AsSlice :: "ip_addr \<Rightarrow> byte list" where
  "AsSlice (Addr4 b) = b"
| "AsSlice (Addr6 b z) = b"

definition AddrFromSlice :: "byte list \<Rightarrow> ip_addr option" where
  "AddrFromSlice b = (if length b = 4 then Some (Addr4 b) else if length b = 16 then Some (Addr6 b []) else None)"

subsection \<open>netip.ParseAddr\<close>

text \<open>\<open>parseIPv4Fields\<close>: \<open>first\<close> says that no byte was read yet, \<open>dot\<close> that the last one was a dot.\<close>

fun ipv4_fields :: "string \<Rightarrow> bool \<Rightarrow> bool \<Rightarrow> nat \<Rightarrow> nat \<Rightarrow> byte list \<Rightarrow> byte list option" where
  "ipv4_fields [] first dot val digLen fs = (if length fs < 3 then None else Some (fs @ [of_nat val]))"
| "ipv4_fields (c # cs) first dot val digLen fs =
     (if is_digit c then
        (if digLen = 1 \<and> val = 0 then None
         else let v = val * 10 + digit_val c in
              if 255 < v then None else ipv4_fields cs False False v (digLen + 1) fs)
      else if c = CHR ''.'' then
        (if first \<or> cs = [] \<or> dot \<or> length fs = 3 then None
         else ipv4_fields cs False True 0 0 (fs @ [of_nat val]))
      else None)"

definition parseIPv4 :: "string \<Rightarrow> byte list option" where
  "parseIPv4 s = ipv4_fields s True False 0 0 []"

text \<open>The hexadecimal digits of a group: their value, \<open>None\<close> for more than four, and the rest.\<close>

fun hex_group :: "string \<Rightarrow> nat \<Rightarrow> nat \<Rightarrow> (nat \<times> nat \<times> string) option" where
  "hex_group [] off acc = Some (off, acc, [])"
| "hex_group (c # cs) off acc =
     (case hex_val c of
        None \<Rightarrow> Some (off, acc, c # cs)
      | Some d \<Rightarrow> if 3 < off then None else hex_group cs (off + 1) (acc * 16 + d))"

text \<open>The loop of \<open>parseIPv6\<close>: \<open>ip\<close> are the bytes read so far, \<open>ellipsis\<close> the position of \<open>::\<close> in them.  The value is
  \<open>None\<close> for an error, or the bytes, the ellipsis and the text that is left.\<close>

function ipv6_groups :: "string \<Rightarrow> byte list \<Rightarrow> nat option \<Rightarrow> (byte list \<times> nat option \<times> string) option" where
  "ipv6_groups s ip ellipsis =
     (if 16 \<le> length ip then Some (ip, ellipsis, s)
      else case hex_group s 0 0 of
        None \<Rightarrow> None
      | Some (off, acc, rest) \<Rightarrow>
          if off = 0 then None
          else if rest \<noteq> [] \<and> hd rest = CHR ''.'' then
            (if ellipsis = None \<and> length ip \<noteq> 12 then None
             else if 16 < length ip + 4 then None
             else case parseIPv4 s of None \<Rightarrow> None | Some b \<Rightarrow> Some (ip @ b, ellipsis, []))
          else
            let ip1 = ip @ be_enc 2 acc in
            if rest = [] then Some (ip1, ellipsis, [])
            else if hd rest \<noteq> CHR '':'' then None
            else if length rest = 1 then None
            else
              let s1 = tl rest in
              if hd s1 = CHR '':'' then
                (if ellipsis \<noteq> None then None
                 else if tl s1 = [] then Some (ip1, Some (length ip1), [])
                 else ipv6_groups (tl s1) ip1 (Some (length ip1)))
              else ipv6_groups s1 ip1 ellipsis)"
  by pat_completeness auto
termination by (relation "measure (\<lambda>(s, ip, e). 16 - length ip)") auto

definition parseIPv6 :: "string \<Rightarrow> ip_addr option" where
  "parseIPv6 in' =
     (let (s0, zone, hasZone) = cut in' (CHR ''%'') in
      if hasZone \<and> zone = [] then None
      else
        let lead = has_prefix s0 ''::''; s = (if lead then drop 2 s0 else s0) in
        if lead \<and> s = [] then Some (Addr6 (replicate 16 0) zone)
        else case ipv6_groups s [] (if lead then Some 0 else None) of
          None \<Rightarrow> None
        | Some (ip, ellipsis, rest) \<Rightarrow>
            if rest \<noteq> [] then None
            else if length ip < 16 then
              (case ellipsis of
                 None \<Rightarrow> None
               | Some e \<Rightarrow> Some (Addr6 (take e ip @ replicate (16 - length ip) 0 @ drop e ip) zone))
            else if ellipsis \<noteq> None then None
            else Some (Addr6 ip zone))"

fun parse_kind :: "string \<Rightarrow> char option" where
  "parse_kind [] = None"
| "parse_kind (c # cs) = (if c = CHR ''.'' \<or> c = CHR '':'' \<or> c = CHR ''%'' then Some c else parse_kind cs)"

definition ParseAddr :: "string \<Rightarrow> ip_addr option" where
  "ParseAddr s =
     (case parse_kind s of
        Some c \<Rightarrow>
          if c = CHR ''.'' then map_option Addr4 (parseIPv4 s)
          else if c = CHR '':'' then parseIPv6 s else None
      | None \<Rightarrow> None)"

subsection \<open>net.IP\<close>

type_synonym net_IP = "byte list option"

definition To4 :: "net_IP \<Rightarrow> net_IP" where
  "To4 ip =
     (case ip of
        None \<Rightarrow> None
      | Some b \<Rightarrow> if length b = 4 then Some b
                  else if length b = 16 \<and> take 12 b = v4InV6Prefix then Some (drop 12 b) else None)"

definition To16 :: "net_IP \<Rightarrow> net_IP" where
  "To16 ip =
     (case ip of
        None \<Rightarrow> None
      | Some b \<Rightarrow> if length b = 4 then Some (v4InV6Prefix @ b) else if length b = 16 then Some b else None)"

definition IP_Equal :: "byte list \<Rightarrow> byte list \<Rightarrow> bool" where
  "IP_Equal a b \<longleftrightarrow>
     (if length a = length b then a = b
      else if length a = 4 \<and> length b = 16 then take 12 b = v4InV6Prefix \<and> a = drop 12 b
      else if length a = 16 \<and> length b = 4 then take 12 a = v4InV6Prefix \<and> drop 12 a = b
      else False)"

definition ParseIP :: "string \<Rightarrow> net_IP" where
  "ParseIP s = (case ParseAddr s of None \<Rightarrow> None | Some a \<Rightarrow> if Zone a \<noteq> [] then None else Some (As16 a))"

definition digit_char :: "nat \<Rightarrow> char" where
  "digit_char d = char_of (if d < 10 then 48 + d else 87 + d)"

fun digits_of :: "nat \<Rightarrow> nat \<Rightarrow> string" where
  "digits_of b n = (if b < 2 \<or> n < b then [digit_char n] else digits_of b (n div b) @ [digit_char (n mod b)])"

declare digits_of.simps [simp del]

fun join_text :: "string \<Rightarrow> string list \<Rightarrow> string" where
  "join_text sep [] = []"
| "join_text sep [x] = x"
| "join_text sep (x # y # ys) = x @ sep @ join_text sep (y # ys)"

definition ipv4_text :: "byte list \<Rightarrow> string" where
  "ipv4_text b = join_text ''.'' (map (\<lambda>x. digits_of 10 (unat x)) b)"

definition v6_groups :: "byte list \<Rightarrow> nat list" where
  "v6_groups b = map (\<lambda>i. be_dec (segment b (2 * i) (2 * i + 2))) [0..<8]"

text \<open>The longest run of at least two zero groups, the first of them if there are several.\<close>

definition zero_run :: "nat list \<Rightarrow> nat \<times> nat" where
  "zero_run gs =
     foldl (\<lambda>(st, en) i. let l = length (takeWhile (\<lambda>g. g = 0) (drop i gs))
                         in if 2 \<le> l \<and> en - st < l then (i, i + l) else (st, en))
       (255, 255) [0..<8]"

definition ipv6_text :: "byte list \<Rightarrow> string" where
  "ipv6_text b =
     (let gs = v6_groups b; (st, en) = zero_run gs; txt = map (digits_of 16) gs
      in if st = 255 then join_text '':'' txt
         else join_text '':'' (take st txt) @ ''::'' @ join_text '':'' (drop en txt))"

definition IP_String :: "byte list \<Rightarrow> string" where
  "IP_String b =
     (if b = [] then ''<nil>''
      else case To4 (Some b) of
        Some q \<Rightarrow> ipv4_text q
      | None \<Rightarrow> if length b = 16 then ipv6_text b
                else CHR ''?'' # concat (map (\<lambda>x. [digit_char (unat x div 16), digit_char (unat x mod 16)]) b))"

subsection \<open>Prefixes\<close>

definition word_of_bytes :: "byte list \<Rightarrow> 'a::len word" where
  "word_of_bytes b = word_rcat b"

definition high_mask :: "nat \<Rightarrow> nat \<Rightarrow> 'a::len word" where
  "high_mask width n = NOT (mask (width - n))"

text \<open>\<open>Prefix\<close> and \<open>Contains\<close> of IPv6 addresses without a zone.\<close>

definition prefix_contains6 :: "byte list \<Rightarrow> nat \<Rightarrow> byte list \<Rightarrow> bool" where
  "prefix_contains6 p bits' ip \<longleftrightarrow>
     (let m = high_mask 128 bits' :: 128 word
      in (word_of_bytes ip XOR (word_of_bytes p AND m)) AND m = 0)"

text \<open>\<open>net.CIDRMask\<close> and \<open>IPNet.Contains\<close>; a mask that \<open>CIDRMask\<close> refuses is nil and matches nothing.\<close>

fun cidr_bytes :: "nat \<Rightarrow> nat \<Rightarrow> byte list" where
  "cidr_bytes 0 n = []"
| "cidr_bytes (Suc l) n = (if 8 \<le> n then 255 # cidr_bytes l (n - 8) else NOT (drop_bit n 255) # cidr_bytes l 0)"

definition CIDRMask :: "nat \<Rightarrow> nat \<Rightarrow> byte list" where
  "CIDRMask ones w = (if w \<noteq> 32 \<and> w \<noteq> 128 \<or> w < ones then [] else cidr_bytes (w div 8) ones)"

definition IPNet_Contains :: "byte list \<Rightarrow> byte list \<Rightarrow> net_IP \<Rightarrow> bool" where
  "IPNet_Contains nip m0 ip0 \<longleftrightarrow>
     (let nn0 = (case To4 (Some nip) of Some q \<Rightarrow> q | None \<Rightarrow> if length nip = 16 then nip else []);
          (nn, m) = (if length m0 = 4 then (if length nn0 = 4 then (nn0, m0) else ([], []))
                     else if length m0 = 16 then (nn0, if length nn0 = 4 then drop 12 m0 else m0)
                     else ([], []));
          ip = (case To4 ip0 of Some q \<Rightarrow> q | None \<Rightarrow> (case ip0 of Some b \<Rightarrow> b | None \<Rightarrow> []))
      in length ip = length nn \<and> map2 (AND) nn m = map2 (AND) ip m)"

subsection \<open>net.SplitHostPort and strconv.Atoi\<close>

fun index_byte :: "string \<Rightarrow> char \<Rightarrow> nat option" where
  "index_byte [] c = None"
| "index_byte (x # xs) c = (if x = c then Some 0 else map_option Suc (index_byte xs c))"

fun last_index_byte :: "string \<Rightarrow> char \<Rightarrow> nat option" where
  "last_index_byte [] c = None"
| "last_index_byte (x # xs) c =
     (case last_index_byte xs c of Some i \<Rightarrow> Some (Suc i) | None \<Rightarrow> if x = c then Some 0 else None)"

definition SplitHostPort :: "string \<Rightarrow> (string \<times> string) option" where
  "SplitHostPort hostport =
     (case last_index_byte hostport (CHR '':'') of
        None \<Rightarrow> None
      | Some i \<Rightarrow>
          let bracketed = (hd hostport = CHR ''['');
              close = index_byte hostport (CHR '']'');
              fine = (if bracketed then close \<noteq> None \<and> the close + 1 = i
                      else index_byte (take i hostport) (CHR '':'') = None);
              host = (if bracketed then segment hostport 1 (the close) else take i hostport);
              j = (if bracketed then 1 else 0);
              k = (if bracketed then the close + 1 else 0)
          in if \<not> fine then None
             else if index_byte (drop j hostport) (CHR ''['') \<noteq> None then None
             else if index_byte (drop k hostport) (CHR '']'') \<noteq> None then None
             else Some (host, drop (i + 1) hostport))"

definition decimal :: "string \<Rightarrow> nat" where
  "decimal s = foldl (\<lambda>n c. n * 10 + digit_val c) 0 s"

definition Atoi :: "string \<Rightarrow> int option" where
  "Atoi s =
     (let neg = (s \<noteq> [] \<and> hd s = CHR ''-''); sgn = (s \<noteq> [] \<and> (hd s = CHR ''-'' \<or> hd s = CHR ''+''));
          ds = (if sgn then tl s else s); n = int (decimal ds)
      in if ds = [] \<or> \<not> list_all is_digit ds then None
         else if neg then (if n \<le> 2 ^ 63 then Some (- n) else None)
         else (if n < 2 ^ 63 then Some n else None))"

text \<open>The value \<open>Atoi\<close> returns beside an error: zero, or the nearest integer for a number out of range.\<close>

definition Atoi_value :: "string \<Rightarrow> int" where
  "Atoi_value s =
     (case Atoi s of
        Some n \<Rightarrow> n
      | None \<Rightarrow>
          let neg = (s \<noteq> [] \<and> hd s = CHR ''-''); sgn = (s \<noteq> [] \<and> (hd s = CHR ''-'' \<or> hd s = CHR ''+''));
              ds = (if sgn then tl s else s)
          in if ds = [] \<or> \<not> list_all is_digit ds then 0 else if neg then - (2 ^ 63) else 2 ^ 63 - 1)"

end
