(* ===== verification/HostsTable.thy ===== *)
theory HostsTable
  imports NetAddr
begin

text \<open>
  The tables of \<open>internal/xio/tcpwrap.go\<close>: reading a hosts.allow or hosts.deny file into logical lines, splitting
  a line into its daemon list, client list and options, and the verdict of the options.  A file that is
  being read is its remaining bytes and the error the reads end with, \<open>None\<close> for the end of the file; the
  user database of the host is an argument.  Warnings written to the log are left out.
\<close>

definition hostsAccessLineMax :: nat where
  "hostsAccessLineMax = 2046"

text \<open>\<open>HostsSyntax\<close> is \<open>hostsAccessSyntaxError\<close> with the token it quotes, \<open>LookupTimeout\<close> is \<open>hostsLookupError\<close>,
  \<open>ContextError\<close> the cancellation of the session.\<close>

datatype wrap_error = HostsSyntax string | MissingColon string | LookupTimeout | ContextError

type_synonym io_error = string

record reader =
  rd_rest :: string
  rd_error :: "io_error option"

record hostsTable =
  lines :: "string list"
  frame :: "wrap_error option"

datatype phys_error = PhysEOF | PhysIO io_error | PhysSyntax wrap_error

datatype accessVerdict = verdictNone | verdictPermit | verdictDeny

subsection \<open>Lines\<close>

fun read_physical :: "string \<Rightarrow> io_error option \<Rightarrow> string \<Rightarrow> (phys_error + string \<times> bool) \<times> string" where
  "read_physical [] e buf =
     (case e of
        None \<Rightarrow> if buf = [] then (Inl PhysEOF, []) else (Inr (buf, False), [])
      | Some x \<Rightarrow> (Inl (PhysIO x), []))"
| "read_physical (b # bs) e buf =
     (if b = CHR 0x0A then (Inr (buf, True), bs)
      else if b = CHR 0x00 then (Inl (PhysSyntax (HostsSyntax ''NUL in hosts_access line'')), bs)
      else if hostsAccessLineMax \<le> length buf then (Inl (PhysSyntax (HostsSyntax ''line too long'')), bs)
      else read_physical bs e (buf @ [b]))"

definition readHostsPhysical :: "reader \<Rightarrow> (phys_error + string \<times> bool) \<times> reader" where
  "readHostsPhysical br =
     (let (r, rest) = read_physical (rd_rest br) (rd_error br) [] in (r, br\<lparr>rd_rest := rest\<rparr>))"

lemma read_physical_shorter:
  "read_physical s e buf = (Inr (l, True), rest) \<Longrightarrow> length rest < length s"
  by (induction s e buf rule: read_physical.induct) (auto split: option.splits if_splits)

text \<open>The loop of \<open>parseHostsTable\<close>, over the lines read so far and the text of a line that is being continued.\<close>

function table_loop :: "reader \<Rightarrow> string list \<Rightarrow> string \<Rightarrow> bool \<Rightarrow> io_error + hostsTable" where
  "table_loop br ls pend continued =
     (case readHostsPhysical br of
        (Inl PhysEOF, _) \<Rightarrow>
          Inr \<lparr>lines = ls, frame = (if continued then Some (HostsSyntax ''continuation at end of file'') else None)\<rparr>
      | (Inl (PhysSyntax e), _) \<Rightarrow> Inr \<lparr>lines = ls, frame = Some e\<rparr>
      | (Inl (PhysIO e), _) \<Rightarrow> Inl e
      | (Inr (phys, hasNL), br1) \<Rightarrow>
          if \<not> hasNL then Inr \<lparr>lines = ls, frame = Some (HostsSyntax ''missing newline'')\<rparr>
          else if hostsAccessLineMax < length pend + length phys
          then Inr \<lparr>lines = ls, frame = Some (HostsSyntax ''line too long'')\<rparr>
          else if \<not> has_suffix phys [CHR 0x0D] \<and> has_suffix phys [CHR 0x5C]
          then table_loop br1 ls (pend @ butlast phys) True
          else
            let text = trim_suffix phys [CHR 0x0D] in
            table_loop br1 (ls @ [if continued then pend @ text else text])
              (if continued then [] else pend) False)"
  by pat_completeness auto
termination
  by (relation "measure (\<lambda>(br, ls, pend, continued). length (rd_rest br))")
     (auto simp: readHostsPhysical_def Let_def dest!: read_physical_shorter split: prod.splits)

declare table_loop.simps [simp del]

definition parseHostsTable :: "reader \<Rightarrow> io_error + hostsTable" where
  "parseHostsTable r = table_loop r [] [] False"

text \<open>\<open>open\<close> stands for \<open>os.Open\<close>: the file, or an error and whether it says that the file does not exist.\<close>

definition readHostsTable :: "(string \<Rightarrow> (io_error \<times> bool) + reader) \<Rightarrow> string \<Rightarrow> bool \<Rightarrow> (string \<times> io_error) + hostsTable" where
  "readHostsTable os_Open path required =
     (if path = [] then Inr \<lparr>lines = [], frame = None\<rparr>
      else case os_Open path of
        Inl (e, notExist) \<Rightarrow> if \<not> required \<and> notExist then Inr \<lparr>lines = [], frame = None\<rparr> else Inl (path, e)
      | Inr f \<Rightarrow> (case parseHostsTable f of Inl e \<Rightarrow> Inl (path, e) | Inr t \<Rightarrow> Inr t))"

subsection \<open>Rules\<close>

fun index_colon :: "bool \<Rightarrow> nat \<Rightarrow> string \<Rightarrow> nat option" where
  "index_colon esc depth [] = None"
| "index_colon esc depth (c # cs) =
     (if esc \<and> c = CHR 0x5C \<and> cs \<noteq> [] then (case cs of d # ds \<Rightarrow> map_option (\<lambda>i. i + 2) (index_colon esc depth ds) | [] \<Rightarrow> None)
      else if c = CHR ''['' then map_option Suc (index_colon esc (depth + 1) cs)
      else if c = CHR '']'' then map_option Suc (index_colon esc (depth - 1) cs)
      else if c = CHR '':'' \<and> depth = 0 then Some 0
      else map_option Suc (index_colon esc depth cs))"

definition indexHostsColon :: "string \<Rightarrow> bool \<Rightarrow> nat option" where
  "indexHostsColon s honorEscape = index_colon honorEscape 0 s"

fun option_field :: "string \<Rightarrow> string \<Rightarrow> string list" where
  "option_field [] b = [trim_space b]"
| "option_field (c # cs) b =
     (if c = CHR 0x5C \<and> cs \<noteq> [] \<and> hd cs = CHR '':'' then option_field (tl cs) (b @ [CHR '':''])
      else if c = CHR '':'' then trim_space b # option_field cs []
      else option_field cs (b @ [c]))"

definition splitOptionField :: "string \<Rightarrow> string list" where
  "splitOptionField raw = option_field raw []"

record hosts_rule =
  daemonList :: string
  clientList :: string
  rule_options :: "string list"
  hasOpt :: bool

definition splitHostsRule :: "string \<Rightarrow> wrap_error + hosts_rule" where
  "splitHostsRule line =
     (case indexHostsColon line False of
        None \<Rightarrow> Inl (MissingColon line)
      | Some dEnd \<Rightarrow>
          let dl = trim_space (take dEnd line); rest = drop (dEnd + 1) line in
          (case indexHostsColon rest False of
             None \<Rightarrow> Inr \<lparr>daemonList = dl, clientList = trim_space rest, rule_options = [], hasOpt = False\<rparr>
           | Some cEnd \<Rightarrow>
               Inr \<lparr>daemonList = dl, clientList = trim_space (take cEnd rest),
                    rule_options = splitOptionField (drop (cEnd + 1) rest), hasOpt = True\<rparr>))"

definition splitHostsList :: "string \<Rightarrow> string list" where
  "splitHostsList s =
     filter (\<lambda>f. f \<noteq> []) (map trim_space (GoStrings.fields (map (\<lambda>c. if c = CHR '','' then CHR '' '' else c) s)))"

subsection \<open>Options\<close>

text \<open>The loops over the runes of a value stop at the first one that is not a digit, so they are loops over bytes.\<close>

definition validNumber :: "string \<Rightarrow> bool \<Rightarrow> bool" where
  "validNumber value negative \<longleftrightarrow>
     (if value = [] then False
      else if negative \<and> hd value = CHR ''-'' then tl value \<noteq> [] \<and> list_all is_digit (tl value)
      else list_all is_digit value)"

fun positive_loop :: "string \<Rightarrow> nat \<Rightarrow> bool" where
  "positive_loop [] n = (0 < n)"
| "positive_loop (c # cs) n =
     (let m = n * 10 + digit_val c in if 1000000000 < m then True else positive_loop cs m)"

definition positiveDecimal :: "string \<Rightarrow> bool" where
  "positiveDecimal value \<longleftrightarrow> validNumber value False \<and> positive_loop value 0"

definition validUmask :: "string \<Rightarrow> bool" where
  "validUmask value \<longleftrightarrow>
     value \<noteq> [] \<and> length value \<le> 4 \<and> list_all (\<lambda>c. is_digit c \<and> digit_val c < 8) value \<and>
     foldl (\<lambda>n c. n * 8 + digit_val c) 0 value \<le> 511"

definition syslogLevel :: "string \<Rightarrow> bool" where
  "syslogLevel s \<longleftrightarrow>
     List.member [''emerg'', ''alert'', ''crit'', ''err'', ''warning'', ''notice'', ''info'', ''debug''] s"

definition syslogFacility :: "string \<Rightarrow> bool" where
  "syslogFacility s \<longleftrightarrow>
     List.member [''kern'', ''user'', ''mail'', ''daemon'', ''auth'', ''lpr'', ''news'', ''uucp'', ''cron''] s \<or>
     has_prefix s ''local'' \<and> length s = 6 \<and> is_digit (s ! 5) \<and> digit_val (s ! 5) < 8"

definition validSeverity :: "string \<Rightarrow> bool" where
  "validSeverity value0 =
     (let value = to_lower (trim_space value0) in
      if value = [] \<or> contains_byte value (CHR '' '') then False
      else let (fac, level, hasDot) = cut value (CHR ''.'')
           in if \<not> hasDot then syslogLevel value else syslogFacility fac \<and> syslogLevel level)"

fun option_key :: "string \<Rightarrow> string \<Rightarrow> string \<times> string" where
  "option_key acc [] = (acc, [])"
| "option_key acc (c # cs) =
     (if c = CHR ''='' then (acc, trim_space cs)
      else if c = CHR '' '' \<or> c = CHR 0x09 \<or> c = CHR 0x0A
      then (acc, trim_space (trim_prefix (trim_left cs [CHR '' '', CHR 0x09, CHR 0x0A]) ''=''))
      else option_key (acc @ [c]) cs)"

definition splitOptionKey :: "string \<Rightarrow> string \<times> string" where
  "splitOptionKey opt = option_key [] opt"

text \<open>The user and group databases of the host, \<open>user.Lookup\<close> and \<open>user.LookupGroup\<close>: whether the name is found.\<close>

record host_users =
  user_Lookup :: "string \<Rightarrow> bool"
  user_LookupGroup :: "string \<Rightarrow> bool"

definition validGroupOption :: "host_users \<Rightarrow> string \<Rightarrow> bool" where
  "validGroupOption u value0 =
     (let value = trim_space value0 in
      value \<noteq> [] \<and> \<not> contains_any value [CHR '' '', CHR 0x09] \<and> user_LookupGroup u value)"

definition validUserOption :: "host_users \<Rightarrow> string \<Rightarrow> bool" where
  "validUserOption u value =
     (let (name, grp, hasGroup) = cut (trim_space value) (CHR ''.'') in
      name \<noteq> [] \<and> user_Lookup u name \<and> (\<not> hasGroup \<or> validGroupOption u grp))"

text \<open>The checks of the options that are validated and then ignored; \<open>None\<close> for an option that is not known.\<close>

definition ignored_option :: "host_users \<Rightarrow> string \<Rightarrow> string \<Rightarrow> bool option" where
  "ignored_option u key value =
     (if key = ''spawn'' \<or> key = ''banners'' then Some (trim_space value \<noteq> [])
      else if key = ''keepalive'' then Some (value = [])
      else if key = ''severity'' then Some (validSeverity value)
      else if key = ''umask'' then Some (validUmask value)
      else if key = ''linger'' then Some (validNumber value False)
      else if key = ''nice'' then Some (value = [] \<or> validNumber value True)
      else if key = ''rfc931'' then Some (value = [] \<or> positiveDecimal value)
      else if key = ''setenv'' then Some (1 \<le> length (GoStrings.fields value))
      else if key = ''user'' then Some (validUserOption u value)
      else if key = ''group'' then Some (validGroupOption u value)
      else None)"

fun options_loop :: "host_users \<Rightarrow> accessVerdict \<Rightarrow> string list \<Rightarrow> wrap_error + accessVerdict" where
  "options_loop u implicit [] = Inr implicit"
| "options_loop u implicit (opt # opts) =
     (if trim_space opt = [] then Inl (HostsSyntax ''empty option'')
      else
        let (key0, value) = splitOptionKey opt; key = to_lower key0 in
        if key = ''allow'' \<or> key = ''deny'' then
          (if value \<noteq> [] \<or> opts \<noteq> [] then Inl (HostsSyntax opt)
           else Inr (if key = ''allow'' then verdictPermit else verdictDeny))
        else case ignored_option u key value of
          Some True \<Rightarrow> options_loop u implicit opts
        | _ \<Rightarrow> Inl (HostsSyntax opt))"

definition applyOptions :: "host_users \<Rightarrow> string list \<Rightarrow> bool \<Rightarrow> wrap_error + accessVerdict" where
  "applyOptions u opts fromAllow = options_loop u (if fromAllow then verdictPermit else verdictDeny) opts"

end
