(* ===== verification/HostsMatch.thy ===== *)
theory HostsMatch
  imports HostsTable
begin

text \<open>
  Matching of \<open>internal/xio/tcpwrap.go\<close>: an endpoint with its deferred reverse lookup, the tokens of daemon and
  client lists, and \<open>EXCEPT\<close>.  The lookup is state of the endpoint, so a match maps an endpoint to a result and
  an endpoint.  The resolver is a record of its three calls; each outcome says what the call returned
  and whether the session or the lookup had ended by then.
\<close>

subsection \<open>The resolver\<close>

record dns_error =
  dns_IsNotFound :: bool
  dns_IsTemporary :: bool
  dns_IsTimeout :: bool
  dns_IsDeadline :: bool
  dns_IsDNSError :: bool

record 'a lookup =
  lk_value :: 'a
  lk_err :: "dns_error option"
  lk_parentErr :: bool
  lk_lookupErr :: bool

record dns_resolver =
  LookupAddr :: "string \<Rightarrow> string list lookup"
  LookupCNAME :: "string \<Rightarrow> string lookup"
  LookupIP :: "string \<Rightarrow> byte list list lookup"

datatype nameStatus = nameUnknown | nameKnown | nameParanoid

definition normDNSName :: "string \<Rightarrow> string" where
  "normDNSName name = trim_suffix (to_lower name) ''.''"

definition rootedDNSName :: "string \<Rightarrow> string" where
  "rootedDNSName name = (if has_suffix name ''.'' then name else name @ ''.'')"

definition numericDNSName :: "string \<Rightarrow> bool" where
  "numericDNSName name \<longleftrightarrow> ParseAddr (trim_suffix name ''.'') \<noteq> None"

definition dnsNotFound :: "dns_error option \<Rightarrow> bool" where
  "dnsNotFound err \<longleftrightarrow> (case err of None \<Rightarrow> False | Some e \<Rightarrow> dns_IsDNSError e \<and> dns_IsNotFound e)"

definition lookupDeadline :: "'a lookup \<Rightarrow> wrap_error option" where
  "lookupDeadline l =
     (if lk_parentErr l then Some ContextError
      else if lk_lookupErr l then Some LookupTimeout
      else case lk_err l of
        None \<Rightarrow> None
      | Some e \<Rightarrow> if dns_IsDeadline e \<or> dns_IsDNSError e \<and> dns_IsTimeout e then Some LookupTimeout else None)"

definition lookupHostStatus :: "dns_resolver \<Rightarrow> string \<Rightarrow> wrap_error + string \<times> nameStatus" where
  "lookupHostStatus resolver ipStr =
     (case ParseIP ipStr of
        None \<Rightarrow> Inr ([], nameUnknown)
      | Some ip \<Rightarrow>
          let a = LookupAddr resolver ipStr in
          case lookupDeadline a of Some e \<Rightarrow> Inl e
          | None \<Rightarrow>
              if lk_value a = [] then
                (if lk_err a = None \<or> dnsNotFound (lk_err a) then Inr ([], nameUnknown)
                 else if (case lk_err a of Some e \<Rightarrow> dns_IsDNSError e \<and> \<not> dns_IsTemporary e | None \<Rightarrow> False)
                 then Inr ([], nameParanoid)
                 else Inr ([], nameUnknown))
              else
                let name = trim_suffix (hd (lk_value a)) ''.'' in
                if numericDNSName name then Inr ([], nameParanoid)
                else
                  let c = LookupCNAME resolver (rootedDNSName name) in
                  case lookupDeadline c of Some e \<Rightarrow> Inl e
                  | None \<Rightarrow>
                      if lk_err c = None \<and> normDNSName (lk_value c) \<noteq> normDNSName name then Inr ([], nameParanoid)
                      else if lk_err c \<noteq> None \<and> \<not> dnsNotFound (lk_err c) then Inr ([], nameParanoid)
                      else
                        let i = LookupIP resolver (rootedDNSName name) in
                        case lookupDeadline i of Some e \<Rightarrow> Inl e
                        | None \<Rightarrow>
                            if lk_err i \<noteq> None then Inr ([], nameParanoid)
                            else if list_ex (\<lambda>r. IP_Equal r ip) (lk_value i) then Inr (name, nameKnown)
                            else Inr ([], nameParanoid))"

subsection \<open>Endpoints\<close>

record endpoint =
  ep_ip :: net_IP
  ep_zone :: string
  addrText :: string
  literal :: string
  ep_port :: int
  ep_resolver :: dns_resolver
  looked :: bool
  ep_name :: string
  ep_status :: nameStatus
  ep_err :: "wrap_error option"

text \<open>\<open>net.Addr\<close>: nil, the three address types of the package, each possibly a nil pointer, or any other type by
  its text.\<close>

datatype net_addr =
  AddrNil | TCPAddr "(net_IP \<times> string \<times> int) option" | UDPAddr "(net_IP \<times> string \<times> int) option"
| IPAddr "(net_IP \<times> string) option" | OtherAddr string

definition StripBrackets :: "string \<Rightarrow> string" where
  "StripBrackets host =
     (if 2 \<le> length host \<and> hd host = CHR ''['' \<and> last host = CHR '']'' then butlast (tl host) else host)"

definition addrIdentity :: "net_addr \<Rightarrow> net_IP \<times> string \<times> string \<times> int" where
  "addrIdentity addr =
     (case addr of
        AddrNil \<Rightarrow> (None, [], [], 0)
      | TCPAddr a \<Rightarrow> (case a of None \<Rightarrow> (None, [], [], 0) | Some (ip, zone, port) \<Rightarrow> (ip, zone, [], port))
      | UDPAddr a \<Rightarrow> (case a of None \<Rightarrow> (None, [], [], 0) | Some (ip, zone, port) \<Rightarrow> (ip, zone, [], port))
      | IPAddr a \<Rightarrow> (case a of None \<Rightarrow> (None, [], [], 0) | Some (ip, zone) \<Rightarrow> (ip, zone, [], 0))
      | OtherAddr text \<Rightarrow>
          let (host0, port) =
                (case SplitHostPort text of
                   None \<Rightarrow> (text, 0)
                 | Some (h, p) \<Rightarrow> (h, case Atoi p of Some n \<Rightarrow> n | None \<Rightarrow> 0));
              host = StripBrackets host0;
              zoned = (case last_index_byte host (CHR ''%'') of
                         None \<Rightarrow> None
                       | Some i \<Rightarrow> map_option (\<lambda>b. (b, drop (i + 1) host)) (ParseIP (take i host)))
          in case zoned of
               Some (b, zone) \<Rightarrow> (Some b, zone, [], port)
             | None \<Rightarrow> (case ParseIP host of Some b \<Rightarrow> (Some b, [], [], port) | None \<Rightarrow> (None, [], host, port)))"

definition newEndpoint :: "net_addr \<Rightarrow> dns_resolver \<Rightarrow> endpoint" where
  "newEndpoint addr resolver =
     (let (ip, zone, lit, port) = addrIdentity addr in
      \<lparr>ep_ip = ip, ep_zone = zone, addrText = (case ip of None \<Rightarrow> ''unknown'' | Some b \<Rightarrow> IP_String b),
       literal = lit, ep_port = port, ep_resolver = resolver,
       looked = False, ep_name = [], ep_status = nameUnknown, ep_err = None\<rparr>)"

type_synonym 'a look = "endpoint \<Rightarrow> (wrap_error + 'a) \<times> endpoint"

definition dnsName :: "(string \<times> nameStatus) look" where
  "dnsName e =
     (if looked e then (case ep_err e of Some err \<Rightarrow> Inl err | None \<Rightarrow> Inr (ep_name e, ep_status e), e)
      else
        let e1 = e\<lparr>looked := True\<rparr> in
        case ep_ip e of
          None \<Rightarrow> (Inr ([], nameUnknown), e1\<lparr>ep_status := nameUnknown\<rparr>)
        | Some b \<Rightarrow>
            (case lookupHostStatus (ep_resolver e) (IP_String b) of
               Inl err \<Rightarrow> (Inl err, e1\<lparr>ep_err := Some err\<rparr>)
             | Inr (name, status) \<Rightarrow> (Inr (name, status), e1\<lparr>ep_name := name, ep_status := status\<rparr>)))"

definition with_name :: "(string \<Rightarrow> nameStatus \<Rightarrow> wrap_error + bool) \<Rightarrow> bool look" where
  "with_name f e =
     (case dnsName e of
        (Inl err, e1) \<Rightarrow> (Inl err, e1)
      | (Inr (name, status), e1) \<Rightarrow> (f name status, e1))"

subsection \<open>String patterns\<close>

fun globMatch :: "string \<Rightarrow> string \<Rightarrow> bool" where
  "globMatch [] s = (s = [])"
| "globMatch (p # ps) s =
     (if p = CHR ''*'' then (if ps = [] then True else list_ex (\<lambda>i. globMatch ps (drop i s)) [0..<Suc (length s)])
      else case s of
        [] \<Rightarrow> False
      | c # cs \<Rightarrow> if p \<noteq> CHR ''?'' \<and> p \<noteq> c then False else globMatch ps cs)"

definition badWildcard :: "string \<Rightarrow> bool" where
  "badWildcard tok \<longleftrightarrow>
     contains_any tok ''*?'' \<and> (has_prefix tok ''.'' \<or> has_suffix tok ''.'' \<or> contains_byte tok (CHR ''/''))"

definition stringMatch :: "string \<Rightarrow> string \<Rightarrow> wrap_error + bool" where
  "stringMatch tok0 value0 =
     (if tok0 = [] then Inr False
      else if badWildcard tok0 then Inl (HostsSyntax tok0)
      else
        let tok = to_lower tok0; value = to_lower value0 in
        if has_prefix tok ''.'' then
          Inr (length tok < length value \<and> drop (length value - length tok) value = tok)
        else if tok = ''all'' then Inr True
        else if tok = ''known'' then Inr (value \<noteq> ''unknown'')
        else if has_suffix tok ''.'' then Inr (has_prefix value tok)
        else if contains_any tok ''*?'' then Inr (globMatch tok value)
        else Inr (tok = value))"

definition addressShaped :: "string \<Rightarrow> bool" where
  "addressShaped tok \<longleftrightarrow> tok \<noteq> [] \<and> list_all (\<lambda>c. is_digit c \<or> c = CHR ''.'' \<or> c = CHR ''/'') tok"

subsection \<open>Address patterns\<close>

fun octet_loop :: "nat \<Rightarrow> string \<Rightarrow> nat \<Rightarrow> byte option" where
  "octet_loop base [] n = Some (of_nat n)"
| "octet_loop base (c # cs) n =
     (case hex_val c of
        None \<Rightarrow> None
      | Some d \<Rightarrow> if base \<le> d then None
                  else let m = n * base + d in if 255 < m then None else octet_loop base cs m)"

definition parseInetOctet :: "string \<Rightarrow> byte option" where
  "parseInetOctet s =
     (if s = [] then None
      else
        let octal = (hd s = CHR ''0'' \<and> 1 < length s); hex = (octal \<and> (s ! 1 = CHR ''x'' \<or> s ! 1 = CHR ''X''));
            base = (if hex then 16 else if octal then 8 else 10); i = (if hex then 2 else if octal then 1 else 0)
        in if length s \<le> i then None else octet_loop base (drop i s) 0)"

fun all_some :: "'a option list \<Rightarrow> 'a list option" where
  "all_some [] = Some []"
| "all_some (x # xs) = (case x of None \<Rightarrow> None | Some a \<Rightarrow> map_option (Cons a) (all_some xs))"

definition parseInetQuad :: "string \<Rightarrow> byte list option" where
  "parseInetQuad s =
     (let parts = split_byte s (CHR ''.'') in if length parts \<noteq> 4 then None else all_some (map parseInetOctet parts))"

definition parsePrefixLen :: "string \<Rightarrow> nat \<Rightarrow> nat option" where
  "parsePrefixLen s mx =
     (if s = [] \<or> 3 < length s \<or> \<not> list_all is_digit s then None
      else if mx < decimal s then None else Some (decimal s))"

fun mask_loop :: "nat \<Rightarrow> nat \<Rightarrow> byte list" where
  "mask_loop 0 b = []"
| "mask_loop (Suc k) b =
     (if 8 \<le> b then 255 # mask_loop k (b - 8)
      else if 0 < b then push_bit (8 - b) 255 # replicate k 0
      else replicate (Suc k) 0)"

definition maskFromLen :: "nat \<Rightarrow> byte list" where
  "maskFromLen b = mask_loop 4 b"

definition matchV4 :: "string \<Rightarrow> string \<Rightarrow> endpoint \<Rightarrow> wrap_error + bool" where
  "matchV4 netTok maskTok ep =
     (let bad = Inl (HostsSyntax (netTok @ ''/'' @ maskTok)) in
      case parseInetQuad netTok of
        None \<Rightarrow> bad
      | Some network \<Rightarrow>
          (case (case parseInetQuad maskTok of
                   Some m \<Rightarrow> if m = [255, 255, 255, 255] then None else Some m
                 | None \<Rightarrow> (case parsePrefixLen maskTok 32 of
                              Some b \<Rightarrow> if b = 0 then None else Some (maskFromLen b)
                            | None \<Rightarrow> None)) of
             None \<Rightarrow> bad
           | Some m \<Rightarrow>
               if network = [255, 255, 255, 255] then Inr False
               else case To4 (ep_ip ep) of
                 None \<Rightarrow> Inr False
               | Some ip4 \<Rightarrow>
                   if ip4 = [255, 255, 255, 255] then Inr False
                   else Inr (map2 (AND) ip4 m = network)))"

definition matchV6 :: "string \<Rightarrow> string \<Rightarrow> endpoint \<Rightarrow> wrap_error + bool" where
  "matchV6 netTok maskTok ep =
     (let bad = Inl (HostsSyntax (netTok @ ''/'' @ maskTok)) in
      case parsePrefixLen maskTok 128 of
        None \<Rightarrow> bad
      | Some b \<Rightarrow>
          if \<not> has_prefix netTok ''['' \<or> \<not> has_suffix netTok '']'' then bad
          else case ParseAddr (butlast (tl netTok)) of
            None \<Rightarrow> bad
          | Some pat0 \<Rightarrow>
              if \<not> Is6 pat0 then bad
              else case Option.bind (ep_ip ep) AddrFromSlice of
                None \<Rightarrow> Inr False
              | Some got0 \<Rightarrow>
                  (case (Unmap got0, Unmap pat0) of
                     (Addr6 got z, Addr6 pat pz) \<Rightarrow>
                       if pz \<noteq> [] \<and> pz \<noteq> ep_zone ep then Inr False
                       else Inr (prefix_contains6 pat b got)
                   | _ \<Rightarrow> Inr False))"

definition matchNet :: "string \<Rightarrow> endpoint \<Rightarrow> wrap_error + bool" where
  "matchNet tok ep =
     (let (netTok, maskTok, ok) = cut tok (CHR ''/'') in
      if \<not> ok \<or> maskTok = [] \<or> contains_byte maskTok (CHR ''/'') then Inl (HostsSyntax tok)
      else if contains_byte netTok (CHR '':'') \<or> has_prefix netTok ''['' then matchV6 netTok maskTok ep
      else matchV4 netTok maskTok ep)"

definition parseHostIP :: "string \<Rightarrow> ip_addr option" where
  "parseHostIP tok = ParseAddr (StripBrackets tok)"

definition ipMatches :: "ip_addr \<Rightarrow> endpoint \<Rightarrow> bool" where
  "ipMatches pat ep \<longleftrightarrow>
     (case Option.bind (ep_ip ep) AddrFromSlice of
        None \<Rightarrow> False
      | Some got0 \<Rightarrow>
          let got = Unmap got0 in
          if BitLen got \<noteq> BitLen pat then False
          else if Zone pat \<noteq> [] \<and> Zone pat \<noteq> ep_zone ep then False
          else WithZone got [] = WithZone pat [])"

subsection \<open>Tokens\<close>

definition knownMatch :: "bool look" where
  "knownMatch ep = (if ep_ip ep = None then (Inr False, ep) else with_name (\<lambda>name status. Inr (status = nameKnown)) ep)"

definition localMatch :: "bool look" where
  "localMatch = with_name (\<lambda>name status. Inr (status = nameKnown \<and> \<not> contains_byte name (CHR ''.'')))"

definition unknownMatch :: "bool look" where
  "unknownMatch ep = (if ep_ip ep = None then (Inr True, ep) else with_name (\<lambda>name status. Inr (status = nameUnknown)) ep)"

definition paranoidMatch :: "bool look" where
  "paranoidMatch ep = (if ep_ip ep = None then (Inr False, ep) else with_name (\<lambda>name status. Inr (status = nameParanoid)) ep)"

definition hostStringMatch :: "string \<Rightarrow> bool look" where
  "hostStringMatch tok ep =
     (case stringMatch tok (addrText ep) of
        Inl e \<Rightarrow> (Inl e, ep)
      | Inr True \<Rightarrow> (Inr True, ep)
      | Inr False \<Rightarrow>
          if addressShaped tok then (Inr False, ep)
          else if literal ep \<noteq> [] then (stringMatch tok (literal ep), ep)
          else with_name (\<lambda>name status. if status \<noteq> nameKnown then Inr False else stringMatch tok name) ep)"

definition hostMatch :: "string \<Rightarrow> bool look" where
  "hostMatch tok ep =
     (if tok = [] then (Inr False, ep)
      else if List.member ''@/{'' (hd tok) then (Inl (HostsSyntax tok), ep)
      else if to_lower tok = ''known'' then knownMatch ep
      else if to_lower tok = ''local'' then localMatch ep
      else if to_lower tok = ''unknown'' then unknownMatch ep
      else if to_lower tok = ''paranoid'' then paranoidMatch ep
      else if badWildcard tok then (Inl (HostsSyntax tok), ep)
      else if contains_byte tok (CHR ''/'') then (matchNet tok ep, ep)
      else case parseHostIP tok of
        Some addr \<Rightarrow> (Inr (ipMatches addr ep), ep)
      | None \<Rightarrow> hostStringMatch tok ep)"

definition splitMarker :: "string \<Rightarrow> (string \<times> string) option" where
  "splitMarker tok =
     (if length tok < 2 then None
      else case index_byte (tl tok) (CHR ''@'') of
        None \<Rightarrow> None
      | Some rel \<Rightarrow> Some (take (rel + 1) tok, drop (rel + 2) tok))"

fun port_loop :: "string \<Rightarrow> nat \<Rightarrow> nat option" where
  "port_loop [] n = Some n"
| "port_loop (c # cs) n =
     (if \<not> is_digit c then None
      else let m = n * 10 + digit_val c in if 65535 < m then None else port_loop cs m)"

definition numericPort :: "string \<Rightarrow> nat option" where
  "numericPort tok0 =
     (if tok0 = [] then None
      else let tok = (if hd tok0 = CHR ''+'' then tl tok0 else tok0)
           in if tok = [] then None else port_loop tok 0)"

definition serverToken :: "string \<Rightarrow> string \<Rightarrow> bool look" where
  "serverToken daemon tok server =
     (case splitMarker tok of
        None \<Rightarrow>
          (case numericPort tok of
             Some port \<Rightarrow> Inr (ep_port server = int port)
           | None \<Rightarrow> stringMatch tok daemon, server)
      | Some (name, host) \<Rightarrow>
          (case (case numericPort name of Some port \<Rightarrow> Inr (ep_port server = int port) | None \<Rightarrow> stringMatch name daemon) of
             Inl e \<Rightarrow> (Inl e, server)
           | Inr False \<Rightarrow> (Inr False, server)
           | Inr True \<Rightarrow> hostMatch host server))"

definition clientToken :: "string \<Rightarrow> bool look" where
  "clientToken tok client =
     (case splitMarker tok of
        None \<Rightarrow> hostMatch tok client
      | Some (_, host) \<Rightarrow>
          (case hostMatch host client of
             (Inr True, c) \<Rightarrow> (Inl (HostsSyntax tok), c)
           | (r, c) \<Rightarrow> (r, c)))"

subsection \<open>Lists and tables\<close>

text \<open>\<open>EXCEPT\<close> nests to the right; the list holds the tokens from the index on.\<close>

lemma dropWhile_tail: "dropWhile P xs = y # ys \<Longrightarrow> length ys < length xs"
  by (metis length_Cons length_dropWhile_le less_eq_Suc_le)

function matchListAt :: "(string \<Rightarrow> bool look) \<Rightarrow> string list \<Rightarrow> bool look" where
  "matchListAt m [] e = (Inr False, e)"
| "matchListAt m (tok # toks) e =
     (if equal_fold tok ''EXCEPT'' then (Inr False, e)
      else case m tok e of
        (Inl err, e1) \<Rightarrow> (Inl err, e1)
      | (Inr False, e1) \<Rightarrow> matchListAt m toks e1
      | (Inr True, e1) \<Rightarrow>
          (case dropWhile (\<lambda>t. \<not> equal_fold t ''EXCEPT'') toks of
             [] \<Rightarrow> (Inr True, e1)
           | _ # rest \<Rightarrow>
               (case matchListAt m rest e1 of
                  (Inl err, e2) \<Rightarrow> (Inl err, e2)
                | (Inr excluded, e2) \<Rightarrow> (Inr (\<not> excluded), e2))))"
  by pat_completeness auto
termination
  by (relation "measure (\<lambda>(m, toks, e). length toks)") (auto dest!: dropWhile_tail)

definition matchList :: "(string \<Rightarrow> bool look) \<Rightarrow> string list \<Rightarrow> bool look" where
  "matchList m toks = matchListAt m toks"

end
