(* ===== verification/PeerFilter.thy ===== *)
theory PeerFilter
  imports HostsMatch
begin

text \<open>
  The peer filter of a listening address: the decision of \<open>internal/xio/tcpwrap.go\<close> over the two tables, and
  \<open>internal/xio/peersec.go\<close>, which combines it with the range, source port and low port options.  The files of
  the host, its users and the resolver are the record \<open>host\<close>; a lookup of the range host is an argument of the
  function that compiles the range.
\<close>

subsection \<open>Configuration\<close>

record OptionalString =
  os_Set :: bool
  os_Value :: string
  os_Omitted :: bool

record wrap_policy =
  HostsAllow :: OptionalString
  HostsDeny :: OptionalString
  TCPWrapEtc :: OptionalString
  TCPWrapSet :: bool
  TCPWrapDaemon :: OptionalString

record tcpwrapConfig =
  enabled :: bool
  daemon :: string
  daemonExplicit :: bool
  allow :: string
  deny :: string
  allowRequired :: bool
  denyRequired :: bool

text \<open>\<open>filepath.Join\<close> of a non-empty directory and a name: \<open>filepath.Clean\<close> of their path, element by element.\<close>

fun clean_step :: "bool \<Rightarrow> string list \<Rightarrow> string \<Rightarrow> string list" where
  "clean_step rooted out e =
     (if e = [] \<or> e = ''.'' then out
      else if e = ''..'' then
        (if out \<noteq> [] \<and> last out \<noteq> ''..'' then butlast out else if rooted then out else out @ [e])
      else out @ [e])"

definition path_Clean :: "string \<Rightarrow> string" where
  "path_Clean p =
     (let rooted = has_prefix p ''/''; out = foldl (clean_step rooted) [] (split_byte p (CHR ''/''));
          body = join_text ''/'' out
      in if rooted then CHR ''/'' # body else if body = [] then ''.'' else body)"

definition filepath_Join :: "string \<Rightarrow> string \<Rightarrow> string" where
  "filepath_Join dir name = path_Clean (dir @ ''/'' @ name)"

definition parseTCPWrap :: "wrap_policy \<Rightarrow> string \<Rightarrow> tcpwrapConfig" where
  "parseTCPWrap policy progname =
     (let c0 = \<lparr>enabled = False, daemon = [], daemonExplicit = False, allow = [], deny = [],
                allowRequired = False, denyRequired = False\<rparr>;
          c1 = (if os_Set (HostsAllow policy)
                then c0\<lparr>enabled := True, allowRequired := True, allow := os_Value (HostsAllow policy)\<rparr> else c0);
          c2 = (if os_Set (HostsDeny policy)
                then c1\<lparr>enabled := True, denyRequired := True, deny := os_Value (HostsDeny policy)\<rparr> else c1);
          etc = os_Value (TCPWrapEtc policy);
          c3 = (if os_Set (TCPWrapEtc policy) \<and> etc \<noteq> [] then
                  let d = c2\<lparr>enabled := True\<rparr>;
                      d1 = (if allow d = [] then d\<lparr>allow := filepath_Join etc ''hosts.allow'', allowRequired := True\<rparr> else d)
                  in (if deny d1 = [] then d1\<lparr>deny := filepath_Join etc ''hosts.deny'', denyRequired := True\<rparr> else d1)
                else c2);
          c4 = (if TCPWrapSet policy then
                  let d = c3\<lparr>enabled := True\<rparr>
                  in (if os_Set (TCPWrapDaemon policy) \<and> \<not> os_Omitted (TCPWrapDaemon policy)
                      then d\<lparr>daemon := os_Value (TCPWrapDaemon policy), daemonExplicit := True\<rparr> else d)
                else c3)
      in if \<not> enabled c4 then c4
         else
           let c5 = (if daemon c4 = [] \<and> \<not> daemonExplicit c4
                     then c4\<lparr>daemon := (if progname \<noteq> [] then progname else ''socat'')\<rparr> else c4);
               c6 = (if allow c5 = [] then c5\<lparr>allow := ''/etc/hosts.allow''\<rparr> else c5)
           in (if deny c6 = [] then c6\<lparr>deny := ''/etc/hosts.deny''\<rparr> else c6))"

subsection \<open>The decision\<close>

record host =
  os_Open :: "string \<Rightarrow> (io_error \<times> bool) + reader"
  host_user_db :: host_users
  host_dns :: dns_resolver

datatype filter_error =
  Refused | RefusedFor wrap_error | TableError string io_error
| RangeNoIP | NotInRange | SourcePortMismatch | NotLowPort | FilterPanic

fun matchHostsTable ::
  "host_users \<Rightarrow> string list \<Rightarrow> string \<Rightarrow> bool \<Rightarrow> endpoint \<times> endpoint \<Rightarrow>
   (wrap_error + accessVerdict) \<times> endpoint \<times> endpoint" where
  "matchHostsTable u [] dmn fromAllow (client, server) = (Inr verdictNone, client, server)"
| "matchHostsTable u (raw # rest) dmn fromAllow (client, server) =
     (if raw = [] \<or> hd raw = CHR ''#'' then matchHostsTable u rest dmn fromAllow (client, server)
      else
        let line = trim_space raw in
        if line = [] then matchHostsTable u rest dmn fromAllow (client, server)
        else case splitHostsRule line of
          Inl e \<Rightarrow> (Inl e, client, server)
        | Inr r \<Rightarrow>
            (case matchList (serverToken dmn) (splitHostsList (daemonList r)) server of
               (Inl e, server1) \<Rightarrow> (Inl e, client, server1)
             | (Inr False, server1) \<Rightarrow> matchHostsTable u rest dmn fromAllow (client, server1)
             | (Inr True, server1) \<Rightarrow>
                 (case matchList clientToken (splitHostsList (clientList r)) client of
                    (Inl e, client1) \<Rightarrow> (Inl e, client1, server1)
                  | (Inr False, client1) \<Rightarrow> matchHostsTable u rest dmn fromAllow (client1, server1)
                  | (Inr True, client1) \<Rightarrow>
                      (applyOptions u (if hasOpt r then rule_options r else []) fromAllow, client1, server1))))"

text \<open>\<open>None\<close> is a nil error: the peer is allowed.\<close>

definition tcpwrapAllowed :: "host \<Rightarrow> tcpwrapConfig \<Rightarrow> net_addr \<Rightarrow> net_addr \<Rightarrow> filter_error option" where
  "tcpwrapAllowed h cfg peer' local' =
     (if \<not> enabled cfg then None
      else
        let client = newEndpoint peer' (host_dns h); server = newEndpoint local' (host_dns h) in
        if ep_ip client = None \<and> literal client = [] then Some Refused
        else case readHostsTable (os_Open h) (allow cfg) (allowRequired cfg) of
          Inl (p, e) \<Rightarrow> Some (TableError p e)
        | Inr al \<Rightarrow>
            (case readHostsTable (os_Open h) (deny cfg) (denyRequired cfg) of
               Inl (p, e) \<Rightarrow> Some (TableError p e)
             | Inr dn \<Rightarrow>
                 (case matchHostsTable (host_user_db h) (lines al) (daemon cfg) True (client, server) of
                    (Inl e, _) \<Rightarrow> Some (RefusedFor e)
                  | (Inr verdictPermit, _) \<Rightarrow> None
                  | (Inr verdictDeny, _) \<Rightarrow> Some Refused
                  | (Inr verdictNone, eps) \<Rightarrow>
                      (case matchHostsTable (host_user_db h) (lines dn) (daemon cfg) False eps of
                         (Inl e, _) \<Rightarrow> Some (RefusedFor e)
                       | (Inr verdictPermit, _) \<Rightarrow> None
                       | (Inr verdictDeny, _) \<Rightarrow> Some Refused
                       | (Inr verdictNone, _) \<Rightarrow> map_option RefusedFor (frame dn)))))"

subsection \<open>Ranges\<close>

record HostTarget =
  Literal :: "ip_addr option"
  ht_Name :: string

datatype RangeForm = RangeNone | RangeAny | RangeCIDR | RangeExact | RangeAddrMask | RangeHex

record IPRange =
  Form :: RangeForm
  range_Prefix :: "ip_addr \<times> nat"
  range_Host :: HostTarget
  range_Mask :: ip_addr
  HexNet :: "byte list"
  HexMask :: "byte list"

definition maskedIPMatcher :: "byte list list \<Rightarrow> byte list \<Rightarrow> net_IP \<Rightarrow> bool" where
  "maskedIPMatcher bases m ip =
     (let want4 = (To4 ip \<noteq> None);
          found = List.find (\<lambda>cand. (To4 (Some cand) \<noteq> None) = want4) bases;
          base = (case found of Some b \<Rightarrow> Some b | None \<Rightarrow> (case bases of [] \<Rightarrow> None | b # _ \<Rightarrow> Some b))
      in case (To4 base, To4 (Some m)) of
           (Some b4, Some m4) \<Rightarrow>
             (case To4 ip of None \<Rightarrow> False | Some ip4 \<Rightarrow> map2 (AND) ip4 m4 = map2 (AND) b4 m4)
         | _ \<Rightarrow>
             (case (To16 base, To16 (Some m), To16 ip) of
                (Some b16, Some m16, Some ip16) \<Rightarrow> map2 (AND) ip16 m16 = map2 (AND) b16 m16
              | _ \<Rightarrow> False))"

definition compileCIDRMatcher :: "ip_addr \<times> nat \<Rightarrow> net_IP \<Rightarrow> bool" where
  "compileCIDRMatcher prefix' =
     (case prefix' of (a, b) \<Rightarrow> IPNet_Contains (AsSlice a) (CIDRMask b (BitLen a)))"

definition IPv4 :: "byte \<Rightarrow> byte \<Rightarrow> byte \<Rightarrow> byte \<Rightarrow> byte list" where
  "IPv4 a b c d = v4InV6Prefix @ [a, b, c, d]"

text \<open>The decoder of the option guarantees six bytes; indexing fewer would panic.\<close>

datatype range_error = RangeMaskShort | RangeResolve string | RangePanic

definition compileHexSockRange :: "byte list \<Rightarrow> byte list \<Rightarrow> range_error + (net_IP \<Rightarrow> bool)" where
  "compileHexSockRange netBytes maskBytes =
     (if 22 \<le> length netBytes then
        (if length maskBytes < 22 then Inl RangeMaskShort
         else Inr (maskedIPMatcher [segment netBytes 6 22] (segment maskBytes 6 22)))
      else if length netBytes < 6 \<or> length maskBytes < 6 then Inl RangePanic
      else Inr (maskedIPMatcher [IPv4 (netBytes ! 2) (netBytes ! 3) (netBytes ! 4) (netBytes ! 5)]
                  (IPv4 (maskBytes ! 2) (maskBytes ! 3) (maskBytes ! 4) (maskBytes ! 5))))"

definition rangeLookupIPs :: "(string \<Rightarrow> byte list list option) \<Rightarrow> string \<Rightarrow> range_error + byte list list" where
  "rangeLookupIPs look_ip name =
     (case look_ip name of
        None \<Rightarrow> Inl (RangeResolve name)
      | Some ips \<Rightarrow> if ips = [] then Inl (RangeResolve name) else Inr ips)"

definition compileAddrMask :: "(string \<Rightarrow> byte list list option) \<Rightarrow> HostTarget \<Rightarrow> ip_addr \<Rightarrow> range_error + (net_IP \<Rightarrow> bool)" where
  "compileAddrMask look_ip addr m =
     (case Literal addr of
        Some a \<Rightarrow> Inr (maskedIPMatcher [AsSlice a] (AsSlice m))
      | None \<Rightarrow> bind_ok (rangeLookupIPs look_ip (StripBrackets (ht_Name addr)))
                   (\<lambda>ips. Inr (maskedIPMatcher ips (AsSlice m))))"

definition equal_ip :: "byte list \<Rightarrow> net_IP \<Rightarrow> bool" where
  "equal_ip a ip = IP_Equal a (case ip of None \<Rightarrow> [] | Some b \<Rightarrow> b)"

definition compileIPRange :: "(string \<Rightarrow> byte list list option) \<Rightarrow> IPRange \<Rightarrow> range_error + (net_IP \<Rightarrow> bool)" where
  "compileIPRange look_ip spec =
     (case Form spec of
        RangeNone \<Rightarrow> Inr (\<lambda>_. True)
      | RangeAny \<Rightarrow> Inr (\<lambda>_. True)
      | RangeCIDR \<Rightarrow> Inr (compileCIDRMatcher (range_Prefix spec))
      | RangeHex \<Rightarrow> compileHexSockRange (HexNet spec) (HexMask spec)
      | RangeAddrMask \<Rightarrow> compileAddrMask look_ip (range_Host spec) (range_Mask spec)
      | RangeExact \<Rightarrow>
          (case Literal (range_Host spec) of
             Some a \<Rightarrow> Inr (equal_ip (AsSlice a))
           | None \<Rightarrow> bind_ok (rangeLookupIPs look_ip (StripBrackets (ht_Name (range_Host spec))))
                        (\<lambda>ips. Inr (\<lambda>ip. list_ex (\<lambda>cand. equal_ip cand ip) ips))))"

subsection \<open>The filter\<close>

record PortTarget =
  Number :: u16
  Service :: string
  Numeric :: bool

record PeerFilter =
  hasRange :: bool
  rangeMatcher :: "net_IP \<Rightarrow> bool"
  hasSourcePort :: bool
  sourcePort :: PortTarget
  lowport :: bool
  tcpwrap :: tcpwrapConfig

record peer_policy =
  RangeSet :: bool
  policy_Range :: IPRange
  SourcePortSet :: bool
  policy_SourcePort :: PortTarget
  LowPort :: bool
  policy_wrap :: wrap_policy

definition NewPeerFilter :: "(string \<Rightarrow> byte list list option) \<Rightarrow> peer_policy \<Rightarrow> string \<Rightarrow> range_error + PeerFilter" where
  "NewPeerFilter look_ip policy progname =
     (let f = \<lparr>hasRange = RangeSet policy, rangeMatcher = (\<lambda>_. False), hasSourcePort = SourcePortSet policy,
               sourcePort = policy_SourcePort policy, lowport = LowPort policy,
               tcpwrap = parseTCPWrap (policy_wrap policy) progname\<rparr>
      in if RangeSet policy
         then bind_ok (compileIPRange look_ip (policy_Range policy)) (\<lambda>m. Inr (f\<lparr>rangeMatcher := m\<rparr>))
         else Inr f)"

definition sourcePortMatches :: "PortTarget \<Rightarrow> int \<Rightarrow> bool" where
  "sourcePortMatches want' port \<longleftrightarrow> Numeric want' \<and> port = uint (Number want')"

text \<open>A nil pointer of type UDPAddr or TCPAddr panics here, before the value below is used.\<close>

definition peerIPPort :: "net_addr \<Rightarrow> (net_IP \<times> int) option" where
  "peerIPPort addr =
     (case addr of
        AddrNil \<Rightarrow> None
      | UDPAddr a \<Rightarrow> map_option (\<lambda>(ip, zone, port). (ip, port)) a
      | TCPAddr a \<Rightarrow> map_option (\<lambda>(ip, zone, port). (ip, port)) a
      | IPAddr a \<Rightarrow> map_option (\<lambda>(ip, zone). (ip, 0)) a
      | OtherAddr text \<Rightarrow>
          (case SplitHostPort text of
             None \<Rightarrow> None
           | Some (h, p) \<Rightarrow> Some (ParseIP (StripBrackets h), Atoi_value p)))"

definition AllowAddr :: "host \<Rightarrow> PeerFilter \<Rightarrow> net_addr \<Rightarrow> net_addr \<Rightarrow> filter_error option" where
  "AllowAddr h f remote' local' =
     (if remote' = AddrNil then None
      else if remote' = UDPAddr None \<or> remote' = TCPAddr None then Some FilterPanic
      else case peerIPPort remote' of
        None \<Rightarrow> if enabled (tcpwrap f) then tcpwrapAllowed h (tcpwrap f) remote' local' else None
      | Some (ip, port) \<Rightarrow>
          if hasRange f \<and> ip = None then Some RangeNoIP
          else if hasRange f \<and> \<not> rangeMatcher f ip then Some NotInRange
          else if hasSourcePort f \<and> \<not> sourcePortMatches (sourcePort f) port then Some SourcePortMismatch
          else if lowport f \<and> (port = 0 \<or> 1024 \<le> port) then Some NotLowPort
          else if enabled (tcpwrap f) then tcpwrapAllowed h (tcpwrap f) remote' local'
          else None)"

end
