(* ===== verification/PeerProps.thy ===== *)
theory PeerProps
  imports PeerFilter
begin

text \<open>
  What the peer filter guarantees.  Reverse lookups are deferred until a pattern needs them and then kept;
  the contract \<open>deferred\<close> says that this never shows in a result, so a decision is the first line of the tables
  that decides, each line taken by itself.  The other theorems state the meaning of \<open>EXCEPT\<close>, of wildcards and
  of address prefixes, and the format of a table on disk.
\<close>

subsection \<open>The deferred lookup\<close>

definition force :: "endpoint \<Rightarrow> endpoint" where
  "force e = snd (dnsName e)"

definition ep_ok :: "endpoint \<Rightarrow> bool" where
  "ep_ok e \<longleftrightarrow> looked e \<or> ep_name e = [] \<and> ep_err e = None"

lemma force_looked: "looked e \<Longrightarrow> force e = e"
  by (simp add: force_def dnsName_def)

lemma looked_force [simp]: "looked (force e)"
  by (simp add: force_def dnsName_def Let_def split: option.split sum.split prod.split)

lemma force_force [simp]: "force (force e) = force e"
  by (rule force_looked [OF looked_force])

lemma ep_ok_force [simp]: "ep_ok (force e)"
  by (simp add: ep_ok_def)

lemma ep_ok_new: "ep_ok (newEndpoint a r)"
  by (simp add: ep_ok_def newEndpoint_def Let_def split: prod.split)

lemma dnsName_force: "ep_ok e \<Longrightarrow> fst (dnsName (force e)) = fst (dnsName e)"
  by (auto simp: ep_ok_def force_def dnsName_def Let_def split: option.splits sum.splits prod.splits)

lemma force_fields [simp]:
  "ep_ip (force e) = ep_ip e" "ep_zone (force e) = ep_zone e" "addrText (force e) = addrText e"
  "literal (force e) = literal e" "ep_port (force e) = ep_port e"
  by (simp_all add: force_def dnsName_def Let_def split: option.split sum.split prod.split)

text \<open>A matcher of tokens may look the name up or not: its result is that of a lookup beforehand, and the endpoint
  it leaves is the one it was given or the one with the lookup done.\<close>

definition maybe_forced :: "endpoint \<Rightarrow> endpoint \<Rightarrow> bool" where
  "maybe_forced e e' \<longleftrightarrow> e' = e \<or> e' = force e"

lemma maybe_forced_trans: "maybe_forced e e' \<Longrightarrow> maybe_forced e' e'' \<Longrightarrow> maybe_forced e e''"
  by (auto simp: maybe_forced_def)

lemma maybe_forced_force: "maybe_forced e e' \<Longrightarrow> force e' = force e"
  by (auto simp: maybe_forced_def)

lemma maybe_forced_ok: "maybe_forced e e' \<Longrightarrow> ep_ok e \<Longrightarrow> ep_ok e'"
  by (auto simp: maybe_forced_def)

text \<open>The groups of a list, between its \<open>EXCEPT\<close>s, and what a list means for tokens that may be in error: the tokens
  of the first group are read in order until one matches or is in error, and if one matches the rest of
  the list is negated.\<close>

fun except_groups :: "string list \<Rightarrow> string list list" where
  "except_groups [] = [[]]"
| "except_groups (t # ts) =
     (if equal_fold t ''EXCEPT'' then [] # except_groups ts
      else case except_groups ts of [] \<Rightarrow> [[t]] | g # gs \<Rightarrow> (t # g) # gs)"

lemma except_groups_ne: "except_groups ts \<noteq> []"
  by (induction ts) (auto split: list.split)

lemma except_groups_split:
  "except_groups ts = takeWhile (\<lambda>t. \<not> equal_fold t ''EXCEPT'') ts #
     (case dropWhile (\<lambda>t. \<not> equal_fold t ''EXCEPT'') ts of [] \<Rightarrow> [] | _ # rest \<Rightarrow> except_groups rest)"
  by (induction ts) (auto split: list.split)

fun group_verdict :: "(string \<Rightarrow> wrap_error + bool) \<Rightarrow> string list \<Rightarrow> wrap_error + bool" where
  "group_verdict v [] = Inr False"
| "group_verdict v (t # ts) = bind_ok (v t) (\<lambda>b. if b then Inr True else group_verdict v ts)"

fun list_verdict :: "(string \<Rightarrow> wrap_error + bool) \<Rightarrow> string list list \<Rightarrow> wrap_error + bool" where
  "list_verdict v [] = Inr False"
| "list_verdict v (g # gs) =
     bind_ok (group_verdict v g) (\<lambda>b. if b then bind_ok (list_verdict v gs) (\<lambda>x. Inr (\<not> x)) else Inr False)"

locale deferred =
  fixes m :: "string \<Rightarrow> bool look"
  assumes forced_result: "ep_ok e \<Longrightarrow> fst (m tok (force e)) = fst (m tok e)"
    and forced_state: "maybe_forced e (snd (m tok e))"
begin

lemma list_state: "maybe_forced e (snd (matchListAt m toks e))"
proof (induction "length toks" arbitrary: toks e rule: less_induct)
  case less
  show ?case
  proof (cases toks)
    case (Cons tok ts)
    obtain r e1 where m: "m tok e = (r, e1)" by fastforce
    then have e1: "maybe_forced e e1" using forced_state [of e tok] by simp
    have IH: "maybe_forced e (snd (matchListAt m us e1))" if "length us < length toks" for us
      using maybe_forced_trans [OF e1 less [OF that]] .
    have "length rest < length toks" if "dropWhile (\<lambda>t. \<not> equal_fold t ''EXCEPT'') ts = x # rest" for x rest
      using dropWhile_tail [OF that] Cons by simp
    then have ex: "maybe_forced e e2"
      if "dropWhile (\<lambda>t. \<not> equal_fold t ''EXCEPT'') ts = x # rest" "matchListAt m rest e1 = (q, e2)" for x rest q e2
      using IH that by (metis snd_conv)
    show ?thesis
      using m e1 IH [of ts] Cons
      by (auto simp: maybe_forced_def [of e e] ex split: sum.split bool.split list.split prod.split)
  qed (simp add: maybe_forced_def)
qed

lemma list_fst:
  "fst (matchListAt m (tok # ts) e) =
     (if equal_fold tok ''EXCEPT'' then Inr False
      else case fst (m tok e) of
        Inl err \<Rightarrow> Inl err
      | Inr b \<Rightarrow>
          if \<not> b then fst (matchListAt m ts (snd (m tok e)))
          else case dropWhile (\<lambda>t. \<not> equal_fold t ''EXCEPT'') ts of
            [] \<Rightarrow> Inr True
          | _ # rest \<Rightarrow>
              (case fst (matchListAt m rest (snd (m tok e))) of Inl err \<Rightarrow> Inl err | Inr x \<Rightarrow> Inr (\<not> x)))"
proof -
  define D where "D = dropWhile (\<lambda>t. \<not> equal_fold t ''EXCEPT'') ts"
  show ?thesis
    by (cases "m tok e"; cases D) (simp_all add: D_def [symmetric] split: prod.split sum.split bool.split)
qed

lemma list_result: "ep_ok e \<Longrightarrow> fst (matchListAt m toks (force e)) = fst (matchListAt m toks e)"
proof (induction "length toks" arbitrary: toks e rule: less_induct)
  case less
  have "fst (matchListAt m toks e1) = fst (matchListAt m toks e2)"
    if "force e1 = force e2" "ep_ok e1" "ep_ok e2" for e1 e2
  proof (cases toks)
    case (Cons tok ts)
    obtain r1 f1 r2 f2 where m: "m tok e1 = (r1, f1)" "m tok e2 = (r2, f2)" by fastforce
    have r: "r1 = r2" using forced_result [OF that(2), of tok] forced_result [OF that(3), of tok] m that(1) by simp
    have f: "force f1 = force f2" "ep_ok f1" "ep_ok f2"
      using forced_state [of e1 tok] forced_state [of e2 tok] m that
      by (simp_all add: maybe_forced_force maybe_forced_ok [of e1] maybe_forced_ok [of e2])
    have IH: "fst (matchListAt m us f1) = fst (matchListAt m us f2)" if "length us < length toks" for us
      using less(1) [OF that f(2)] less(1) [OF that f(3)] f(1) by simp
    have "length rest < length toks" if "dropWhile (\<lambda>t. \<not> equal_fold t ''EXCEPT'') ts = x # rest" for x rest
      using dropWhile_tail [OF that] Cons by simp
    then have "fst (matchListAt m rest f1) = fst (matchListAt m rest f2)"
      if "dropWhile (\<lambda>t. \<not> equal_fold t ''EXCEPT'') ts = x # rest" for x rest
      using IH that by blast
    then show ?thesis
      unfolding Cons list_fst using m r IH [of ts] Cons by (simp del: dropWhile_eq_Nil_conv split: sum.split list.split)
  qed simp
  from this [of "force e" e] less(2) show ?case by simp
qed

lemma list_meaning:
  "ep_ok e \<Longrightarrow> fst (matchListAt m toks e) = list_verdict (\<lambda>t. fst (m t (force e))) (except_groups toks)"
proof (induction "length toks" arbitrary: toks e rule: less_induct)
  case less
  show ?case
  proof (cases toks)
    case (Cons tok ts)
    define D where "D = dropWhile (\<lambda>t. \<not> equal_fold t ''EXCEPT'') ts"
    define e1 where "e1 = snd (m tok e)"
    have e1: "ep_ok e1" "force e1 = force e"
      using forced_state [of e tok] less(2) maybe_forced_ok maybe_forced_force by (auto simp: e1_def)
    have r: "fst (m tok e) = fst (m tok (force e))" using forced_result [OF less(2)] by simp
    have rest: "fst (matchListAt m us e1) = list_verdict (\<lambda>t. fst (m t (force e))) (except_groups us)"
      if "length us < length toks" for us
      using less(1) [OF that e1(1)] e1(2) by simp
    have tail: "fst (matchListAt m us e1) = list_verdict (\<lambda>t. fst (m t (force e))) (except_groups us)" if "D = x # us" for x us
      using rest [of us] dropWhile_tail [OF that [unfolded D_def]] Cons by simp
    have gr: "except_groups ts = takeWhile (\<lambda>t. \<not> equal_fold t ''EXCEPT'') ts # (case D of [] \<Rightarrow> [] | _ # r \<Rightarrow> except_groups r)"
      unfolding D_def by (rule except_groups_split)
    show ?thesis
      unfolding Cons list_fst e1_def [symmetric] D_def [symmetric] r
      using rest [of ts] Cons tail gr
      by (cases "fst (m tok (force e))"; cases D) (auto simp del: dropWhile_eq_Nil_conv split: sum.split)
  qed simp
qed

end

lemma with_name_state: "maybe_forced e (snd (with_name f e))"
  by (auto simp: with_name_def maybe_forced_def force_def split: prod.split sum.split)

lemma with_name_forced: "ep_ok e \<Longrightarrow> fst (with_name f (force e)) = fst (with_name f e)"
proof -
  assume "ep_ok e"
  from dnsName_force [OF this] show ?thesis
    by (cases "dnsName e"; cases "dnsName (force e)") (auto simp: with_name_def split: sum.split)
qed

lemmas name_matchers = knownMatch_def localMatch_def unknownMatch_def paranoidMatch_def hostStringMatch_def

lemma address_patterns_forced:
  "matchNet tok (force e) = matchNet tok e" "ipMatches a (force e) = ipMatches a e"
  unfolding matchNet_def matchV4_def matchV6_def ipMatches_def force_fields by (rule refl)+

interpretation ho: deferred hostMatch
proof
  show "fst (hostMatch tok (force e)) = fst (hostMatch tok e)" if "ep_ok e" for tok e
    by (simp add: hostMatch_def name_matchers with_name_forced [OF that] address_patterns_forced split: option.split sum.split bool.split)
  show "maybe_forced e (snd (hostMatch tok e))" for tok e
  proof -
    have "maybe_forced e e" by (simp add: maybe_forced_def)
    then show ?thesis
      by (simp add: hostMatch_def name_matchers with_name_state split: option.split sum.split bool.split)
  qed
qed

interpretation cl: deferred clientToken
proof
  have res: "fst (clientToken tok e) = (case splitMarker tok of None \<Rightarrow> fst (hostMatch tok e)
      | Some (_, h) \<Rightarrow> if fst (hostMatch h e) = Inr True then Inl (HostsSyntax tok) else fst (hostMatch h e))" for tok e
    by (auto simp: clientToken_def split: option.split prod.split sum.split bool.split)
  show "fst (clientToken tok (force e)) = fst (clientToken tok e)" if "ep_ok e" for tok e
    unfolding res ho.forced_result [OF that] by (rule refl)
  have st: "snd (clientToken tok e) = snd (hostMatch (case splitMarker tok of None \<Rightarrow> tok | Some (_, h) \<Rightarrow> h) e)" for tok e
    by (auto simp: clientToken_def split: option.split prod.split sum.split bool.split)
  show "maybe_forced e (snd (clientToken tok e))" for tok e
    unfolding st by (rule ho.forced_state)
qed

interpretation sv: deferred "serverToken d" for d
proof
  show "fst (serverToken d tok (force e)) = fst (serverToken d tok e)" if "ep_ok e" for tok e
    using ho.forced_result [OF that]
    by (simp add: serverToken_def split: option.split prod.split sum.split bool.split)
  show "maybe_forced e (snd (serverToken d tok e))" for tok e
    using ho.forced_state [of e]
    by (simp add: serverToken_def maybe_forced_def [of e e] split: option.split prod.split sum.split bool.split)
qed

subsection \<open>Tables\<close>

lemma applyOptions_decides: "applyOptions u opts b \<noteq> Inr verdictNone"
proof -
  have "options_loop u v opts \<noteq> Inr verdictNone" if "v \<noteq> verdictNone" for v
    using that by (induction u v opts rule: options_loop.induct) (auto simp: Let_def split: option.split bool.split prod.split)
  then show ?thesis by (simp add: applyOptions_def)
qed

text \<open>The outcome of one line, with the names of both endpoints looked up beforehand.  A comment or blank line decides
  nothing; a malformed rule is an error; a rule applies when its daemon list and its client list match, an
  error in a list counts as soon as it is read, and the options of a rule that applies decide.\<close>

definition idle_line :: "string \<Rightarrow> bool" where
  "idle_line raw \<longleftrightarrow> raw = [] \<or> hd raw = CHR ''#'' \<or> trim_space raw = []"

definition line_outcome :: "host_users \<Rightarrow> string \<Rightarrow> bool \<Rightarrow> endpoint \<Rightarrow> endpoint \<Rightarrow> string \<Rightarrow> wrap_error + accessVerdict" where
  "line_outcome u d fromAllow client server raw =
     (if idle_line raw then Inr verdictNone
      else bind_ok (splitHostsRule (trim_space raw)) (\<lambda>r.
        bind_ok (list_verdict (\<lambda>t. fst (serverToken d t (force server))) (except_groups (splitHostsList (daemonList r)))) (\<lambda>daemonOK.
        if \<not> daemonOK then Inr verdictNone
        else bind_ok (list_verdict (\<lambda>t. fst (clientToken t (force client))) (except_groups (splitHostsList (clientList r)))) (\<lambda>clientOK.
        if \<not> clientOK then Inr verdictNone
        else applyOptions u (if hasOpt r then rule_options r else []) fromAllow))))"

fun first_decided :: "(wrap_error + accessVerdict) list \<Rightarrow> wrap_error + accessVerdict" where
  "first_decided [] = Inr verdictNone"
| "first_decided (v # vs) = (if v = Inr verdictNone then first_decided vs else v)"

definition same_pair :: "endpoint \<times> endpoint \<Rightarrow> endpoint \<times> endpoint \<Rightarrow> bool" where
  "same_pair p q \<longleftrightarrow> force (fst p) = force (fst q) \<and> force (snd p) = force (snd q) \<and> ep_ok (fst p) \<and> ep_ok (snd p) \<and> ep_ok (fst q) \<and> ep_ok (snd q)"

lemma table_Cons:
  "matchHostsTable u (raw # rest) d b p =
     (let (r, q) = matchHostsTable u [raw] d b p in if r = Inr verdictNone then matchHostsTable u rest d b q else (r, q))"
  using applyOptions_decides
  by (cases p) (simp add: Let_def split: sum.split prod.split bool.split)


lemma same_pair_refl: "ep_ok c \<Longrightarrow> ep_ok s \<Longrightarrow> same_pair (c, s) (c, s)"
  by (simp add: same_pair_def)

lemma same_pair_moved:
  assumes "ep_ok c" "ep_ok s" "maybe_forced c c'" "maybe_forced s s'" shows "same_pair (c, s) (c', s')"
  using assms maybe_forced_force maybe_forced_ok by (auto simp: same_pair_def)

lemma table_line:
  assumes "ep_ok c" "ep_ok s" shows "same_pair (c, s) (snd (matchHostsTable u [raw] d b (c, s)))"
proof -
  have sv: "matchList (serverToken d) ts s = (r, s1) \<Longrightarrow> maybe_forced s s1" for ts r s1
    using sv.list_state [of s d ts] by (simp add: matchList_def)
  have cl: "matchList clientToken ts c = (r, c1) \<Longrightarrow> maybe_forced c c1" for ts r c1
    using cl.list_state [of c ts] by (simp add: matchList_def)
  have id: "maybe_forced e e" for e by (simp add: maybe_forced_def)
  show ?thesis
    using assms
    by (auto simp: Let_def intro!: same_pair_moved id intro: sv cl split: sum.split prod.split bool.split)
qed

lemma table_line_outcome:
  assumes "ep_ok c" "ep_ok s" shows "fst (matchHostsTable u [raw] d b (c, s)) = line_outcome u d b c s raw"
proof (cases "idle_line raw")
  case True
  then show ?thesis by (auto simp: idle_line_def line_outcome_def)
next
  case False
  then have ne: "\<not> (raw = [] \<or> hd raw = CHR ''#'')" "trim_space raw \<noteq> []" by (auto simp: idle_line_def)
  show ?thesis
  proof (cases "splitHostsRule (trim_space raw)")
    case (Inl e)
    then show ?thesis using ne False by (simp add: line_outcome_def)
  next
    case (Inr r)
    define ds cs where "ds = splitHostsList (daemonList r)" and "cs = splitHostsList (clientList r)"
    obtain x s1 where x: "matchList (serverToken d) ds s = (x, s1)" by fastforce
    obtain y c1 where y: "matchList clientToken cs c = (y, c1)" by fastforce
    have v: "list_verdict (\<lambda>t. fst (serverToken d t (force s))) (except_groups ds) = x"
        "list_verdict (\<lambda>t. fst (clientToken t (force c))) (except_groups cs) = y"
      using sv.list_meaning [OF assms(2), of d ds] cl.list_meaning [OF assms(1), of cs] x y by (simp_all add: matchList_def)
    show ?thesis
      using ne False Inr x y v unfolding line_outcome_def ds_def [symmetric] cs_def [symmetric]
      by (simp add: ds_def [symmetric] cs_def [symmetric] Let_def split: sum.split bool.split)
  qed
qed

lemma line_same:
  assumes "same_pair (c, s) (c', s')" shows "line_outcome u d b c s raw = line_outcome u d b c' s' raw"
proof -
  have "force c = force c'" "force s = force s'" using assms by (simp_all add: same_pair_def)
  then show ?thesis by (simp only: line_outcome_def)
qed

lemma same_pair_trans: "same_pair p q \<Longrightarrow> same_pair q r \<Longrightarrow> same_pair p r"
  by (auto simp: same_pair_def)

lemma table_first:
  assumes "same_pair (c, s) p"
  shows "fst (matchHostsTable u ls d b p) = first_decided (map (line_outcome u d b c s) ls) \<and>
    same_pair (c, s) (snd (matchHostsTable u ls d b p))"
  using assms
proof (induction ls arbitrary: p)
  case Nil
  then show ?case by (cases p) simp
next
  case (Cons raw ls)
  obtain c' s' where p: "p = (c', s')" by fastforce
  obtain r q where l: "matchHostsTable u [raw] d b p = (r, q)" by (rule prod.exhaust)
  have r: "r = line_outcome u d b c s raw"
    using line_same [of c s c' s' u d b raw] table_line_outcome [of c' s' u raw d b] Cons.prems l by (simp add: p same_pair_def)
  have "same_pair p q" using table_line [of c' s' u raw d b] Cons.prems l by (simp add: p same_pair_def)
  then have q: "same_pair (c, s) q" using same_pair_trans Cons.prems by blast
  show ?case
    using Cons.IH [OF q] r q l by (subst (1 2) table_Cons) (simp add: Let_def)
qed

text \<open>C36: The tcpwrap decision.  A peer is allowed exactly when the filter is off, or its address is known, both
  tables can be read, and either the first line of the allow table that decides permits it, or no line
  there decides and the first deciding line of the deny table permits it, or neither table decides and the
  deny table is well framed.  What a line decides is \<open>line_outcome\<close>: a malformed rule, a token in error that is
  read and a bad option are errors, which decide and so refuse the peer; a rule whose two lists match
  decides by its options; every other line decides nothing.  Deferring the reverse lookups and keeping their
  results from line to line does not show.\<close>

theorem wrap_decision:
  "tcpwrapAllowed h cfg peer' local' = None \<longleftrightarrow>
     (if \<not> enabled cfg then True
      else let client = newEndpoint peer' (host_dns h); server = newEndpoint local' (host_dns h) in
      \<not> (ep_ip client = None \<and> literal client = []) \<and>
      (\<exists>al dn. readHostsTable (os_Open h) (allow cfg) (allowRequired cfg) = Inr al \<and>
         readHostsTable (os_Open h) (deny cfg) (denyRequired cfg) = Inr dn \<and>
         (let A = first_decided (map (line_outcome (host_user_db h) (daemon cfg) True client server) (lines al));
              D = first_decided (map (line_outcome (host_user_db h) (daemon cfg) False client server) (lines dn))
          in A = Inr verdictPermit \<or>
             A = Inr verdictNone \<and> (D = Inr verdictPermit \<or> D = Inr verdictNone \<and> frame dn = None))))"
proof -
  define c s where "c = newEndpoint peer' (host_dns h)" and "s = newEndpoint local' (host_dns h)"
  have cs: "same_pair (c, s) (c, s)" by (rule same_pair_refl) (simp_all add: c_def s_def ep_ok_new)
  have decide: "(case matchHostsTable u ls d True (c, s) of
        (Inl e, _) \<Rightarrow> Some (RefusedFor e) | (Inr verdictPermit, _) \<Rightarrow> None | (Inr verdictDeny, _) \<Rightarrow> Some Refused
      | (Inr verdictNone, eps) \<Rightarrow>
          (case matchHostsTable u ls' d False eps of
             (Inl e, _) \<Rightarrow> Some (RefusedFor e) | (Inr verdictPermit, _) \<Rightarrow> None | (Inr verdictDeny, _) \<Rightarrow> Some Refused
           | (Inr verdictNone, _) \<Rightarrow> map_option RefusedFor fr)) = None \<longleftrightarrow>
      (let A = first_decided (map (line_outcome u d True c s) ls); D = first_decided (map (line_outcome u d False c s) ls')
       in A = Inr verdictPermit \<or> A = Inr verdictNone \<and> (D = Inr verdictPermit \<or> D = Inr verdictNone \<and> fr = None))"
    for u ls ls' d fr
  proof -
    obtain A p where A: "matchHostsTable u ls d True (c, s) = (A, p)" by (rule prod.exhaust)
    obtain D q where D: "matchHostsTable u ls' d False p = (D, q)" by (rule prod.exhaust)
    from table_first [OF cs, of u ls d True] A
    have a: "A = first_decided (map (line_outcome u d True c s) ls)" "same_pair (c, s) p" by simp_all
    from table_first [OF a(2), of u ls' d False] D
    have d: "D = first_decided (map (line_outcome u d False c s) ls')" by simp
    show ?thesis
      unfolding A a(1) [symmetric] d [symmetric] Let_def
      by (auto simp: D split: sum.split accessVerdict.split)
  qed
  show ?thesis
    unfolding tcpwrapAllowed_def Let_def c_def [symmetric] s_def [symmetric]
    by (auto simp: decide [unfolded Let_def] split: sum.split)
qed

subsection \<open>Lists with EXCEPT\<close>

fun except_match :: "(string \<Rightarrow> bool) \<Rightarrow> string list list \<Rightarrow> bool" where
  "except_match t [] = False"
| "except_match t (g # gs) = (list_ex t g \<and> \<not> except_match t gs)"

text \<open>C37: \<open>EXCEPT\<close> in a list nests to the right: a list matches when its first group has a matching token and the
  list after the first \<open>EXCEPT\<close> does not match.\<close>

theorem matchList_groups:
  "matchList (\<lambda>tok e. (Inr (t tok), e)) toks e = (Inr (except_match t (except_groups toks)), e)"
proof -
  have "matchListAt (\<lambda>tok e. (Inr (t tok), e)) toks e = (Inr (except_match t (except_groups toks)), e)"
  proof (induction "length toks" arbitrary: toks rule: less_induct)
    case less
    show ?case
    proof (cases toks)
      case (Cons tok ts)
      define D where "D = dropWhile (\<lambda>t. \<not> equal_fold t ''EXCEPT'') ts"
      have rest: "matchListAt (\<lambda>tok e. (Inr (t tok), e)) r e = (Inr (except_match t (except_groups r)), e)" if "D = x # r" for x r
        using less dropWhile_tail [OF that [unfolded D_def]] Cons by simp
      have gr: "except_groups ts = takeWhile (\<lambda>t. \<not> equal_fold t ''EXCEPT'') ts # (case D of [] \<Rightarrow> [] | _ # r \<Rightarrow> except_groups r)"
        unfolding D_def by (rule except_groups_split)
      show ?thesis
        using less [of ts] Cons rest gr
        by (cases D) (auto simp: D_def [symmetric] simp del: dropWhile_eq_Nil_conv split: bool.split)
    qed simp
  qed
  then show ?thesis by (simp add: matchList_def)
qed

subsection \<open>Wildcards\<close>

definition fits :: "char \<Rightarrow> string \<Rightarrow> bool" where
  "fits p w \<longleftrightarrow> (if p = CHR ''*'' then True else if p = CHR ''?'' then length w = 1 else w = [p])"

text \<open>C38: Wildcard matching: a pattern matches a text exactly when the text can be cut into pieces, one for each
  pattern character, where \<open>*\<close> takes any piece, \<open>?\<close> a single character, and any other character itself.\<close>

theorem globMatch_fits: "globMatch pat s \<longleftrightarrow> (\<exists>ws. list_all2 fits pat ws \<and> concat ws = s)"
proof (induction pat arbitrary: s)
  case Nil
  then show ?case by auto
next
  case (Cons p ps)
  have split: "(\<exists>ws. list_all2 fits (p # ps) ws \<and> concat ws = s) \<longleftrightarrow>
      (\<exists>w r. fits p w \<and> s = w @ r \<and> (\<exists>ws. list_all2 fits ps ws \<and> concat ws = r))"
  proof
    assume "\<exists>w r. fits p w \<and> s = w @ r \<and> (\<exists>ws. list_all2 fits ps ws \<and> concat ws = r)"
    then obtain w ws where "fits p w" "s = w @ concat ws" "list_all2 fits ps ws" by blast
    then have "list_all2 fits (p # ps) (w # ws) \<and> concat (w # ws) = s" by simp
    then show "\<exists>ws. list_all2 fits (p # ps) ws \<and> concat ws = s" by blast
  next
    assume "\<exists>ws. list_all2 fits (p # ps) ws \<and> concat ws = s"
    then obtain w ws where "fits p w" "s = w @ concat ws" "list_all2 fits ps ws" by (auto simp: list_all2_Cons1)
    then show "\<exists>w r. fits p w \<and> s = w @ r \<and> (\<exists>ws. list_all2 fits ps ws \<and> concat ws = r)" by blast
  qed
  show ?case
  proof (cases "p = CHR ''*''")
    case True
    have any: "(\<exists>w r. s = w @ r \<and> Q r) \<longleftrightarrow> (\<exists>i \<le> length s. Q (drop i s))" for Q
      by (metis append_eq_conv_conj append_take_drop_id le_add1 length_append)
    have "globMatch (p # ps) s \<longleftrightarrow> (\<exists>i \<le> length s. globMatch ps (drop i s))"
    proof (cases "ps = []")
      case False
      have "list_ex Q [0..<Suc n] \<longleftrightarrow> (\<exists>i \<le> n. Q i)" for Q n by (auto simp: list_ex_iff less_Suc_eq_le simp del: upt_Suc)
      then show ?thesis using True False by (simp del: upt_Suc)
    qed (use True in \<open>auto intro: exI [of _ "length s"]\<close>)
    also have "\<dots> \<longleftrightarrow> (\<exists>w r. s = w @ r \<and> globMatch ps r)" unfolding any ..
    also have "\<dots> \<longleftrightarrow> (\<exists>w r. fits p w \<and> s = w @ r \<and> globMatch ps r)" using True by (simp add: fits_def)
    finally show ?thesis unfolding split Cons.IH [symmetric] .
  next
    case False
    then show ?thesis
      unfolding split Cons.IH [symmetric] by (cases s) (auto simp: fits_def length_Suc_conv)
  qed
qed

subsection \<open>Networks\<close>

lemma bit_horner_bytes:
  "bit (horner_sum uint (2 ^ LENGTH(8)) (ws :: byte list)) i \<longleftrightarrow> i div 8 < length ws \<and> bit (ws ! (i div 8)) (i mod 8)"
proof (induction ws arbitrary: i)
  case (Cons w ws)
  have "horner_sum uint (2 ^ LENGTH(8)) (w # ws) = concat_bit 8 (uint w) (horner_sum uint (2 ^ LENGTH(8)) ws)"
    using bintr_uint [where 'a = 8, of 8 w] by (simp add: concat_bit_eq push_bit_eq_mult)
  then have "bit (horner_sum uint (2 ^ LENGTH(8)) (w # ws)) i \<longleftrightarrow>
      i < 8 \<and> bit (uint w) i \<or> 8 \<le> i \<and> bit (horner_sum uint (2 ^ LENGTH(8)) ws) (i - 8)"
    by (simp add: bit_concat_bit_iff)
  also have "\<dots> \<longleftrightarrow> i div 8 < length (w # ws) \<and> bit ((w # ws) ! (i div 8)) (i mod 8)"
  proof (cases "i < 8")
    case True
    then show ?thesis by (simp add: bit_uint_iff)
  next
    case False
    then have "i div 8 = Suc ((i - 8) div 8)" "(i - 8) mod 8 = i mod 8" by (simp_all add: le_div_geq le_mod_geq not_less)
    then show ?thesis using False Cons.IH [of "i - 8"] by simp
  qed
  finally show ?case .
qed simp

lemma bit_word_of_bytes:
  "bit (word_of_bytes q :: 32 word) i \<longleftrightarrow> i < 32 \<and> i div 8 < length q \<and> bit (rev q ! (i div 8)) (i mod 8)"
  by (simp add: word_of_bytes_def word_rcat_def bit_word_of_int_iff bit_horner_bytes [simplified])

lemma word_of_bytes_and:
  assumes "length q = length m"
  shows "(word_of_bytes (map2 (AND) q m) :: 32 word) = word_of_bytes q AND word_of_bytes m"
proof (rule bit_eqI)
  fix i
  have "rev (map2 (AND) q m) = map2 (AND) (rev q) (rev m)" using assms by (simp add: zip_rev rev_map)
  then show "bit (word_of_bytes (map2 (AND) q m) :: 32 word) i = bit (word_of_bytes q AND word_of_bytes m :: 32 word) i"
    using assms by (auto simp: bit_word_of_bytes bit_and_iff)
qed

lemma word_of_bytes_inj:
  assumes "length p = 4" "length q = 4" "(word_of_bytes p :: 32 word) = word_of_bytes q" shows "p = q"
proof -
  have "rev p = rev q"
  proof (rule nth_equalityI)
    fix k assume k: "k < length (rev p)"
    show "rev p ! k = rev q ! k"
    proof (rule bit_eqI)
      fix j assume j: "possible_bit TYPE(byte) j"
      then have "j < 8" by simp
      then have "(8 * k + j) div 8 = k" "(8 * k + j) mod 8 = j" by simp_all
      moreover have "bit (word_of_bytes p :: 32 word) (8 * k + j) = bit (word_of_bytes q :: 32 word) (8 * k + j)"
        by (simp only: assms(3))
      ultimately show "bit (rev p ! k) j = bit (rev q ! k) j"
        using k assms(1,2) \<open>j < 8\<close> by (simp add: bit_word_of_bytes)
    qed
  qed (use assms in simp)
  then show ?thesis by simp
qed

lemma masks_eq:
  "list_all (\<lambda>b. maskFromLen b = CIDRMask b 32 \<and> length (CIDRMask b 32) = 4 \<and>
     word_of_bytes (CIDRMask b 32) = (high_mask 32 b :: 32 word)) [0..<33]"
  by code_simp

lemma high_mask_eq_iff:
  fixes x y :: "32 word"
  shows "x AND high_mask 32 b = y AND high_mask 32 b \<longleftrightarrow> drop_bit (32 - b) x = drop_bit (32 - b) y"
proof
  assume a: "x AND high_mask 32 b = y AND high_mask 32 b"
  show "drop_bit (32 - b) x = drop_bit (32 - b) y"
  proof (rule bit_eqI)
    fix i
    have "bit (x AND high_mask 32 b) (32 - b + i) = bit (y AND high_mask 32 b) (32 - b + i)" by (simp only: a)
    then show "bit (drop_bit (32 - b) x) i = bit (drop_bit (32 - b) y) i"
      using bit_imp_le_length [of x "32 - b + i"] bit_imp_le_length [of y "32 - b + i"]
      by (auto simp: bit_drop_bit_eq high_mask_def bit_and_iff bit_not_iff bit_mask_iff)
  qed
next
  assume d: "drop_bit (32 - b) x = drop_bit (32 - b) y"
  show "x AND high_mask 32 b = y AND high_mask 32 b"
  proof (rule bit_eqI)
    fix i
    have "bit (drop_bit (32 - b) x) (i - (32 - b)) = bit (drop_bit (32 - b) y) (i - (32 - b))" by (simp only: d)
    then show "bit (x AND high_mask 32 b) i = bit (y AND high_mask 32 b) i"
      by (auto simp: bit_drop_bit_eq high_mask_def bit_and_iff bit_not_iff bit_mask_iff)
  qed
qed

lemma digit_char_facts:
  assumes "d < 10"
  shows "is_digit (digit_char d)" "digit_val (digit_char d) = d" "hex_val (digit_char d) = Some d" "digit_char d \<noteq> CHR ''.''"
proof -
  have c: "code (digit_char d) = 48 + d" using assms by (simp add: digit_char_def code_def)
  then show "is_digit (digit_char d)" "digit_val (digit_char d) = d" "hex_val (digit_char d) = Some d"
    using assms by (simp_all add: is_digit_def digit_val_def hex_val_def)
  have "code (CHR ''.'') = 46" by (simp add: code_def)
  with c show "digit_char d \<noteq> CHR ''.''" by auto
qed

lemma decimal_digits:
  "list_all is_digit (digits_of 10 n) \<and> decimal (digits_of 10 n) = n \<and> digits_of 10 n \<noteq> [] \<and> CHR ''.'' \<notin> set (digits_of 10 n)"
proof (induction n rule: less_induct)
  case (less n)
  show ?case
  proof (cases "n < 10")
    case True
    then show ?thesis using digit_char_facts [OF True] by (subst (1 2 3 4) digits_of.simps) (auto simp: decimal_def)
  next
    case False
    then have "n div 10 < n" by simp
    from less [OF this] digit_char_facts [of "n mod 10"] False show ?thesis
      by (subst (1 2 3 4) digits_of.simps) (auto simp: decimal_def)
  qed
qed

lemma digits_head: "hd (digits_of 10 n) = CHR ''0'' \<longrightarrow> length (digits_of 10 n) = 1"
proof (induction n rule: less_induct)
  case (less n)
  show ?case
  proof (cases "n < 10")
    case True
    then show ?thesis by (subst (1 2) digits_of.simps) simp
  next
    case False
    then have m: "n div 10 < n" "n div 10 \<noteq> 0" by auto
    have d: "digits_of 10 n = digits_of 10 (n div 10) @ [digit_char (n mod 10)]" using False by (subst digits_of.simps) simp
    have z: "length (digits_of 10 k) = 1 \<Longrightarrow> hd (digits_of 10 k) = digit_char k \<and> k < 10" for k
      using decimal_digits [of "k div 10"] by (subst (asm) digits_of.simps, subst digits_of.simps) (auto split: if_splits)
    have "hd (digits_of 10 (n div 10)) \<noteq> CHR ''0''"
    proof
      assume h: "hd (digits_of 10 (n div 10)) = CHR ''0''"
      with less [OF m(1)] z [of "n div 10"] have "digit_char (n div 10) = CHR ''0''" "n div 10 < 10" by auto
      with digit_char_facts(2) [of "n div 10"] m(2) show False by (simp add: digit_val_def code_def)
    qed
    then show ?thesis using decimal_digits [of "n div 10"] by (simp add: d)
  qed
qed

lemma octet_decimal:
  "list_all is_digit s \<Longrightarrow> foldl (\<lambda>n c. n * 10 + digit_val c) k s \<le> 255 \<Longrightarrow>
   octet_loop 10 s k = Some (of_nat (foldl (\<lambda>n c. n * 10 + digit_val c) k s))"
proof (induction s arbitrary: k)
  case (Cons c s)
  have mono: "j \<le> foldl (\<lambda>n c. n * 10 + digit_val c) j t" for j t
  proof (induction t arbitrary: j)
    case (Cons a t)
    from order_trans [OF _ Cons [of "j * 10 + digit_val a"], of j] show ?case by simp
  qed simp
  have h: "hex_val c = Some (digit_val c)" "digit_val c < 10"
    using Cons.prems(1) by (auto simp: hex_val_def digit_val_def is_digit_def)
  have "k * 10 + digit_val c \<le> 255" using mono [of "k * 10 + digit_val c" s] Cons.prems(2) by simp
  then show ?case using Cons h by (simp add: Let_def)
qed simp

lemma parseInetOctet_digits: "parseInetOctet (digits_of 10 (unat (x :: byte))) = Some x"
proof -
  define s where "s = digits_of 10 (unat x)"
  have s: "list_all is_digit s" "decimal s = unat x" "s \<noteq> []" "\<not> (hd s = CHR ''0'' \<and> 1 < length s)"
    using decimal_digits [of "unat x"] digits_head [of "unat x"] by (auto simp: s_def)
  have "unat x < 256" using unsigned_less [of x] by simp
  then have "unat x \<le> 255" by simp
  then have "octet_loop 10 s 0 = Some x" using octet_decimal [OF s(1), of 0] s(2) by (simp add: decimal_def)
  moreover have "hd s \<noteq> CHR ''0'' \<or> length s = 1" using s(3,4) by (cases s) auto
  ultimately show ?thesis
    using s(3) unfolding s_def [symmetric] parseInetOctet_def Let_def by (elim disjE) simp_all
qed

lemma split_byte_plain: "c \<notin> set s \<Longrightarrow> split_byte s c = [s]"
  by (induction s) auto

lemma split_byte_cons: "c \<notin> set s \<Longrightarrow> split_byte (s @ c # t) c = s # split_byte t c"
  by (induction s) auto

lemma parseInetQuad_text:
  assumes "length q = 4" shows "parseInetQuad (ipv4_text q) = Some q"
proof -
  from assms obtain a b c d where q: "q = [a, b, c, d]"
    by (auto simp: length_Suc_conv numeral_eq_Suc)
  have dots: "CHR ''.'' \<notin> set (digits_of 10 n)" for n using decimal_digits by blast
  have "split_byte (ipv4_text q) (CHR ''.'') = map (\<lambda>x. digits_of 10 (unat x)) q"
    by (simp add: q ipv4_text_def split_byte_cons [OF dots] split_byte_plain [OF dots])
  then show ?thesis by (simp add: parseInetQuad_def q parseInetOctet_digits)
qed

lemma parseInetQuad_number: "parseInetQuad (digits_of 10 n) = None"
  using decimal_digits [of n] by (simp add: parseInetQuad_def split_byte_plain)

lemma parsePrefixLen_digits: "n \<le> 32 \<Longrightarrow> parsePrefixLen (digits_of 10 n) 32 = Some n"
proof -
  assume n: "n \<le> 32"
  have "length (digits_of 10 n) \<le> 2"
  proof (cases "n < 10")
    case False
    moreover have "n div 10 < 10" using n by simp
    ultimately show ?thesis by (simp add: digits_of.simps [of 10 n] digits_of.simps [of 10 "n div 10"])
  qed (simp add: digits_of.simps [of 10 n])
  then show ?thesis using decimal_digits [of n] n by (simp add: parsePrefixLen_def)
qed

lemma To4_length: "To4 ip = Some q \<Longrightarrow> length q = 4"
  by (auto simp: To4_def split: option.splits if_splits)

text \<open>C39: IPv4 networks, for every network address and every length from 0 to 32.  In a hosts table, length 0 is a
  syntax error, and otherwise net/length matches an IPv4 peer exactly when neither address is
  255.255.255.255 and clearing all but the leading bits of the peer's address gives the network: a network with
  host bits set matches nobody.  A CIDR range option with an IPv4 prefix matches exactly the IPv4 addresses whose
  leading bits agree with those of the prefix, whatever its other bits.\<close>

theorem v4_prefix_match:
  assumes "length n = 4" "b \<le> 32"
  shows "matchV4 (ipv4_text n) (digits_of 10 b) ep =
      (if b = 0 then Inl (HostsSyntax (ipv4_text n @ ''/'' @ digits_of 10 b))
       else Inr (\<exists>q. To4 (ep_ip ep) = Some q \<and> q \<noteq> [255, 255, 255, 255] \<and> n \<noteq> [255, 255, 255, 255] \<and>
                   word_of_bytes q AND NOT (mask (32 - b)) = (word_of_bytes n :: 32 word))) \<and>
    (compileCIDRMatcher (Addr4 n, b) ip \<longleftrightarrow>
      (\<exists>q. To4 ip = Some q \<and> drop_bit (32 - b) (word_of_bytes q :: 32 word) = drop_bit (32 - b) (word_of_bytes n)))"
proof -
  from masks_eq assms(2) have m: "maskFromLen b = CIDRMask b 32" "length (CIDRMask b 32) = 4"
    "word_of_bytes (CIDRMask b 32) = (high_mask 32 b :: 32 word)" by (auto simp: list_all_iff)
  have len: "length (map2 (AND) p (CIDRMask b 32)) = 4" if "length p = 4" for p :: "byte list" using that m(2) by simp
  have eq1: "map2 (AND) q (CIDRMask b 32) = n \<longleftrightarrow> word_of_bytes q AND NOT (mask (32 - b)) = (word_of_bytes n :: 32 word)"
    if "length q = 4" for q
  proof -
    have "map2 (AND) q (CIDRMask b 32) = n \<longleftrightarrow> word_of_bytes q AND high_mask 32 b = (word_of_bytes n :: 32 word)"
      using word_of_bytes_inj [OF len [OF that] assms(1)] word_of_bytes_and [of q "CIDRMask b 32"] m that by auto
    then show ?thesis by (simp add: high_mask_def)
  qed
  have eq2: "map2 (AND) n (CIDRMask b 32) = map2 (AND) q (CIDRMask b 32) \<longleftrightarrow>
      drop_bit (32 - b) (word_of_bytes q :: 32 word) = drop_bit (32 - b) (word_of_bytes n)" if "length q = 4" for q
  proof -
    have "map2 (AND) n (CIDRMask b 32) = map2 (AND) q (CIDRMask b 32) \<longleftrightarrow>
        (word_of_bytes q AND high_mask 32 b = (word_of_bytes n AND high_mask 32 b :: 32 word))"
      using word_of_bytes_inj [OF len [OF assms(1)] len [OF that]] word_of_bytes_and [of q "CIDRMask b 32"]
        word_of_bytes_and [of n "CIDRMask b 32"] m assms(1) that by auto
    then show ?thesis by (simp add: high_mask_eq_iff)
  qed
  have table: "matchV4 (ipv4_text n) (digits_of 10 b) ep =
      (if b = 0 then Inl (HostsSyntax (ipv4_text n @ ''/'' @ digits_of 10 b))
       else if n = [255, 255, 255, 255] then Inr False
       else case To4 (ep_ip ep) of None \<Rightarrow> Inr False
         | Some q \<Rightarrow> if q = [255, 255, 255, 255] then Inr False else Inr (map2 (AND) q (CIDRMask b 32) = n))"
    using assms m(1)
    by (simp add: matchV4_def Let_def parseInetQuad_text parseInetQuad_number parsePrefixLen_digits split: option.split)
  have range: "compileCIDRMatcher (Addr4 n, b) ip \<longleftrightarrow>
      (\<exists>q. To4 ip = Some q \<and> map2 (AND) n (CIDRMask b 32) = map2 (AND) q (CIDRMask b 32))"
  proof (cases "To4 ip")
    case None
    then have "length x \<noteq> 4" if "ip = Some x" for x using that by (simp add: To4_def split: if_splits)
    then show ?thesis using assms(1) m(2) None by (auto simp: compileCIDRMatcher_def IPNet_Contains_def To4_def [of "Some n"] split: option.split)
  next
    case (Some q)
    then show ?thesis using assms(1) m(2) To4_length [OF Some] by (simp add: compileCIDRMatcher_def IPNet_Contains_def To4_def [of "Some n"])
  qed
  show ?thesis
  proof
    show "compileCIDRMatcher (Addr4 n, b) ip \<longleftrightarrow>
        (\<exists>q. To4 ip = Some q \<and> drop_bit (32 - b) (word_of_bytes q :: 32 word) = drop_bit (32 - b) (word_of_bytes n))"
      unfolding range using eq2 To4_length [of ip] by blast
    show "matchV4 (ipv4_text n) (digits_of 10 b) ep =
      (if b = 0 then Inl (HostsSyntax (ipv4_text n @ ''/'' @ digits_of 10 b))
       else Inr (\<exists>q. To4 (ep_ip ep) = Some q \<and> q \<noteq> [255, 255, 255, 255] \<and> n \<noteq> [255, 255, 255, 255] \<and>
                   word_of_bytes q AND NOT (mask (32 - b)) = (word_of_bytes n :: 32 word)))"
      unfolding table by (cases "To4 (ep_ip ep)") (simp_all add: eq1 [OF To4_length])
  qed
qed

definition no_answer :: "'a \<Rightarrow> 'a lookup" where
  "no_answer v = \<lparr>lk_value = v, lk_err = None, lk_parentErr = False, lk_lookupErr = False\<rparr>"

definition demo_dns :: dns_resolver where
  "demo_dns = \<lparr>LookupAddr = (\<lambda>_. no_answer []), LookupCNAME = (\<lambda>_. no_answer []), LookupIP = (\<lambda>_. no_answer [])\<rparr>"

theorem v4_prefix_match_witness:
  "matchV4 (ipv4_text [10, 1, 0, 0]) (digits_of 10 16) (newEndpoint (TCPAddr (Some (Some [10, 1, 2, 3], [], 80))) demo_dns) = Inr True \<and>
   matchV4 (ipv4_text [255, 255, 255, 0]) (digits_of 10 24) (newEndpoint (TCPAddr (Some (Some [255, 255, 255, 255], [], 80))) demo_dns) = Inr False \<and>
   \<not> compileCIDRMatcher (Addr4 [10, 1, 0, 0], 24) (Some [10, 1, 2, 3])"
proof -
  let ?ep = "\<lambda>q. newEndpoint (TCPAddr (Some (Some q, [], 80))) demo_dns"
  have ip: "ep_ip (?ep q) = Some q" for q by (simp add: newEndpoint_def addrIdentity_def)
  have w: "word_of_bytes [10, 1, 2, 3] AND NOT (mask 16) = (word_of_bytes [10, 1, 0, 0] :: 32 word)"
    "drop_bit 8 (word_of_bytes [10, 1, 2, 3] :: 32 word) \<noteq> drop_bit 8 (word_of_bytes [10, 1, 0, 0])" by code_simp+
  show ?thesis
    using v4_prefix_match [of "[10, 1, 0, 0]" 16 "?ep [10, 1, 2, 3]"] v4_prefix_match [of "[10, 1, 0, 0]" 24 _ "Some [10, 1, 2, 3]"]
      v4_prefix_match [of "[255, 255, 255, 0]" 24 "?ep [255, 255, 255, 255]"] w
    by (simp add: ip To4_def)
qed

subsection \<open>Tables on disk\<close>

text \<open>A logical line is written as pieces, joined by a backslash before the newline.\<close>

definition line_text :: "string list \<Rightarrow> string" where
  "line_text cs = join_text [CHR 0x5C, CHR 0x0A] cs @ [CHR 0x0A]"

definition line_chars :: "string \<Rightarrow> bool" where
  "line_chars s \<longleftrightarrow> list_all (\<lambda>c. c \<noteq> CHR 0x0A \<and> c \<noteq> CHR 0x00) s"

definition line_ok :: "string list \<Rightarrow> bool" where
  "line_ok cs \<longleftrightarrow> cs \<noteq> [] \<and> list_all line_chars cs \<and> length (concat cs) < hostsAccessLineMax \<and>
     \<not> has_suffix (last cs) [CHR 0x0D] \<and> \<not> has_suffix (last cs) [CHR 0x5C]"

lemma read_physical_line:
  "line_chars s \<Longrightarrow> length buf + length s \<le> hostsAccessLineMax \<Longrightarrow>
   read_physical (s @ CHR 0x0A # rest) e buf = (Inr (buf @ s, True), rest)"
  by (induction s arbitrary: buf) (auto simp: line_chars_def)

lemma has_suffix_single: "has_suffix s [c] \<longleftrightarrow> s \<noteq> [] \<and> last s = c"
  by (cases s rule: rev_cases) (auto simp: has_suffix_def)

lemma table_last:
  assumes "line_chars s" "length pend + length s \<le> hostsAccessLineMax" "\<not> has_suffix s [CHR 0x0D]" "\<not> has_suffix s [CHR 0x5C]"
    and "b \<or> pend = []"
  shows "table_loop \<lparr>rd_rest = s @ CHR 0x0A # rest, rd_error = e\<rparr> ls pend b =
    table_loop \<lparr>rd_rest = rest, rd_error = e\<rparr> (ls @ [pend @ s]) [] False"
  using read_physical_line [OF assms(1), of "[]" rest e] assms
  by (subst table_loop.simps) (auto simp: readHostsPhysical_def trim_suffix_def)

lemma table_piece:
  assumes "line_chars s" "length pend + length s < hostsAccessLineMax"
  shows "table_loop \<lparr>rd_rest = s @ [CHR 0x5C, CHR 0x0A] @ rest, rd_error = e\<rparr> ls pend b =
    table_loop \<lparr>rd_rest = rest, rd_error = e\<rparr> ls (pend @ s) True"
proof -
  have "line_chars (s @ [CHR 0x5C])" using assms(1) by (simp add: line_chars_def)
  from read_physical_line [OF this, of "[]" rest e] assms show ?thesis
    by (subst table_loop.simps) (simp add: readHostsPhysical_def has_suffix_single)
qed

lemma table_pieces:
  assumes "cs \<noteq> []" "list_all line_chars cs" "length pend + length (concat cs) < hostsAccessLineMax"
    and "\<not> has_suffix (last cs) [CHR 0x0D]" "\<not> has_suffix (last cs) [CHR 0x5C]" "b \<or> pend = []"
  shows "table_loop \<lparr>rd_rest = line_text cs @ rest, rd_error = e\<rparr> ls pend b =
    table_loop \<lparr>rd_rest = rest, rd_error = e\<rparr> (ls @ [pend @ concat cs]) [] False"
  using assms
proof (induction cs arbitrary: pend b)
  case (Cons c cs)
  show ?case
  proof (cases cs)
    case Nil
    then show ?thesis using table_last [of c pend b rest e ls] Cons.prems by (simp add: line_text_def)
  next
    case (Cons d ds)
    have "line_text (c # cs) @ rest = c @ [CHR 0x5C, CHR 0x0A] @ (line_text cs @ rest)"
      using Cons by (simp add: line_text_def)
    moreover have "table_loop \<lparr>rd_rest = c @ [CHR 0x5C, CHR 0x0A] @ (line_text cs @ rest), rd_error = e\<rparr> ls pend b =
        table_loop \<lparr>rd_rest = line_text cs @ rest, rd_error = e\<rparr> ls (pend @ c) True"
      using Cons.prems by (intro table_piece) simp_all
    ultimately show ?thesis using Cons.IH [of "pend @ c" True] Cons.prems Cons by simp
  qed
qed simp

text \<open>C40: Tables survive the disk: lines written in pieces, joined by backslash and newline, are read back as their
  concatenations, with no framing error, as long as a line is below the limit, holds no newline or NUL and
  does not end in a backslash or carriage return.\<close>

theorem hosts_table_roundtrip:
  assumes "list_all line_ok css"
  shows "parseHostsTable \<lparr>rd_rest = concat (map line_text css), rd_error = None\<rparr> = Inr \<lparr>lines = map concat css, frame = None\<rparr>"
proof -
  have "table_loop \<lparr>rd_rest = concat (map line_text css), rd_error = None\<rparr> ls [] False = Inr \<lparr>lines = ls @ map concat css, frame = None\<rparr>" for ls
    using assms
  proof (induction css arbitrary: ls)
    case Nil
    then show ?case by (subst table_loop.simps) (simp add: readHostsPhysical_def)
  next
    case (Cons cs css)
    then show ?case using table_pieces [of cs "[]" False "concat (map line_text css)" None ls] by (simp add: line_ok_def)
  qed
  then show ?thesis by (simp add: parseHostsTable_def)
qed

theorem hosts_table_roundtrip_witness:
  "parseHostsTable \<lparr>rd_rest = ''sshd: 10.0.0.'' @ [CHR 0x5C, CHR 0x0A] @ ''0/8'' @ [CHR 0x0A] @ ''ALL: ALL'' @ [CHR 0x0A], rd_error = None\<rparr> =
     Inr \<lparr>lines = [''sshd: 10.0.0.0/8'', ''ALL: ALL''], frame = None\<rparr>"
  using hosts_table_roundtrip [of "[[''sshd: 10.0.0.'', ''0/8''], [''ALL: ALL'']]"]
  by (simp add: line_ok_def line_chars_def line_text_def hostsAccessLineMax_def has_suffix_def)

end
