(* ===== verification/Offer.thy ===== *)
theory Offer
  imports Hello
begin

text \<open>
  \<open>internal/dtls13/extensions.go\<close> and \<open>offer.go\<close>: the bodies of the individual extensions and the
  validation of a client's offer.  Go strings on the wire are byte lists, in the model too; a nil share
  or an absent extension is \<open>None\<close>.
\<close>

definition encodeList16 :: "u16 list \<Rightarrow> dtls_error + byte list" where
  "encodeList16 values =
     (if length values = 0 \<or> 32767 < length values then Inl errDecode
      else wr_result (write_vector16 (wr_data (fold writeUint16 values new_writer)) new_writer))"

definition parseList16 :: "byte list \<Rightarrow> dtls_error + u16 list" where
  "parseList16 data =
     (let (list, r) = vector16 (new_reader data) in if rd_done r \<noteq> None then Inl errDecode else uint16List list)"

definition parseVersions :: "byte list \<Rightarrow> dtls_error + u16 list" where
  "parseVersions data =
     (let (list, r) = vector8 (new_reader data) in if rd_done r \<noteq> None then Inl errDecode else uint16List list)"

definition encodeKeyShare :: "u16 \<Rightarrow> byte list \<Rightarrow> dtls_error + byte list" where
  "encodeKeyShare g public =
     (if length public = 0 then Inl errIllegalParameter
      else wr_result (write_vector16 public (writeUint16 g new_writer)))"

abbreviation rd_result :: "wireReader \<Rightarrow> 'a \<Rightarrow> dtls_error + 'a" where
  "rd_result r x \<equiv> (case rd_done r of Some e \<Rightarrow> Inl e | None \<Rightarrow> Inr x)"

function client_shares :: "u16 list \<Rightarrow> wireReader \<Rightarrow> extensions \<Rightarrow> dtls_error + extensions" where
  "client_shares groups r out =
     (if \<not> rd_more r then rd_result r out
      else
        let (group, r1) = readUint16 r; (public, r2) = vector16 r1 in
        if rd_err r2 \<noteq> None \<or> length public = 0 then Inl errDecode
        else if map_of out group \<noteq> None then Inl errIllegalParameter
        else if group \<notin> set groups then Inl errIllegalParameter
        else client_shares groups r2 (out @ [(group, public)]))"
  by pat_completeness auto
termination by (relation "measure (\<lambda>(gs, r, out). rd_left r)") (auto dest: rd_left_pair)

definition parseClientShares :: "byte list \<Rightarrow> u16 list \<Rightarrow> dtls_error + extensions" where
  "parseClientShares data groups =
     (let (list, r) = vector16 (new_reader data) in
      if rd_done r \<noteq> None then Inl errDecode else client_shares groups (new_reader list) [])"

definition parseServerShare :: "byte list \<Rightarrow> dtls_error + u16 \<times> byte list" where
  "parseServerShare data =
     (let (group, r1) = readUint16 (new_reader data); (public, r2) = vector16 r1 in
      if rd_done r2 \<noteq> None \<or> length public = 0 then Inl errDecode else Inr (group, public))"

text \<open>\<open>net.ParseIP\<close> on a name without a colon accepts exactly the dotted IPv4 form: the loop of
  \<open>netip.parseIPv4Fields\<close>, with the value and the number of digits of the current field, the number of
  finished fields and whether a dot may not follow.\<close>

fun ipv4_fields :: "nat \<Rightarrow> nat \<Rightarrow> nat \<Rightarrow> byte list \<Rightarrow> bool" where
  "ipv4_fields val digLen pos [] = (3 \<le> pos)"
| "ipv4_fields val digLen pos (c # rest) =
     (if 48 \<le> c \<and> c \<le> 57 then
        (if digLen = 1 \<and> val = 0 then False
         else
           let val' = val * 10 + (unat c - 48) in
           if 255 < val' then False else ipv4_fields val' (Suc digLen) pos rest)
      else if c = 46 then
        (if digLen = 0 \<or> rest = [] then False
         else if pos = 3 then False
         else ipv4_fields 0 0 (Suc pos) rest)
      else False)"

definition ParseIPv4 :: "byte list \<Rightarrow> bool" where
  "ParseIPv4 name \<longleftrightarrow> ipv4_fields 0 0 0 name"

definition encodeServerName :: "byte list \<Rightarrow> dtls_error + byte list" where
  "encodeServerName name =
     (if name = [] \<or> list_ex (\<lambda>c. c \<in> {0, 91, 93, 58}) name \<or> last name = 46 \<or> ParseIPv4 name
      then Inl errIllegalParameter
      else
        let entry = write_vector16 name (writeUint8 0 new_writer) in
        case wr_err entry of
          Some e \<Rightarrow> Inl e
        | None \<Rightarrow> wr_result (write_vector16 (wr_data entry) new_writer))"

lemma rd_left_named: "(k, r1) = readUint8 r \<Longrightarrow> (v, r2) = vector16 r1 \<Longrightarrow> rd_more r \<Longrightarrow> rd_left r2 < rd_left r"
  using rd_left_uint8 vector16_within by (metis snd_conv)

function server_names :: "wireReader \<Rightarrow> byte list \<Rightarrow> dtls_error + byte list" where
  "server_names r name =
     (if \<not> rd_more r then rd_result r name
      else
        let (kind, r1) = readUint8 r; (val, r2) = vector16 r1 in
        if rd_err r2 \<noteq> None \<or> length val = 0 then Inl errDecode
        else if kind \<noteq> 0 \<or> name \<noteq> [] then Inl errIllegalParameter
        else case encodeServerName val of Inl e \<Rightarrow> Inl e | Inr _ \<Rightarrow> server_names r2 val)"
  by pat_completeness auto
termination by (relation "measure (\<lambda>(r, name). rd_left r)") (auto dest: rd_left_named)

definition parseServerName :: "byte list \<Rightarrow> dtls_error + byte list" where
  "parseServerName data =
     (let (list, r) = vector16 (new_reader data) in
      if rd_done r \<noteq> None \<or> length list = 0 then Inl errDecode else server_names (new_reader list) [])"

fun alpn_list :: "byte list list \<Rightarrow> wireWriter \<Rightarrow> dtls_error + wireWriter" where
  "alpn_list [] w = Inr w"
| "alpn_list (p # ps) w =
     (if p = [] then Inl errIllegalParameter
      else
        let w' = write_vector8 p w in
        if 65535 < length (wr_data w') \<or> wr_err w' \<noteq> None then Inl errDecode else alpn_list ps w')"

definition encodeALPN :: "byte list list \<Rightarrow> dtls_error + byte list" where
  "encodeALPN protocols =
     (if length protocols = 0 then Inl errIllegalParameter
      else bind_ok (alpn_list protocols new_writer) (\<lambda>w. wr_result (write_vector16 (wr_data w) new_writer)))"

function parse_alpn_loop :: "wireReader \<Rightarrow> byte list list \<Rightarrow> dtls_error + byte list list" where
  "parse_alpn_loop r protocols =
     (if \<not> rd_more r then rd_result r protocols
      else
        let (protocol, r1) = vector8 r in
        if length protocol = 0 then Inl errDecode else parse_alpn_loop r1 (protocols @ [protocol]))"
  by pat_completeness auto
termination by (relation "measure (\<lambda>(r, ps). rd_left r)") (auto dest: rd_left_v8)

definition parseALPN :: "byte list \<Rightarrow> dtls_error + byte list list" where
  "parseALPN data =
     (let (list, r) = vector16 (new_reader data) in
      if rd_done r \<noteq> None \<or> length list = 0 then Inl errDecode else parse_alpn_loop (new_reader list) [])"

definition parseCookie :: "byte list \<Rightarrow> dtls_error + byte list" where
  "parseCookie data =
     (let (cookie, r) = vector16 (new_reader data) in
      if rd_done r \<noteq> None \<or> length cookie = 0 then Inl errDecode else Inr cookie)"

definition parseConnectionID :: "byte list \<Rightarrow> dtls_error + byte list" where
  "parseConnectionID data = (let (c, r) = vector8 (new_reader data) in rd_result r c)"

declare client_shares.simps [simp del] server_names.simps [simp del] parse_alpn_loop.simps [simp del]

subsection \<open>The client's offer\<close>

lemma rd_left_identity: "(v, r1) = vector16 r \<Longrightarrow> (x, r2) = rd_take n r1 \<Longrightarrow> rd_more r \<Longrightarrow> rd_left r2 < rd_left r"
  using rd_left_vector16 rd_take_within by (metis snd_conv)

function psk_identities :: "wireReader \<Rightarrow> int \<Rightarrow> (dtls_error + int) \<times> wireReader" where
  "psk_identities r count =
     (if \<not> rd_more r then (Inr count, r)
      else
        let (identity, r1) = vector16 r; (_, r2) = rd_take 4 r1 in
        if length identity = 0 \<or> rd_err r2 \<noteq> None then (Inl errDecode, r2) else psk_identities r2 (count + 1))"
  by pat_completeness auto
termination by (relation "measure (\<lambda>(r, n). rd_left r)") (auto dest: rd_left_identity)

function psk_binders :: "wireReader \<Rightarrow> int \<Rightarrow> (dtls_error + int) \<times> wireReader" where
  "psk_binders r count =
     (if \<not> rd_more r then (Inr count, r)
      else
        let (binder, r1) = vector8 r in
        if length binder < 32 \<or> rd_err r1 \<noteq> None then (Inl errDecode, r1) else psk_binders r1 (count - 1))"
  by pat_completeness auto
termination by (relation "measure (\<lambda>(r, n). rd_left r)") (auto dest: rd_left_v8)

declare psk_identities.simps [simp del] psk_binders.simps [simp del]

definition validatePSKOffer :: "byte list \<Rightarrow> byte list \<Rightarrow> dtls_error + unit" where
  "validatePSKOffer data modes =
     (let (modeList, m) = vector8 (new_reader modes) in
      if rd_done m \<noteq> None \<or> length modeList = 0 then Inl errDecode
      else
        let (ids, r1) = vector16 (new_reader data); (bs, r2) = vector16 r1 in
        if rd_done r2 \<noteq> None \<or> length ids = 0 then Inl errDecode
        else case psk_identities (new_reader ids) 0 of
          (Inl e, _) \<Rightarrow> Inl e
        | (Inr n, i) \<Rightarrow>
            (case psk_binders (new_reader bs) n of
               (Inl e, _) \<Rightarrow> Inl e
             | (Inr n', b) \<Rightarrow>
                 if rd_done i \<noteq> None \<or> rd_done b \<noteq> None \<or> n' \<noteq> 0 then Inl errDecode else Inr ()))"

record clientOffer =
  co_groups :: "u16 list"
  co_signatures :: "u16 list"
  co_shares :: extensions
  co_serverName :: "byte list"
  co_protocols :: "byte list list"
  co_cid :: "byte list"
  co_cidOffered :: bool
  co_rrc :: bool
  co_cookie :: "byte list"

definition optional :: "extensions \<Rightarrow> u16 \<Rightarrow> (byte list \<Rightarrow> dtls_error + 'a) \<Rightarrow> 'a \<Rightarrow> dtls_error + 'a" where
  "optional e i parse dflt = (case map_of e i of None \<Rightarrow> Inr dflt | Some data \<Rightarrow> parse data)"

definition parseClientOffer :: "clientHello \<Rightarrow> dtls_error + clientOffer" where
  "parseClientOffer hello =
     (let e = ch_extensions hello; get = (\<lambda>i. the (map_of e i)) in
      if list_ex (\<lambda>i. map_of e i = None) [extSupportedVersions, extSupportedGroups, extKeyShare, extSignatureAlgorithms]
      then Inl errMissingExtension
      else
        bind_ok (parseVersions (get extSupportedVersions)) (\<lambda>versions.
        if version13 \<notin> set versions then Inl errProtocolVersion
        else
          bind_ok (parseList16 (get extSupportedGroups)) (\<lambda>groups.
          bind_ok (parseList16 (get extSignatureAlgorithms)) (\<lambda>signatures.
          bind_ok (parseClientShares (get extKeyShare) groups) (\<lambda>shares.
          bind_ok (optional e extServerName parseServerName []) (\<lambda>serverName.
          bind_ok (optional e extALPN parseALPN []) (\<lambda>protocols.
          bind_ok (optional e extConnectionID (\<lambda>d. bind_ok (parseConnectionID d) (\<lambda>c. Inr (c, True))) ([], False))
            (\<lambda>(c, cidOffered).
          bind_ok (optional e extRRC (\<lambda>d. if length d \<noteq> 0 then Inl errDecode else Inr cidOffered) False) (\<lambda>rrc.
          bind_ok (optional e extCookie parseCookie []) (\<lambda>cookie.
          bind_ok (optional e extPreSharedKey (\<lambda>d. case map_of e extPSKModes of
                     None \<Rightarrow> Inl errMissingExtension | Some modes \<Rightarrow> validatePSKOffer d modes) ()) (\<lambda>_.
          bind_ok (optional e extEarlyData (\<lambda>d. if length d \<noteq> 0 then Inl errDecode
                     else if map_of e extPreSharedKey = None then Inl errIllegalParameter else Inr ()) ()) (\<lambda>_.
          Inr \<lparr>co_groups = groups, co_signatures = signatures, co_shares = shares, co_serverName = serverName,
               co_protocols = protocols, co_cid = c, co_cidOffered = cidOffered, co_rrc = rrc,
               co_cookie = cookie\<rparr>))))))))))))"

end
