(* ===== verification/DriverProps.thy ===== *)
theory DriverProps
  imports SessionDemo
begin

text \<open>
  What the driver of a connection (\<open>conn.go\<close>) guarantees in every run, whatever arrives, is
  read, written or closed beside it: the queues of datagrams and of plaintext stay within their bounds and
  their byte counts are exact, and a handshake with a deadline is over when the deadline has passed.
\<close>

subsection \<open>The queues of a connection\<close>

definition queues_ok :: "'h driver \<Rightarrow> bool" where
  "queues_ok d \<longleftrightarrow>
     length (incoming d) \<le> maxQueuedRecords \<and>
     incomingBytes d = int (sum_list (map (\<lambda>p. length (fst p)) (incoming d))) \<and> incomingBytes d \<le> maxIncomingBytes \<and>
     length (readQueue d) \<le> maxQueuedRecords \<and>
     readBytes d = int (sum_list (map (cap_of d) (readQueue d))) \<and> readBytes d \<le> int maxApplicationBytes"

lemma same_conn_queues: "same_conn d d' \<Longrightarrow> queues_ok d \<Longrightarrow> queues_ok d'"
  by (simp add: same_conn_def queues_ok_def)

lemma queues_field [simp]:
  "queues_ok (d\<lparr>dr_session := s\<rparr>) = queues_ok d" "queues_ok (d\<lparr>queuedBeforeTimeout := n\<rparr>) = queues_ok d"
  "queues_ok (d\<lparr>dr_ready := b\<rparr>) = queues_ok d" "queues_ok (d\<lparr>dr_pending := c\<rparr>) = queues_ok d"
  "queues_ok (d\<lparr>writeDeadline := t\<rparr>) = queues_ok d" "queues_ok (conn_shutdown e x d) = queues_ok d"
  "queues_ok (conn_fail e d) = queues_ok d" "queues_ok (fatal e d) = queues_ok d"
  "queues_ok (on_session f d) = queues_ok d" "queues_ok (send_alert body d) = queues_ok d"
  by (simp_all add: queues_ok_def conn_shutdown_def conn_fail_def fatal_def on_session_def send_alert_def)

lemma queues_enqueue: "queues_ok d \<Longrightarrow> queues_ok (enqueue_read p d)"
  by (simp add: queues_ok_def enqueue_read_def)

lemma queues_publish: "queues_ok d \<Longrightarrow> queues_ok (publish data d)"
proof -
  assume "queues_ok d"
  then have "queues_ok (fold enqueue_read data d)"
    by (induction data arbitrary: d) (simp_all add: queues_enqueue)
  then show ?thesis by (simp add: publish_def Let_def queues_ok_def)
qed

lemma queues_taken:
  assumes "queues_ok d" "incoming d = p # rest" "dr_session e = dr_session d" "incoming e = rest"
    "incomingBytes e = incomingBytes d" "readQueue e = readQueue d" "readBytes e = readBytes d" "cap_of e = cap_of d"
  shows "queues_ok (snd (receivePacket p now0 now e))"
proof -
  have "queues_ok (releasePacket (length (fst p)) e)"
    using assms by (simp add: queues_ok_def releasePacket_def)
  then show ?thesis
    by (simp add: receivePacket_def Let_def queues_publish split: prod.split sum.split)
qed

lemma queues_tick: "queues_ok d \<Longrightarrow> queues_ok (snd (tick_round now configured accept cancelled wait d))"
  using same_conn_queues [OF same_conn_tick [OF prod.collapse [symmetric]]] by simp

lemma queues_drain:
  assumes "queues_ok d" shows "queues_ok (snd (drain_round now0 now since d))"
proof -
  define d0 where "d0 = (if queuedBeforeTimeout d < 0 then d\<lparr>queuedBeforeTimeout := int (length (incoming d))\<rparr> else d)"
  have d0: "queues_ok d0" "incoming d0 = incoming d" using assms by (simp_all add: d0_def)
  have "queues_ok (snd (receivePacket p now0 now (d0\<lparr>incoming := rest, queuedBeforeTimeout := n\<rparr>)))"
    if "incoming d = p # rest" for p rest n
    by (rule queues_taken [OF d0(1)]) (use that d0(2) in simp_all)
  then show ?thesis
    using d0 by (auto simp: drain_round_def Let_def d0_def [symmetric] case_prod_unfold split: list.split)
qed

lemma released_queues:
  fixes e :: "'h driver"
  defines "f \<equiv> fold (\<lambda>p. releasePacket (length (fst p)))"
  shows "incomingBytes (f ps e) = incomingBytes e - int (sum_list (map (\<lambda>p. length (fst p)) ps))"
    "incoming (f ps e) = incoming e" "readQueue (f ps e) = readQueue e" "readBytes (f ps e) = readBytes e" "cap_of (f ps e) = cap_of e"
  unfolding f_def by (induction ps arbitrary: e) (simp_all add: releasePacket_def)

lemma queues_released:
  "queues_ok e \<Longrightarrow> incoming e = ps \<Longrightarrow> queues_ok (fold (\<lambda>p. releasePacket (length (fst p))) ps (e\<lparr>incoming := []\<rparr>))"
  by (simp add: queues_ok_def released_queues maxIncomingBytes_def)

lemma queues_step: "driver_step x y \<Longrightarrow> queues_ok (snd x) \<Longrightarrow> queues_ok (snd y)"
proof (induction rule: driver_step.induct)
  case (round d now now0 now' configured accept cancelled)
  then show ?case by (simp add: run_round_def queues_tick queues_drain split: option.split)
next
  case (packet d p rest now0 now' going d' dl)
  then have "queues_ok (snd (receivePacket p now0 now' (d\<lparr>incoming := rest\<rparr>)))"
    by (intro queues_taken [of d p rest]) simp_all
  then show ?case using packet by simp
next
  case (teardown d)
  then show ?case by (simp add: Driver.teardown_def Let_def queues_released)
next
  case (arrive fl d data f)
  then show ?case by (auto simp: deliver_def queues_ok_def split: prod.split bool.split)
next
  case (read fl d n)
  then show ?case by (auto simp: conn_Read_def queues_ok_def split: option.split list.split)
qed simp_all

lemma queues_start: "queues_ok d \<Longrightarrow> queues_ok (snd (run_start now d))"
  by (simp add: run_start_def Let_def queues_ok_def send_alert_def on_session_def conn_fail_def conn_shutdown_def
      split: prod.split sum.split)

lemma queues_run: "driver_step\<^sup>*\<^sup>* x y \<Longrightarrow> queues_ok (snd x) \<Longrightarrow> queues_ok (snd y)"
  by (induction rule: rtranclp_induct) (auto intro: queues_step)

text \<open>C34: In every run of a new connection the datagram queue and the plaintext queue hold at most
  \<open>maxQueuedRecords\<close> entries each, at most \<open>maxIncomingBytes\<close> bytes of datagrams and at most
  \<open>maxApplicationBytes\<close> bytes of plaintext buffers, and both byte counters are exactly what is queued.\<close>

theorem queues_bounded:
  assumes "driver_step\<^sup>*\<^sup>* (run_start now (attach s (newConn address cap s0))) (fl, d')"
  shows "length (incoming d') \<le> maxQueuedRecords \<and> length (readQueue d') \<le> maxQueuedRecords \<and>
    incomingBytes d' = int (sum_list (map (\<lambda>p. length (fst p)) (incoming d'))) \<and> incomingBytes d' \<le> maxIncomingBytes \<and>
    readBytes d' = int (sum_list (map (cap_of d') (readQueue d'))) \<and> readBytes d' \<le> int maxApplicationBytes"
proof -
  have "queues_ok (attach s (newConn address cap s0))"
    by (simp add: queues_ok_def attach_def newConn_def maxIncomingBytes_def)
  then have "queues_ok d'" using queues_run [OF assms] queues_start [of "attach s (newConn address cap s0)" now] by simp
  then show ?thesis by (simp add: queues_ok_def)
qed

theorem queues_bounded_witness:
  "\<exists>d'. driver_step (run_start 0 (attach demo_idle demo_driver)) (Top, d') \<and>
     incoming d' = [([1, 2, 3, 4, 5], demo_other)] \<and> incomingBytes d' = 5"
proof -
  define x where "x = run_start 0 (attach demo_idle demo_driver)"
  define d' where "d' = deliver [1, 2, 3, 4, 5] demo_other (snd x)"
  have x: "x = (Top, snd x)" using demo_idle_start(1) by (metis x_def prod.collapse)
  have step: "driver_step x (Top, d')" unfolding d'_def by (subst x) (rule driver_step.arrive)
  have q: "incoming d' = [([1, 2, 3, 4, 5], demo_other)]"
    using demo_idle_start by (simp add: d'_def x_def deliver_def reserve_def maxQueuedRecords_def maxIncomingBytes_def flightBurst_def)
  from step have "driver_step\<^sup>*\<^sup>* (run_start 0 (attach demo_idle demo_driver)) (Top, d')" unfolding x_def by (rule r_into_rtranclp)
  from queues_bounded [OF this [unfolded demo_driver_def]] have "incomingBytes d' = 5" by (simp add: q)
  with step q show ?thesis by (auto simp: x_def)
qed

subsection \<open>The deadline of the handshake\<close>

definition deadline_kept :: "int \<Rightarrow> flow \<times> 'h driver \<Rightarrow> bool" where
  "deadline_kept t x \<longleftrightarrow> handshakeDeadline (snd x) = Some t \<and>
     (\<not> dr_ready (snd x) \<longrightarrow> (case fst x of Wait dl \<Rightarrow> \<exists>u. dl = Some u \<and> u \<le> t | _ \<Rightarrow> True))"

lemma deadline_fields [simp]:
  "handshakeDeadline (conn_shutdown e b d) = handshakeDeadline d" "dr_ready (conn_shutdown e b d) = dr_ready d"
  "handshakeDeadline (conn_fail e d) = handshakeDeadline d" "dr_ready (conn_fail e d) = dr_ready d"
  "handshakeDeadline (fatal e d) = handshakeDeadline d" "handshakeDeadline (on_session f d) = handshakeDeadline d"
  "dr_ready (on_session f d) = dr_ready d" "handshakeDeadline (send_alert body d) = handshakeDeadline d"
  "handshakeDeadline (releasePacket n d) = handshakeDeadline d" "handshakeDeadline (enqueue_read q d) = handshakeDeadline d"
  by (simp_all add: conn_shutdown_def conn_fail_def fatal_def on_session_def send_alert_def releasePacket_def enqueue_read_def)

lemma deadline_fold [simp]:
  "handshakeDeadline (fold enqueue_read qs d) = handshakeDeadline d"
  "handshakeDeadline (fold (\<lambda>p. releasePacket (length (fst p))) ps d) = handshakeDeadline d"
  by (induction qs arbitrary: d, simp_all) (induction ps arbitrary: d, simp_all)

lemma deadline_receive [simp]: "handshakeDeadline (snd (receivePacket p now0 now d)) = handshakeDeadline d"
  by (simp add: receivePacket_def publish_def Let_def split: prod.split sum.split)

lemma deadline_outside [simp]:
  "handshakeDeadline (snd (conn_Read n d)) = handshakeDeadline d" "dr_ready (snd (conn_Read n d)) = dr_ready d"
  "handshakeDeadline (deliver data a d) = handshakeDeadline d" "dr_ready (deliver data a d) = dr_ready d"
  by (simp_all add: conn_Read_def deliver_def split: option.split list.split prod.split bool.split)

lemma earlier_bound: "\<exists>u. earlierDeadline x (earlierDeadline (Some t) y) = Some u \<and> u \<le> t"
  by (auto simp: earlierDeadline_def split: option.split)

lemma tick_wait:
  assumes "tick_round now configured accept cancelled wait d = (Wait dl, d')" "handshakeDeadline d = Some t" "\<not> dr_ready d'"
  shows "\<exists>u. dl = Some u \<and> u \<le> t"
proof -
  obtain r s where p: "session_tick now (dr_session d) = (r, s)" by fastforce
  define d1 where "d1 = publishMaxDatagram (d\<lparr>dr_session := s, queuedBeforeTimeout := - 1\<rparr>)"
  obtain e d2 where q: "become_ready configured d1 = (e, d2)" by fastforce
  have w: "d' = run_pending cancelled now d2"
    "dl = (if dr_ready d' then session_deadline (dr_session d')
           else earlierDeadline (session_deadline (dr_session d')) (earlierDeadline (if dr_ready d then None else handshakeDeadline d) wait))"
    using assms(1) p q by (auto simp: tick_round_def Let_def d1_def split: sum.splits option.splits if_splits)
  have "dr_ready d \<longrightarrow> dr_ready d'"
    using same_conn_ready [OF q] same_conn_pending [of d2 cancelled now] w(1) by (simp add: same_conn_def d1_def publishMaxDatagram_def)
  then show ?thesis using w(2) assms(2,3) earlier_bound by auto
qed

lemma deadline_round:
  assumes "handshakeDeadline d = Some t"
  shows "deadline_kept t (run_round now now0 now' configured accept cancelled d)"
proof -
  have tick: "deadline_kept t (tick_round now configured accept cancelled wait d)" for wait
  proof -
    obtain fl d' where r: "tick_round now configured accept cancelled wait d = (fl, d')" by fastforce
    then have "handshakeDeadline d' = Some t" using same_conn_tick [OF r] assms by (simp add: same_conn_def)
    then show ?thesis using tick_wait [of now configured accept cancelled wait d _ d' t] r assms
      by (auto simp: deadline_kept_def split: flow.split)
  qed
  have "deadline_kept t (drain_round now0 now' since d)" for since
    using assms by (auto simp: deadline_kept_def drain_round_def Let_def case_prod_unfold split: list.split)
  with tick show ?thesis using assms by (auto simp: run_round_def deadline_kept_def split: option.split)
qed

lemma deadline_step: "driver_step x y \<Longrightarrow> deadline_kept t x \<Longrightarrow> deadline_kept t y"
proof (induction rule: driver_step.induct)
  case (round d now now0 now' configured accept cancelled)
  then show ?case by (intro deadline_round) (simp add: deadline_kept_def)
next
  case (packet d p rest now0 now' going d' dl)
  then show ?case using deadline_receive [of p now0 now' "d\<lparr>incoming := rest\<rparr>"] by (simp add: deadline_kept_def)
qed (simp_all add: deadline_kept_def Driver.teardown_def Let_def)

lemma deadline_run: "driver_step\<^sup>*\<^sup>* x y \<Longrightarrow> deadline_kept t x \<Longrightarrow> deadline_kept t y"
  by (induction rule: rtranclp_induct) (auto intro: deadline_step)

text \<open>C33: A handshake whose configuration has a timeout does not outlive it.  While it is not ready the driver
  never sleeps past the deadline, and a round that starts at or after the deadline stops with an error set,
  whatever has arrived, been read or been written in between.\<close>

theorem handshake_deadline:
  assumes "run_start now d = (Top, d0)" "\<not> DisableHandshakeTimeout (the (hs_config (handshake (dr_session d0))))"
    and "driver_step\<^sup>*\<^sup>* (Top, d0) (fl, d')" "\<not> dr_ready d'"
    and "t = now + HandshakeTimeout (the (hs_config (handshake (dr_session d0))))"
  shows "(\<forall>dl. fl = Wait dl \<longrightarrow> (\<exists>u. dl = Some u \<and> u \<le> t)) \<and>
    (t \<le> later \<longrightarrow> fst (run_round later now0 now' configured accept cancelled d') = Stopped \<and>
       conn_err (snd (run_round later now0 now' configured accept cancelled d')) \<noteq> None)"
proof -
  have "deadline_kept t (Top, d0)"
    using assms(1,2,5) by (auto simp: run_start_def deadline_kept_def Let_def split: if_splits prod.splits sum.splits)
  with deadline_run [OF assms(3)] have "deadline_kept t (fl, d')" by blast
  then show ?thesis
    using assms(4) by (auto simp: deadline_kept_def run_round_def is_before_def conn_fail_def conn_shutdown_def)
qed

theorem handshake_deadline_witness:
  "fst (run_round 30000000000 0 0 False True False (snd (run_start 0 (attach demo_idle demo_driver)))) = Stopped \<and>
   conn_err (snd (run_round 30000000000 0 0 False True False (snd (run_start 0 (attach demo_idle demo_driver))))) \<noteq> None"
proof -
  define d0 where "d0 = snd (run_start 0 (attach demo_idle demo_driver))"
  have r: "run_start 0 (attach demo_idle demo_driver) = (Top, d0)" using demo_idle_start(1) by (metis d0_def prod.collapse)
  have "processHandshakes 0 (dr_session (attach demo_idle demo_driver)) = (Inr (), dr_session (attach demo_idle demo_driver))"
    by (subst processHandshakes.simps) (simp add: attach_def demo_idle_def newSession_def pop_def)
  moreover have "conn_err (attach demo_idle demo_driver) = None" by (simp add: attach_def demo_driver_def newConn_def)
  ultimately have d0: "handshake (dr_session d0) = demo_handshake" "\<not> dr_ready d0"
    by (simp_all add: d0_def run_start_def Let_def) (simp add: attach_def demo_idle_def newSession_def)
  have c: "the (hs_config (handshake (dr_session d0))) = demo_config" by (simp add: d0(1) demo_handshake_def)
  have t: "\<not> DisableHandshakeTimeout demo_config" "HandshakeTimeout demo_config = 30000000000" by (simp_all add: demo_config_def)
  show ?thesis
    using handshake_deadline [OF r _ rtranclp.rtrancl_refl d0(2) refl, of 30000000000 0 0 False True False] c t
    by (simp add: d0_def)
qed

end
