(* ===== verification/HelloProps.thy ===== *)
theory HelloProps
  imports Hello
begin

text \<open>
  The codecs of ClientHello and ServerHello (\<open>hello.go\<close>) are inverse to each other: what \<open>marshal\<close> writes,
  with the extensions sorted and the pre-shared key last, is what the parsers accept and read back.
\<close>

subsection \<open>Extension blocks\<close>

definition ext_bytes :: "extensions \<Rightarrow> u16 \<Rightarrow> byte list" where
  "ext_bytes e i = be_enc 2 (unat i) @ be_enc 2 (length (the (map_of e i))) @ the (map_of e i)"

lemma ext_write:
  fixes e :: extensions
  assumes "wr_err (fold (\<lambda>i w. write_vector16 (the (map_of e i)) (writeUint16 i w)) ks w) = None"
  shows "wr_err w = None \<and> list_all (\<lambda>i. length (the (map_of e i)) \<le> 65535) ks \<and>
    wr_data (fold (\<lambda>i w. write_vector16 (the (map_of e i)) (writeUint16 i w)) ks w) = wr_data w @ concat (map (ext_bytes e) ks)"
  using assms
proof (induction ks arbitrary: w)
  case (Cons k ks)
  define u where "u = write_vector16 (the (map_of e k)) (writeUint16 k w)"
  have u: "wr_err u = None" "list_all (\<lambda>i. length (the (map_of e i)) \<le> 65535) ks"
    "wr_data (fold (\<lambda>i w. write_vector16 (the (map_of e i)) (writeUint16 i w)) ks u) = wr_data u @ concat (map (ext_bytes e) ks)"
    using Cons.IH [of u] Cons.prems by (simp_all add: u_def)
  have "length (the (map_of e k)) \<le> 65535"
    using u(1) write_oversized(2) [of "the (map_of e k)" "writeUint16 k w"] by (force simp: u_def)
  then show ?case using u by (simp add: u_def ext_bytes_def [of e k] del: be_enc.simps)
qed simp

lemma marshal_keys_facts:
  assumes "distinct (map fst e)"
  shows "distinct (marshal_keys e)" "set (marshal_keys e) = fst ` set e"
proof -
  have "map_of e extPreSharedKey \<noteq> None \<longleftrightarrow> extPreSharedKey \<in> fst ` set e" by (simp add: map_of_eq_None_iff)
  then show "distinct (marshal_keys e)" "set (marshal_keys e) = fst ` set e"
    using assms by (auto simp: marshal_keys_def)
qed

lemma marshal_keys_last: "marshal_keys e = xs @ extPreSharedKey # ys \<Longrightarrow> ys = []"
proof -
  assume m: "marshal_keys e = xs @ extPreSharedKey # ys"
  define ks where "ks = sort (filter (\<lambda>i. i \<noteq> extPreSharedKey) (map fst e))"
  have ks: "extPreSharedKey \<notin> set ks" by (simp add: ks_def)
  show "ys = []"
  proof (cases "map_of e extPreSharedKey")
    case None
    then have "ks = xs @ extPreSharedKey # ys" using m by (simp add: marshal_keys_def ks_def)
    then show ?thesis using ks by simp
  next
    case (Some v)
    then have "ks @ [extPreSharedKey] = xs @ extPreSharedKey # ys" using m by (simp add: marshal_keys_def ks_def)
    then show ?thesis using ks by (cases ys rule: rev_cases) (auto simp: append_eq_append_conv2)
  qed
qed

lemma parse_ext_written:
  assumes "distinct (map fst out @ ks)" "list_all (\<lambda>i. length (the (map_of e i)) \<le> 65535) ks"
    and "\<And>xs ys. ks = xs @ extPreSharedKey # ys \<Longrightarrow> ys = []"
  shows "parse_ext_loop t (new_reader (concat (map (ext_bytes e) ks))) out = Inr (out @ map (\<lambda>i. (i, the (map_of e i))) ks)"
  using assms
proof (induction ks arbitrary: out)
  case Nil
  then show ?case by (subst parse_ext_loop.simps) simp
next
  case (Cons k ks)
  have last: "k = extPreSharedKey \<Longrightarrow> ks = []" using Cons.prems(3) [of "[]" ks] by simp
  have "\<And>xs ys. ks = xs @ extPreSharedKey # ys \<Longrightarrow> ys = []" using Cons.prems(3) [of "k # _"] by simp
  with Cons have IH: "parse_ext_loop t (new_reader (concat (map (ext_bytes e) ks))) (out @ [(k, the (map_of e k))]) =
      Inr ((out @ [(k, the (map_of e k))]) @ map (\<lambda>i. (i, the (map_of e i))) ks)"
    by auto
  have "ext_bytes e k \<noteq> []" by (simp add: ext_bytes_def)
  moreover have "map_of out k = None" using Cons.prems(1) by (auto simp: map_of_eq_None_iff)
  ultimately show ?case
    using IH last Cons.prems(2)
    by (subst parse_ext_loop.simps) (auto simp: ext_bytes_def [of e k] simp del: be_enc.simps)
qed

lemma ext_roundtrip:
  assumes "ext_marshal e = Inr b" "distinct (map fst e)"
  shows "\<exists>es. parseExtensions b t = Inr es \<and> map_of es = map_of e" "length b \<le> 65535"
proof -
  define w where "w = fold (\<lambda>i w. write_vector16 (the (map_of e i)) (writeUint16 i w)) (marshal_keys e) new_writer"
  have w: "wr_err w = None" "b = wr_data w" "length b \<le> 65535"
    using assms(1) by (auto simp: ext_marshal_def w_def [symmetric] Let_def split: option.splits if_splits)
  from ext_write [OF w(1) [unfolded w_def]] have
    c: "list_all (\<lambda>i. length (the (map_of e i)) \<le> 65535) (marshal_keys e)" "b = concat (map (ext_bytes e) (marshal_keys e))"
    by (simp_all add: w(2) w_def)
  have "parseExtensions b t = Inr (map (\<lambda>i. (i, the (map_of e i))) (marshal_keys e))"
    using parse_ext_written [of "[]" "marshal_keys e" e t] marshal_keys_facts(1) [OF assms(2)] c marshal_keys_last
    by (simp add: parseExtensions_def)
  moreover have "map_of (map (\<lambda>i. (i, the (map_of e i))) (marshal_keys e)) = map_of e"
    by (rule map_of_map_keys) (simp add: marshal_keys_facts(2) [OF assms(2)] dom_map_of_conv_image_fst)
  ultimately show "\<exists>es. parseExtensions b t = Inr es \<and> map_of es = map_of e" by blast
  show "length b \<le> 65535" by (rule w(3))
qed

subsection \<open>Hello messages\<close>

lemma suites_written:
  "wr_data (fold writeUint16 xs w) = wr_data w @ concat (map (\<lambda>x. be_enc 2 (unat x)) xs) \<and> wr_err (fold writeUint16 xs w) = wr_err w"
  by (induction xs arbitrary: w) (simp_all del: be_enc.simps)

lemma uint16s_written: "uint16s (concat (map (\<lambda>x. be_enc 2 (unat x)) xs)) = xs"
proof (induction xs)
  case (Cons x xs)
  obtain a b where ab: "be_enc 2 (unat x) = [a, b]"
    using length_be_enc [of 2 "unat x"] by (auto simp: length_Suc_conv numeral_2_eq_2 simp del: be_enc.simps length_be_enc)
  have "be_dec [a, b] = unat x" using be_dec_enc [of "unat x" 2] unat_u16_lt [of x] ab by simp
  with Cons ab show ?case by (simp del: be_enc.simps)
qed simp

lemma length_suites: "length (concat (map (\<lambda>x. be_enc 2 (unat x)) xs)) = 2 * length xs"
  by (induction xs) (simp_all del: be_enc.simps)

lemma client_hello_read:
  assumes "length rnd = 32" "length sid \<le> 32" "length S \<le> 65535" "2 \<le> length S" "length S mod 2 = 0" "8 \<le> length ext" "length ext \<le> 65535"
  shows "parseClientHello (be_enc 2 (unat legacyVersion) @ rnd @ of_nat (length sid) # sid @ 0 # be_enc 2 (length S) @ S @
      1 # 0 # be_enc 2 (length ext) @ ext) =
    bind_ok (parseExtensions ext msgClientHello) (\<lambda>es.
      Inr \<lparr>ch_random = rnd, ch_sessionID = sid, ch_suites = uint16s S, ch_extensions = es\<rparr>)"
proof -
  have v: "vector8 (new_reader (of_nat (length v) # v @ rest)) = (v, new_reader rest)" if "length v \<le> 255" for v rest
    using that by simp
  have e: "vector8 (new_reader (0 # rest)) = ([], new_reader rest)" for rest using v [of "[]" rest] by simp
  have o: "vector8 (new_reader (1 # 0 # rest)) = ([0], new_reader rest)" for rest using v [of "[0]" rest] by simp
  have x: "vector16 (new_reader (be_enc 2 (length ext) @ ext)) = (ext, new_reader [])"
    using vector16_enc [of ext "[]"] assms(7) by simp
  show ?thesis
    unfolding parseClientHello_def readUint16_enc rd_take_append [OF assms(1)] Let_def prod.case
    using assms by (simp add: e o x del: be_enc.simps)
qed

lemma client_hello_roundtrip:
  assumes "length (ch_random h) = 32" "distinct (map fst (ch_extensions h))" "clientHello_marshal h = Inr b"
  shows "\<exists>es. parseClientHello b = Inr (h\<lparr>ch_extensions := es\<rparr>) \<and> map_of es = map_of (ch_extensions h)"
proof -
  from assms(3) obtain ext where e: "ext_marshal (ch_extensions h) = Inr ext" "8 \<le> length ext" "length (ch_sessionID h) \<le> 32"
      "ch_suites h \<noteq> []" "length (ch_suites h) \<le> 32767"
    by (auto simp: clientHello_marshal_def bind_ok_eq_Inr split: if_splits)
  define S where "S = concat (map (\<lambda>x. be_enc 2 (unat x)) (ch_suites h))"
  have S: "wr_data (fold writeUint16 (ch_suites h) new_writer) = S" "length S = 2 * length (ch_suites h)" "uint16s S = ch_suites h"
    using suites_written [of "ch_suites h" new_writer] by (simp_all add: S_def length_suites uint16s_written)
  obtain es where x: "parseExtensions ext msgClientHello = Inr es" "map_of es = map_of (ch_extensions h)" "length ext \<le> 65535"
    using ext_roundtrip(1) [OF e(1) assms(2), of msgClientHello] ext_roundtrip(2) [OF e(1) assms(2)] by blast
  have "b = be_enc 2 (unat legacyVersion) @ ch_random h @ of_nat (length (ch_sessionID h)) # ch_sessionID h @ 0 # be_enc 2 (length S) @ S @
      1 # 0 # be_enc 2 (length ext) @ ext"
    using assms(3) e x(3) S by (simp add: clientHello_marshal_def append_raw_def Let_def del: be_enc.simps)
  moreover have "2 \<le> length S" using e(4) S(2) by (cases "ch_suites h") auto
  ultimately show ?thesis
    using client_hello_read [of "ch_random h" "ch_sessionID h" S ext] assms(1) e S x
    by (intro exI [of _ es]) (cases h, simp)
qed

lemma server_hello_roundtrip:
  assumes "length (sh_random h) = 32" "distinct (map fst (sh_extensions h))" "serverHello_marshal h = Inr b"
  shows "\<exists>es. parseServerHello b = Inr (h\<lparr>sh_extensions := es\<rparr>) \<and> map_of es = map_of (sh_extensions h)"
proof -
  from assms(3) obtain ext where e: "ext_marshal (sh_extensions h) = Inr ext" "length (sh_sessionID h) \<le> 32"
    by (auto simp: serverHello_marshal_def bind_ok_eq_Inr split: if_splits)
  obtain es where x: "parseExtensions ext msgServerHello = Inr es" "map_of es = map_of (sh_extensions h)" "length ext \<le> 65535"
    using ext_roundtrip(1) [OF e(1) assms(2), of msgServerHello] ext_roundtrip(2) [OF e(1) assms(2)] by blast
  have b: "b = be_enc 2 (unat legacyVersion) @ sh_random h @ of_nat (length (sh_sessionID h)) # sh_sessionID h @
      be_enc 2 (unat (sh_suite h)) @ 0 # be_enc 2 (length ext) @ ext"
    using assms(3) e x(3) by (simp add: serverHello_marshal_def append_raw_def Let_def del: be_enc.simps)
  have v: "vector16 (new_reader (be_enc 2 (length ext) @ ext)) = (ext, new_reader [])"
    using vector16_enc [of ext "[]"] x(3) by simp
  show ?thesis
    unfolding b parseServerHello_def readUint16_enc rd_take_append [OF assms(1)] Let_def prod.case
    using e x v by (intro exI [of _ es]) (cases h, simp del: be_enc.simps)
qed

text \<open>C35: A ClientHello or ServerHello that \<open>marshal\<close> accepts is parsed back to the same message, with the
  same extension under every type, whatever the order the extensions were stored in.\<close>

theorem hello_roundtrip:
  assumes "length (ch_random h) = 32" "distinct (map fst (ch_extensions h))" "clientHello_marshal h = Inr b"
    and "length (sh_random g) = 32" "distinct (map fst (sh_extensions g))" "serverHello_marshal g = Inr c"
  shows "(\<exists>es. parseClientHello b = Inr (h\<lparr>ch_extensions := es\<rparr>) \<and> map_of es = map_of (ch_extensions h)) \<and>
    (\<exists>es. parseServerHello c = Inr (g\<lparr>sh_extensions := es\<rparr>) \<and> map_of es = map_of (sh_extensions g))"
  using client_hello_roundtrip [OF assms(1-3)] server_hello_roundtrip [OF assms(4-6)] by blast

definition demo_client_hello :: clientHello where
  "demo_client_hello = \<lparr>ch_random = replicate 32 7, ch_sessionID = [], ch_suites = [0x1301],
     ch_extensions = [(51, [0, 1]), (43, [2, 0xfe, 0xfc])]\<rparr>"

definition demo_server_hello :: serverHello where
  "demo_server_hello = \<lparr>sh_random = replicate 32 9, sh_sessionID = [1, 2], sh_suite = 0x1301, sh_extensions = [(43, [0xfe, 0xfc])]\<rparr>"

theorem hello_roundtrip_witness:
  "\<exists>b c es fs. clientHello_marshal demo_client_hello = Inr b \<and> serverHello_marshal demo_server_hello = Inr c \<and>
     parseClientHello b = Inr (demo_client_hello\<lparr>ch_extensions := es\<rparr>) \<and> map_of es 43 = Some [2, 0xfe, 0xfc] \<and>
     parseServerHello c = Inr (demo_server_hello\<lparr>sh_extensions := fs\<rparr>) \<and> map_of fs 43 = Some [0xfe, 0xfc]"
proof -
  have "is_ok (clientHello_marshal demo_client_hello)" "is_ok (serverHello_marshal demo_server_hello)"
    by (simp_all add: clientHello_marshal_def serverHello_marshal_def demo_client_hello_def demo_server_hello_def
        ext_marshal_def marshal_keys_def extPreSharedKey_def append_raw_def Let_def del: be_enc.simps)
  then obtain b c where m: "clientHello_marshal demo_client_hello = Inr b" "serverHello_marshal demo_server_hello = Inr c"
    by (auto simp: is_ok_iff)
  from hello_roundtrip [OF _ _ m(1) _ _ m(2)] obtain es fs where
    "parseClientHello b = Inr (demo_client_hello\<lparr>ch_extensions := es\<rparr>)" "map_of es = map_of (ch_extensions demo_client_hello)"
    "parseServerHello c = Inr (demo_server_hello\<lparr>sh_extensions := fs\<rparr>)" "map_of fs = map_of (sh_extensions demo_server_hello)"
    by (auto simp: demo_client_hello_def demo_server_hello_def)
  with m show ?thesis by (auto simp: demo_client_hello_def demo_server_hello_def)
qed

end
