(* ===== verification/Spec2Isabelle.thy ===== *)
theory Spec2Isabelle
  imports ParseProps Ack FragmentProps TimerProps RecordNumbers MtuProps PathProps PeerProps Offer DriverProps HelloProps
begin

text \<open>
  Verification library of socat in Go (\<open>src/\<close>): a program that opens two addresses given on its command
  line and relays bytes between them.  The development covers the parts whose correctness is a matter of
  computation: the address language and its option catalog, the DTLS 1.3 implementation from its wire format
  up to the loop that drives a connection, and the access control of listening addresses.

  \<^bold>\<open>How the parts interact.\<close>  An address text is scanned and split by \<open>internal/parse\<close>, which asks
  \<open>internal/optionmeta\<close> what an option name means.  A DTLS address opens a connection of \<open>internal/dtls13\<close>.
  Its driver (\<open>conn.go\<close>) owns a session (\<open>session.go\<close>), gives it the datagrams that arrive and the time, and publishes
  the plaintext.  The session reassembles handshake messages (\<open>fragment.go\<close>), hands them to the handshake, sends
  the answers as flights (\<open>flight.go\<close>) of protected records (\<open>record.go\<close>, \<open>protection.go\<close>) under the keys of the
  schedule (\<open>keys.go\<close>, \<open>schedule.go\<close>), and afterwards updates keys and connection identifiers
  (\<open>post_handshake.go\<close>, \<open>connection_id.go\<close>), validates new peer addresses (\<open>path.go\<close>) and searches the path MTU
  (\<open>pmtu*.go\<close>).  A listening address passes every peer through the filter of \<open>internal/xio/peersec.go\<close> and the
  hosts tables of \<open>tcpwrap.go\<close> first.

  \<^bold>\<open>Shared vocabulary.\<close>  \<open>Prelude\<close> has slices, big-endian numbers and \<open>bind_ok\<close>, the propagation of errors.  A Go
  \<open>(value, error)\<close> is a sum with the error on the left; text is \<open>string\<close>, wire data a list of bytes; Go integers keep
  their width as words where the code relies on it (record numbers, epochs, replay windows, option kinds), wrap around by
  \<open>wrap64\<close> where a duration may leave its range (\<open>rtt.go\<close>), and are \<open>nat\<close> or \<open>int\<close>
  where their range is bounded by checks of the code.  Letters are folded in ASCII only.  A \<open>time.Time\<close> is an optional number of nanoseconds, \<open>None\<close> for
  the zero time.  \<open>GoStrings\<close> and \<open>NetAddr\<close> define what the sources use of \<open>strings\<close>, \<open>unicode/utf8\<close>,
  \<open>net\<close>, \<open>net/netip\<close> and \<open>strconv\<close>.

  \<^bold>\<open>Addresses and options.\<close>  \<open>Scanner\<close> is \<open>scanner.go\<close>, \<open>ParseSpec\<close> is \<open>parse.go\<close>, \<open>path.go\<close> and \<open>spec.go\<close>,
  \<open>Optionmeta\<close> the identity data of the catalog.  \<open>ParseLemmas\<close> shows that the scanner loops are folds over the
  text, and \<open>ParseProps\<close> that the parser inverts a renderer of specifications, when it reports unbalanced
  delimiters, where it splits a dual address and options, and that every name of a valid catalog is found.

  \<^bold>\<open>Records.\<close>  \<open>Wire\<close> is \<open>wire.go\<close>, \<open>DtlsRecord\<close> is \<open>record.go\<close> and the per-record half of \<open>protection.go\<close>,
  \<open>Ack\<close> is \<open>ack.go\<close>, \<open>Keys\<close> is \<open>keys.go\<close>, \<open>schedule.go\<close> and \<open>newTrafficKeys\<close>.  \<open>RecordLemmas\<close> and \<open>RecordProps\<close>
  show the round trip of plain and protected records, exact reconstruction of truncated sequence numbers,
  unique nonces, and that the replay window refines the set of numbers accepted, so that no number is
  delivered twice.

  \<^bold>\<open>Messages and flights.\<close>  \<open>Bitset\<close>, \<open>Budget\<close> (\<open>budget.go\<close>) and \<open>Fragment\<close> model reassembly;
  \<open>FragmentLemmas\<close> and \<open>FragmentProps\<close> show that a message is recovered from its fragments in any order and cut, that
  conflicts are refused and that memory stays within its limits.  \<open>Flight\<close> is \<open>flight.go\<close> and \<open>rtt.go\<close>;
  \<open>FlightLemmas\<close> and \<open>FlightProps\<close> show the counters, the burst limit, completion by acknowledgement and the timers.  The theorem of this theory joins both ends: what a
  flight sends, fed to the reassembler of the peer, yields the message.  \<open>Hello\<close> and \<open>Offer\<close> are \<open>hello.go\<close>, \<open>extensions.go\<close> and
  the client offer of \<open>offer.go\<close>; \<open>HelloProps\<close> shows the round trip of both hello messages.

  \<^bold>\<open>Sessions.\<close>  \<open>SessionState\<close> and \<open>SessionFlight\<close> are the state and the write path of \<open>session.go\<close>,
  \<open>PostHandshake\<close> is \<open>post_handshake.go\<close> and \<open>connection_id.go\<close>, \<open>MtuSearch\<close> and \<open>Pmtu\<close> are \<open>pmtu_search.go\<close>, \<open>pmtu.go\<close>,
  \<open>pmtu_discover.go\<close> and \<open>pmtu_probe.go\<close>, \<open>PathValidation\<close> is \<open>path.go\<close>, and \<open>Session\<close> the rest of \<open>session.go\<close>.  The frame
  locales of \<open>SessionFrame\<close> and \<open>SessionRun\<close> say once which elementary updates the operations are made of; a
  property of all runs is an interpretation of them for one relation between states.  \<open>TimerProps\<close> shows that the timers of a
  session send a flight that is never acknowledged at most eight times again and then give up.  The world of a
  session also keeps a ledger of the records it encoded, with their numbers and keys, which only theorems read.

  \<^bold>\<open>Connections.\<close>  \<open>Driver\<close> is \<open>conn.go\<close>: \<open>run_start\<close>, \<open>run_round\<close> and \<open>teardown\<close> are the phases of \<open>connDriver.run\<close>,
  and \<open>driver_step\<close> interleaves its rounds with arriving datagrams, readers, closing and deadlines.  Over
  every run of that relation, \<open>RecordNumbers\<close> shows of the ledger that no record number is used twice and that every
  epoch has one set of keys, \<open>MtuProps\<close> that no
  datagram exceeds the configured MTU (and the arithmetic of writes, probes and the search), \<open>PathProps\<close> that
  an unvalidated address is sent at most three times what came from it and that the address written to is
  the validated peer, and \<open>DriverProps\<close> that the queues respect their bounds and that a handshake ends with
  its deadline.  \<open>SessionDemo\<close> is a concrete connection to which these statements are applied.

  \<^bold>\<open>Access control.\<close>  \<open>HostsTable\<close> and \<open>HostsMatch\<close> are the tables and the patterns of \<open>tcpwrap.go\<close>, \<open>PeerFilter\<close> its
  decision and \<open>peersec.go\<close>.  \<open>PeerProps\<close> shows that a decision is that of the first matching line of the two
  tables as if names were resolved beforehand (the locale \<open>deferred\<close>; \<open>line_outcome\<close> says what a line decides), how lists with \<open>EXCEPT\<close> group, that
  the glob matcher accepts exactly the texts that fit the pattern, what an IPv4 network matches, and that a
  table is read back as written.

  \<^bold>\<open>Termination.\<close>  No definition takes fuel: every loop of the sources that is modelled is a total function with a termination
  proof.  \<open>processHandshakes\<close> ends because each round takes a message out of the reassembler, the
  sending loops of a flight because each record covers a byte, and the loop that draws fresh connection
  identifiers because the random source is a finite list, after which it reports an error.  The driver's
  loop does not end by itself and is a step relation.

  \<^bold>\<open>Parameters.\<close>  The hash, HKDF, AEAD and sequence-number ciphers are fields of records, with what their
  documentation promises as named hypotheses (\<open>keys_ok\<close>); the handshake handler, the outcomes of sends and
  hooks, the random source, the resolver, the files and users of the host are arguments or fields of the state, and
  the theorems quantify over them.

  \<^bold>\<open>Not modelled.\<close>  The handshake proper (\<open>handshake_client.go\<close>, \<open>handshake_server.go\<close>, certificates, signatures,
  key exchange, cookies), which rests on Go's cryptographic packages, and the certificate request codecs of
  \<open>offer.go\<close>; the listener and the transport of \<open>dtls13\<close> (\<open>listener.go\<close>, \<open>admission.go\<close>, \<open>transport.go\<close>), which are
  goroutines over a socket, except for the session an admitted hello starts with; the sharing of a memory budget
  between connections; the blocking of callers
  inside \<open>Read\<close> and \<open>execute\<close>; the relay, the openers of \<open>internal/xio\<close>, terminal and socket options, descriptor inspection,
  logging and the command line, which are system calls; the decoding of option values in \<open>internal/addrconfig\<close>; the
  option tables themselves, over which the catalog theorems quantify; log warnings and the wording of errors.
\<close>

section \<open>From a flight to the reassembler\<close>

text \<open>\<open>transmissions send f s f' s'\<close>: a series of successful calls of \<open>transmit\<close>.\<close>

inductive transmissions :: "'s sender \<Rightarrow> flight \<Rightarrow> 's \<Rightarrow> flight \<Rightarrow> 's \<Rightarrow> bool" for send f s where
  none: "transmissions send f s f s"
| more: "transmissions send f s f1 s1 \<Longrightarrow> 1 \<le> capacity \<Longrightarrow> capacity \<le> 16372 \<Longrightarrow>
    transmit send now capacity f1 s1 = (None, f2, s2) \<Longrightarrow> transmissions send f s f2 s2"

text \<open>The state of the callback keeps the fragments it accepted.\<close>

definition logs :: "'s sender \<Rightarrow> ('s \<Rightarrow> byte list list) \<Rightarrow> bool" where
  "logs send log \<longleftrightarrow> (\<forall>s ep b n s'. send s ep b = (Inr n, s') \<longrightarrow> log s' = log s @ [b])"

lemma send_steps_log:
  "send_steps send now capacity onlyNew f s L f' s' \<Longrightarrow> logs send log \<Longrightarrow> log s' = log s @ map snd L"
  by (induction rule: send_steps.induct) (auto simp: logs_def)

lemma send_steps_index:
  "send_steps send now capacity onlyNew f s L f' s' \<Longrightarrow> length (messages f) = 1 \<Longrightarrow>
   length (messages f') = 1 \<and> filter (\<lambda>(k, b). k = 0) L = L"
  by (induction rule: send_steps.induct) auto

text \<open>Invariant of a series of transmissions of one message.\<close>

definition delivering :: "handshakeMessage \<Rightarrow> flight \<Rightarrow> byte list list \<Rightarrow> bool" where
  "delivering m f fs \<longleftrightarrow> flight_ok f \<and> \<not> complete f \<and> length (messages f) = 1 \<and> out_message (messages f ! 0) = m \<and>
     \<not> emptyAcknowledged (messages f ! 0) \<and>
     (\<forall>j < length (msg_body m). \<not> hasByte (messages f ! 0) j) \<and> (emptySent (messages f ! 0) \<longrightarrow> fs \<noteq> []) \<and>
     (\<exists>S. frags m fs S \<and> (\<forall>j < length (msg_body m). hasSent (messages f ! 0) j \<longleftrightarrow> j \<in> S))"

lemma delivering_new:
  assumes "newFlight [m] ival = Inr f"
  shows "delivering m f []"
proof -
  have ms: "messages f = [new_outbound m]" using newFlight_ok(3) [OF assms] by simp
  then show ?thesis
    using newFlight_ok(1,2) [OF assms] new_outbound_clear [of _ m] frags.none
    by (auto simp: delivering_def new_outbound_def)
qed

lemma delivering_step:
  assumes d: "delivering m f fs" and t: "transmit send now capacity f s = (None, f', s')"
    and cap: "1 \<le> capacity" "capacity \<le> 16372" and lg: "logs send log"
  shows "\<exists>gs. log s' = log s @ gs \<and> delivering m f' (fs @ gs)"
proof -
  have ok: "flight_ok f" "\<not> complete f" using d by (simp_all add: delivering_def)
  have len: "length (messages f) = 1" "0 < length (messages f)" using d by (simp_all add: delivering_def)
  have cap': "capacity \<le> int (maxContent - handshakeHeader)" using cap(2) by (simp add: maxContent_def handshakeHeader_def)
  from transmit_steps [OF t ok cap(1) cap'] obtain b L f1 s1 where st:
    "send_steps send now (nat capacity) b f s L f1 s1" "messages f' = messages f1" "fl_sent f' = fl_sent f1"
    "interval f' = interval f1" "retries f' = retries f1" "complete f' = complete f1" "s' = s1" by metis
  note ok1 = send_steps_ok [OF st(1) ok]
  note fr = send_steps_frame [OF st(1) len(2)]
  note ix = send_steps_index [OF st(1) len(1)]
  obtain T where T: "frags (out_message (messages f ! 0)) (map snd (filter (\<lambda>(k, b). k = 0) L)) T"
    "\<forall>j < blen (messages f ! 0). hasSent (messages f1 ! 0) j \<longleftrightarrow> hasSent (messages f ! 0) j \<or> j \<in> T"
    using send_steps_frags [OF st(1) ok len(2)] by blast
  from d obtain S where S: "frags m fs S" "\<forall>j < length (msg_body m). hasSent (messages f ! 0) j \<longleftrightarrow> j \<in> S"
    by (auto simp: delivering_def)
  have om: "out_message (messages f ! 0) = m" using d by (simp add: delivering_def)
  have T': "frags m (map snd L) T" "\<forall>j < length (msg_body m). hasSent (messages f1 ! 0) j \<longleftrightarrow> hasSent (messages f ! 0) j \<or> j \<in> T"
    using T ix om by simp_all
  have "frags m (fs @ map snd L) (S \<union> T)" by (rule frags_append [OF S(1) T'(1)])
  moreover have "\<forall>j < length (msg_body m). hasSent (messages f1 ! 0) j \<longleftrightarrow> j \<in> S \<union> T" using S(2) T'(2) by auto
  moreover have "emptySent (messages f1 ! 0) \<longrightarrow> fs @ map snd L \<noteq> []"
    using d send_steps_Nil [of send now "nat capacity" b f s f1 s1] st(1) by (cases L) (auto simp: delivering_def)
  moreover have "flight_ok f'" using ok1 st flight_ok_cong [of f' f1] by simp
  ultimately have "delivering m f' (fs @ map snd L)"
    using d ok1 fr ix st unfolding delivering_def by (auto simp: hasByte_def)
  then show ?thesis using send_steps_log [OF st(1) lg] st(7) by blast
qed

lemma transmissions_delivering:
  assumes "transmissions send f s f' s'" "delivering m f []" "logs send log" "log s = []"
  shows "delivering m f' (log s')"
  using assms
proof (induction rule: transmissions.induct)
  case (more f1 s1 capacity now f2 s2)
  from delivering_step [OF more(5) [OF more(6-8)] more(4,2,3,7)] show ?case by auto
qed simp

lemma frags_datagrams: "frags m fs S \<Longrightarrow> datagrams m fs S"
proof (induction rule: frags.induct)
  case (more off len b fs S)
  from datagrams.more [OF frags.more [OF more(1) frags.none] more(3)] show ?case by simp
qed (rule datagrams.none)

lemma frags_nonempty: "frags m fs S \<Longrightarrow> b \<in> set fs \<Longrightarrow> b \<noteq> []"
  by (induction rule: frags.induct) (auto dest: fragment_parse(5))

text \<open>C6: what a flight sends is what the peer reassembles.  A handshake message is handed to
  \<open>newFlight\<close> and transmitted in any number of bursts of any capacities until nothing is pending; the
  peer, which expects that message, feeds the fragments it receives to its reassembler: \<open>pop\<close> then
  delivers the message, byte for byte.  The callback is any function that keeps what it accepted.\<close>

theorem flight_delivers_message:
  assumes "newFlight [m] ival = Inr f" "transmissions send f s f' s'" "\<not> pendingSend f'"
    and "logs send log" "log s = []"
    and "reassembling b r" "next_seq r = ucast (msg_sequence m)" "map_of (pending r) (msg_sequence m) = None"
    and "fst (reserve (budget r) (fragmentCost (length (msg_body m))))"
  shows "fst (pop (feed (msg_epoch m) r (log s'))) = Some m"
proof -
  have d: "delivering m f' (log s')"
    by (rule transmissions_delivering [OF assms(2) delivering_new [OF assms(1)] assms(4,5)])
  then obtain S where S: "frags m (log s') S" "\<forall>j < length (msg_body m). hasSent (messages f' ! 0) j \<longleftrightarrow> j \<in> S"
    by (auto simp: delivering_def)
  have "covered (messages f' ! 0) 0"
    using assms(3) d pendingSend_covered [of f'] by (auto simp: delivering_def)
  then have c: "\<forall>j < length (msg_body m). j \<in> S" "msg_body m = [] \<longrightarrow> log s' \<noteq> []"
    using d S(2) by (auto simp: covered_def wanted_def delivering_def)
  have "log s' \<noteq> []"
  proof (cases "msg_body m")
    case (Cons a as)
    then have "S \<noteq> {}" using c(1) by auto
    then show ?thesis using S(1) by (auto elim: frags.cases)
  qed (use c in simp)
  then have ne: "\<exists>d \<in> set (log s'). d \<noteq> []" using frags_nonempty [OF S(1)] by (meson last_in_set)
  have "expecting m r" using assms reassembling_ok [OF assms(6)] by (simp add: expecting_def)
  from feed_expecting [OF frags_datagrams [OF S(1)] this] ne
  have "collecting m S (feed (msg_epoch m) r (log s'))" by blast
  then show ?thesis using c(1) by (intro pop_collected) auto
qed

theorem flight_delivers_message_witness:
  "\<exists>f f' s'. newFlight [empty_message] 0 = Inr f \<and> transmit log_send 7 100 f (0, []) = (None, f', s') \<and>
     fst (pop (feed 0 (new_reassembler 0 None) (snd s'))) = Some empty_message"
proof -
  obtain f f' s' where f: "newFlight [empty_message] 0 = Inr f" and t: "transmit log_send 7 100 f (0, []) = (None, f', s')"
    and np: "\<not> pendingSend f'"
    using empty_flight by blast
  have tr: "transmissions log_send f (0, []) f' s'"
    by (rule transmissions.more [OF transmissions.none _ _ t]) simp_all
  have lg: "logs log_send snd" by (auto simp: logs_def log_send_def split: prod.splits)
  have "fst (pop (feed (msg_epoch empty_message) (new_reassembler 0 None) (snd s'))) = Some empty_message"
    by (rule flight_delivers_message [OF f tr np lg _ reassembling.start])
       (simp_all add: new_reassembler_def empty_message_def reserve_def)
  moreover have "msg_epoch empty_message = 0" by (simp add: empty_message_def)
  ultimately show ?thesis using f t by metis
qed

end
